(* ===== verification/Prelude.thy ===== *)
theory Prelude
  imports Main "HOL-Library.Char_ord" "HOL-Library.List_Lexorder" "HOL-Library.Sublist"
begin

text \<open>
  What every component shares: fallible results, bytes and byte classes, the string
  operations of the Rust standard library that the crate uses, and bounded integer
  arithmetic.

  A Rust \<open>&str\<close>, \<open>String\<close>, \<open>&[u8]\<close> or header value is a list of bytes, and a byte is an
  8-bit \<open>char\<close>; \<open>len()\<close> counts bytes, so it is \<open>length\<close>, and the order of strings is
  the byte-wise lexicographic order of \<open>List_Lexorder\<close> over \<open>Char_ord\<close>. Unsigned
  integers (\<open>u64\<close>, and \<open>usize\<close> on a 64-bit target) are naturals; the operations that can
  leave the range are written out (\<open>checked_add\<close>, \<open>checked_mul\<close>, \<open>saturating_add\<close>).
\<close>

named_theorems byte_defs "definitions of the byte classes"
named_theorems result_intros "introduction of successful results"

subsection \<open>Results\<close>

text \<open>\<open>Result<T, E>\<close> is \<open>'e + 'a\<close>; \<open>and_then\<close> is sequencing with the \<open>?\<close> operator.\<close>

abbreviation Ok :: "'a \<Rightarrow> 'e + 'a" where "Ok \<equiv> Inr"
abbreviation Err :: "'e \<Rightarrow> 'e + 'a" where "Err \<equiv> Inl"

fun and_then :: "'e + 'a \<Rightarrow> ('a \<Rightarrow> 'e + 'b) \<Rightarrow> 'e + 'b" where
  "and_then (Inl e) f = Inl e"
| "and_then (Inr a) f = f a"

fun map_err :: "('e \<Rightarrow> 'f) \<Rightarrow> 'e + 'a \<Rightarrow> 'f + 'a" where
  "map_err g (Inl e) = Inl (g e)"
| "map_err g (Inr a) = Inr a"

fun ok_or :: "'e \<Rightarrow> 'a option \<Rightarrow> 'e + 'a" where
  "ok_or e None = Inl e"
| "ok_or e (Some a) = Inr a"

fun is_ok :: "'e + 'a \<Rightarrow> bool" where
  "is_ok (Inl e) = False"
| "is_ok (Inr a) = True"

lemma and_then_eq_Ok [simp]:
  "and_then r f = Inr b \<longleftrightarrow> (\<exists>a. r = Inr a \<and> f a = Inr b)"
  by (cases r) auto

lemma and_then_eq_Err [simp]:
  "and_then r f = Inl e \<longleftrightarrow> r = Inl e \<or> (\<exists>a. r = Inr a \<and> f a = Inl e)"
  by (cases r) auto

lemma map_err_eq_Ok [simp]: "map_err g r = Inr a \<longleftrightarrow> r = Inr a"
  by (cases r) auto

lemma map_err_eq_Err [simp]: "map_err g r = Inl f \<longleftrightarrow> (\<exists>e. r = Inl e \<and> f = g e)"
  by (cases r) auto

lemma ok_or_eq_Ok [simp]: "ok_or e r = Inr a \<longleftrightarrow> r = Some a"
  by (cases r) auto

lemma ok_or_eq_Err [simp]: "ok_or e r = Inl f \<longleftrightarrow> r = None \<and> f = e"
  by (cases r) auto

lemma is_ok_iff: "is_ok r \<longleftrightarrow> (\<exists>a. r = Inr a)"
  by (cases r) auto

lemma not_Ok_iff: "(\<forall>a. r \<noteq> Inr a) \<longleftrightarrow> (\<exists>e. r = Inl e)"
  by (cases r) auto

subsection \<open>Bytes\<close>

abbreviation byte_val :: "char \<Rightarrow> nat" where "byte_val c \<equiv> of_char c"

definition is_ascii :: "char \<Rightarrow> bool" where
  [byte_defs]: "is_ascii c \<longleftrightarrow> byte_val c < 128"

definition is_ascii_digit :: "char \<Rightarrow> bool" where
  [byte_defs]: "is_ascii_digit c \<longleftrightarrow> 48 \<le> byte_val c \<and> byte_val c \<le> 57"

definition is_ascii_lowercase :: "char \<Rightarrow> bool" where
  [byte_defs]: "is_ascii_lowercase c \<longleftrightarrow> 97 \<le> byte_val c \<and> byte_val c \<le> 122"

definition is_ascii_uppercase :: "char \<Rightarrow> bool" where
  [byte_defs]: "is_ascii_uppercase c \<longleftrightarrow> 65 \<le> byte_val c \<and> byte_val c \<le> 90"

definition is_ascii_alphanumeric :: "char \<Rightarrow> bool" where
  [byte_defs]: "is_ascii_alphanumeric c \<longleftrightarrow>
     is_ascii_uppercase c \<or> is_ascii_lowercase c \<or> is_ascii_digit c"

definition is_ascii_hexdigit :: "char \<Rightarrow> bool" where
  [byte_defs]: "is_ascii_hexdigit c \<longleftrightarrow> is_ascii_digit c \<or>
     65 \<le> byte_val c \<and> byte_val c \<le> 70 \<or> 97 \<le> byte_val c \<and> byte_val c \<le> 102"

definition is_ascii_control :: "char \<Rightarrow> bool" where
  [byte_defs]: "is_ascii_control c \<longleftrightarrow> byte_val c < 32 \<or> byte_val c = 127"

definition to_ascii_lowercase :: "char \<Rightarrow> char" where
  "to_ascii_lowercase c = (if is_ascii_uppercase c then char_of (byte_val c + 32) else c)"

definition eq_ignore_ascii_case :: "string \<Rightarrow> string \<Rightarrow> bool" where
  "eq_ignore_ascii_case s t \<longleftrightarrow> map to_ascii_lowercase s = map to_ascii_lowercase t"

abbreviation SLASH :: char where "SLASH \<equiv> CHR ''/''"
abbreviation BACKSLASH :: char where "BACKSLASH \<equiv> CHR 0x5C"
abbreviation DQUOTE :: char where "DQUOTE \<equiv> CHR 0x22"
abbreviation SQUOTE :: char where "SQUOTE \<equiv> CHR 0x27"
abbreviation HTAB :: char where "HTAB \<equiv> CHR 0x09"

lemma slash_not_alphanumeric [simp]: "\<not> is_ascii_alphanumeric SLASH"
  by (simp add: byte_defs)

lemma digit_is_hexdigit: "is_ascii_digit c \<Longrightarrow> is_ascii_hexdigit c"
  by (simp add: is_ascii_hexdigit_def)

lemma alphanumeric_is_ascii: "is_ascii_alphanumeric c \<Longrightarrow> is_ascii c"
  by (auto simp: byte_defs)

lemma alphanumeric_not_control: "is_ascii_alphanumeric c \<Longrightarrow> \<not> is_ascii_control c"
  by (auto simp: byte_defs)

subsection \<open>Strings\<close>

text \<open>\<open>str::starts_with\<close>, \<open>ends_with\<close>, \<open>contains([..])\<close>, \<open>strip_prefix\<close>.\<close>

abbreviation starts_with :: "string \<Rightarrow> string \<Rightarrow> bool" where
  "starts_with s p \<equiv> prefix p s"

abbreviation ends_with :: "string \<Rightarrow> string \<Rightarrow> bool" where
  "ends_with s p \<equiv> suffix p s"

definition contains_any :: "string \<Rightarrow> char list \<Rightarrow> bool" where
  "contains_any s cs \<longleftrightarrow> list_ex (\<lambda>c. c \<in> set cs) s"

fun strip_prefix :: "string \<Rightarrow> string \<Rightarrow> string option" where
  "strip_prefix [] s = Some s"
| "strip_prefix (p # ps) [] = None"
| "strip_prefix (p # ps) (c # cs) = (if p = c then strip_prefix ps cs else None)"

text \<open>
  \<open>str::split(d)\<close> always yields at least one segment; \<open>split_once(d)\<close> cuts at the first
  \<open>d\<close>; \<open>join\<close> is \<open>[&str]::join\<close> with a one-byte separator.
\<close>

fun split_on :: "char \<Rightarrow> string \<Rightarrow> string list" where
  "split_on d [] = [[]]"
| "split_on d (c # cs) =
     (if c = d then [] # split_on d cs
      else (case split_on d cs of [] \<Rightarrow> [[c]] | s # ss \<Rightarrow> (c # s) # ss))"

fun join_with :: "char \<Rightarrow> string list \<Rightarrow> string" where
  "join_with d [] = []"
| "join_with d [s] = s"
| "join_with d (s # t # ss) = s @ d # join_with d (t # ss)"

fun split_once :: "char \<Rightarrow> string \<Rightarrow> (string \<times> string) option" where
  "split_once d [] = None"
| "split_once d (c # cs) =
     (if c = d then Some ([], cs) else map_option (\<lambda>(a, b). (c # a, b)) (split_once d cs))"

text \<open>\<open>str::trim_end_matches(d)\<close> drops every trailing \<open>d\<close>.\<close>

definition trim_end_matches :: "char \<Rightarrow> string \<Rightarrow> string" where
  "trim_end_matches d s = rev (dropWhile (\<lambda>c. c = d) (rev s))"

text \<open>\<open>str::rfind(d)\<close>: the position of the last \<open>d\<close>.\<close>

fun rfind :: "char \<Rightarrow> string \<Rightarrow> nat option" where
  "rfind d [] = None"
| "rfind d (c # cs) =
     (case rfind d cs of Some i \<Rightarrow> Some (Suc i) | None \<Rightarrow> if c = d then Some 0 else None)"

text \<open>
  \<open>str::from_utf8\<close> succeeds on the well-formed sequences of the Unicode standard (no overlong
  form, no surrogate, nothing above U+10FFFF).
\<close>

abbreviation between :: "nat \<Rightarrow> nat \<Rightarrow> char \<Rightarrow> bool" where
  "between lo hi c \<equiv> lo \<le> byte_val c \<and> byte_val c \<le> hi"

definition utf8_second :: "char \<Rightarrow> char \<Rightarrow> bool" where
  "utf8_second a b \<longleftrightarrow>
     (if byte_val a = (224::nat) then between 160 191 b
      else if byte_val a = (237::nat) then between 128 159 b
      else if byte_val a = (240::nat) then between 144 191 b
      else if byte_val a = (244::nat) then between 128 143 b
      else between 128 191 b)"

fun is_utf8 :: "string \<Rightarrow> bool" where
  "is_utf8 [] = True"
| "is_utf8 (a # s) =
     (if is_ascii a then is_utf8 s
      else if between 194 223 a then (case s of b # r \<Rightarrow> utf8_second a b \<and> is_utf8 r | _ \<Rightarrow> False)
      else if between 224 239 a then
        (case s of b # c # r \<Rightarrow> utf8_second a b \<and> between 128 191 c \<and> is_utf8 r | _ \<Rightarrow> False)
      else if between 240 244 a then
        (case s of b # c # d # r \<Rightarrow>
           utf8_second a b \<and> between 128 191 c \<and> between 128 191 d \<and> is_utf8 r | _ \<Rightarrow> False)
      else False)"

lemma ascii_is_utf8: "list_all is_ascii s \<Longrightarrow> is_utf8 s"
  by (induction s) auto

lemma contains_any_iff: "contains_any s cs \<longleftrightarrow> (\<exists>c \<in> set s. c \<in> set cs)"
  by (simp add: contains_any_def list_ex_iff)

lemma contains_any_append [simp]:
  "contains_any (s @ t) cs \<longleftrightarrow> contains_any s cs \<or> contains_any t cs"
  by (auto simp: contains_any_iff)

lemma strip_prefix_Some_iff [simp]: "strip_prefix p s = Some r \<longleftrightarrow> s = p @ r"
  by (induction p s rule: strip_prefix.induct) auto

lemma strip_prefix_append [simp]: "strip_prefix p (p @ r) = Some r"
  by simp

lemma strip_prefix_append_Cons [simp]: "strip_prefix (p @ [c]) (p @ c # r) = Some r"
  by simp

lemma strip_prefix_None_iff: "strip_prefix p s = None \<longleftrightarrow> \<not> prefix p s"
  by (induction p s rule: strip_prefix.induct) auto

lemma prefix_append_iff: "prefix p s \<longleftrightarrow> (\<exists>r. s = p @ r)"
  by (simp add: prefix_def)

lemma suffix_single_iff: "suffix [c] s \<longleftrightarrow> s \<noteq> [] \<and> last s = c"
  by (metis append_butlast_last_id last_snoc snoc_eq_iff_butlast suffix_def)

lemma split_on_not_Nil [simp]: "split_on d s \<noteq> []"
  by (induction s) (auto split: list.splits)

lemma split_on_Cons_other:
  "c \<noteq> d \<Longrightarrow> split_on d (c # s) = (c # hd (split_on d s)) # tl (split_on d s)"
  by (cases "split_on d s") auto

lemma split_on_no_sep: "d \<notin> set s \<Longrightarrow> split_on d s = [s]"
  by (induction s) auto

lemma split_on_append_sep:
  "split_on d (s @ d # t) = split_on d s @ split_on d t"
  by (induction s) (auto split: list.splits)

lemma split_on_sep_free: "s \<in> set (split_on d t) \<Longrightarrow> d \<notin> set s"
proof (induction t arbitrary: s)
  case (Cons c t)
  then show ?case by (auto split: if_splits list.splits)
qed simp

lemma set_split_on_subset: "s \<in> set (split_on d t) \<Longrightarrow> set s \<subseteq> set t"
proof (induction t arbitrary: s)
  case (Cons c t)
  then show ?case by (auto split: if_splits list.splits) fastforce+
qed simp

lemma join_with_Cons: "ss \<noteq> [] \<Longrightarrow> join_with d (s # ss) = s @ d # join_with d ss"
  by (cases ss) auto

lemma join_with_append:
  "ss \<noteq> [] \<Longrightarrow> ts \<noteq> [] \<Longrightarrow> join_with d (ss @ ts) = join_with d ss @ d # join_with d ts"
proof (induction ss)
  case (Cons s ss)
  then show ?case by (cases "ss = []") (auto simp: join_with_Cons)
qed simp

lemma prefix_hd_join: "ss \<noteq> [] \<Longrightarrow> prefix (hd ss) (join_with d ss)"
  by (cases "tl ss"; cases ss) auto

lemma join_split_on [simp]: "join_with d (split_on d s) = s"
proof (induction s)
  case (Cons c s)
  show ?case
  proof (cases "c = d")
    case True
    with Cons show ?thesis by (simp add: join_with_Cons)
  next
    case False
    obtain t ts where "split_on d s = t # ts" by (cases "split_on d s") auto
    with Cons False show ?thesis by (cases ts) auto
  qed
qed simp

lemma split_on_join:
  "ss \<noteq> [] \<Longrightarrow> \<forall>s \<in> set ss. d \<notin> set s \<Longrightarrow> split_on d (join_with d ss) = ss"
proof (induction ss)
  case (Cons s ss)
  then show ?case
    by (cases "ss = []") (simp_all add: join_with_Cons split_on_append_sep split_on_no_sep)
qed simp

lemma set_join_with: "set (join_with d ss) \<subseteq> insert d (\<Union> (set ` set ss))"
  by (induction d ss rule: join_with.induct) auto

lemma split_once_Some_iff:
  "split_once d s = Some (a, b) \<longleftrightarrow> s = a @ d # b \<and> d \<notin> set a"
proof (induction s arbitrary: a)
  case (Cons c s)
  then show ?case by (cases a) auto
qed simp

lemma split_once_None_iff: "split_once d s = None \<longleftrightarrow> d \<notin> set s"
  by (induction s) auto

lemma trim_end_matches_append_sep [simp]:
  "trim_end_matches d (s @ [d]) = trim_end_matches d s"
  by (simp add: trim_end_matches_def)

lemma trim_end_matches_id:
  "\<not> suffix [d] s \<Longrightarrow> trim_end_matches d s = s"
  by (cases s rule: rev_cases) (auto simp: trim_end_matches_def suffix_def)

subsection \<open>Bounded integers\<close>

abbreviation U64_LIMIT :: nat where "U64_LIMIT \<equiv> 18446744073709551616"

definition checked_add :: "nat \<Rightarrow> nat \<Rightarrow> nat option" where
  "checked_add a b = (if a + b < U64_LIMIT then Some (a + b) else None)"

definition checked_mul :: "nat \<Rightarrow> nat \<Rightarrow> nat option" where
  "checked_mul a b = (if a * b < U64_LIMIT then Some (a * b) else None)"

definition saturating_add :: "nat \<Rightarrow> nat \<Rightarrow> nat" where
  "saturating_add a b = min (a + b) (U64_LIMIT - 1)"

lemma checked_add_eq_Some [simp]: "checked_add a b = Some c \<longleftrightarrow> c = a + b \<and> c < U64_LIMIT"
  by (auto simp: checked_add_def)

lemma checked_add_eq_None [simp]: "checked_add a b = None \<longleftrightarrow> U64_LIMIT \<le> a + b"
  by (auto simp: checked_add_def)

lemma checked_mul_eq_Some [simp]: "checked_mul a b = Some c \<longleftrightarrow> c = a * b \<and> c < U64_LIMIT"
  by (auto simp: checked_mul_def)

lemma checked_mul_eq_None [simp]: "checked_mul a b = None \<longleftrightarrow> U64_LIMIT \<le> a * b"
  by (auto simp: checked_mul_def)

subsection \<open>Decimal numbers\<close>

text \<open>
  The value of a digit string, and the accumulating loop
  \<open>try_fold(0_u64, |n, b| n.checked_mul(10)?.checked_add(u64::from(b - b'0')))\<close>
  that two components of the crate run over bytes already known to be digits.
\<close>

definition digit_val :: "char \<Rightarrow> nat" where
  "digit_val c = byte_val c - 48"

definition decimal_val :: "string \<Rightarrow> nat" where
  "decimal_val s = foldl (\<lambda>n c. 10 * n + digit_val c) 0 s"

fun fold_decimal :: "nat \<Rightarrow> string \<Rightarrow> nat option" where
  "fold_decimal n [] = Some n"
| "fold_decimal n (c # cs) =
     (case checked_mul n 10 of
        None \<Rightarrow> None
      | Some m \<Rightarrow> (case checked_add m (digit_val c) of None \<Rightarrow> None | Some k \<Rightarrow> fold_decimal k cs))"

lemma digit_val_le: "is_ascii_digit c \<Longrightarrow> digit_val c \<le> 9"
  by (auto simp: is_ascii_digit_def digit_val_def)

lemma foldl_decimal_ge: "n \<le> foldl (\<lambda>n c. 10 * n + digit_val c) n s"
proof (induction s arbitrary: n)
  case (Cons c s)
  have "n \<le> 10 * n + digit_val c" by simp
  also have "\<dots> \<le> foldl (\<lambda>n c. 10 * n + digit_val c) (10 * n + digit_val c) s"
    by (rule Cons)
  finally show ?case by simp
qed simp

text \<open>The loop returns the value exactly when the value fits in 64 bits.\<close>

lemma fold_decimal_eq:
  "n < U64_LIMIT \<Longrightarrow> fold_decimal n s =
     (let v = foldl (\<lambda>n c. 10 * n + digit_val c) n s in if v < U64_LIMIT then Some v else None)"
proof (induction s arbitrary: n)
  case (Cons c s)
  let ?n = "10 * n + digit_val c"
  have ge: "?n \<le> foldl (\<lambda>n c. 10 * n + digit_val c) ?n s" by (rule foldl_decimal_ge)
  show ?case
  proof (cases "?n < U64_LIMIT")
    case True
    then have "fold_decimal n (c # s) = fold_decimal ?n s"
      by (simp add: checked_mul_def checked_add_def mult.commute)
    with Cons.IH[OF True] show ?thesis by simp
  next
    case False
    then have "fold_decimal n (c # s) = None"
      by (auto simp: checked_mul_def checked_add_def mult.commute)
    moreover from False ge have "\<not> foldl (\<lambda>n c. 10 * n + digit_val c) ?n s < U64_LIMIT"
      by linarith
    ultimately show ?thesis by (simp only: foldl_Cons Let_def if_False)
  qed
qed simp

lemma fold_decimal_0:
  "fold_decimal 0 s = (if decimal_val s < U64_LIMIT then Some (decimal_val s) else None)"
  by (simp add: fold_decimal_eq decimal_val_def)


text \<open>\<open>u64::to_string\<close>.\<close>

fun decimal_string :: "nat \<Rightarrow> string" where
  "decimal_string n =
     (if n < 10 then [char_of (48 + n)] else decimal_string (n div 10) @ [char_of (48 + n mod 10)])"

declare decimal_string.simps [simp del]

lemma digit_char:
  "n < 10 \<Longrightarrow> is_ascii_digit (char_of (48 + n)) \<and> digit_val (char_of (48 + n)) = (n::nat)"
  by (simp add: is_ascii_digit_def digit_val_def)

lemma decimal_string_digits: "decimal_string n \<noteq> [] \<and> list_all is_ascii_digit (decimal_string n)"
proof (induction n rule: decimal_string.induct)
  case (1 n)
  then show ?case
    using digit_char[of n] digit_char[of "n mod 10"] by (subst (1 2) decimal_string.simps) simp
qed

lemma decimal_val_append: "decimal_val (s @ [c]) = 10 * decimal_val s + digit_val c"
  by (simp add: decimal_val_def)

lemma decimal_val_string [simp]: "decimal_val (decimal_string n) = n"
proof (induction n rule: decimal_string.induct)
  case (1 n)
  show ?case
  proof (cases "n < 10")
    case True
    then show ?thesis
      using digit_char[of n] by (subst decimal_string.simps) (simp add: decimal_val_def)
  next
    case False
    then show ?thesis
      using 1 digit_char[of "n mod 10"] by (subst decimal_string.simps) (simp add: decimal_val_append)
  qed
qed


text \<open>\<open>str::parse::<u64>\<close>: decimal digits after an optional plus sign, within 64 bits.\<close>

definition parse_u64 :: "string \<Rightarrow> nat option" where
  "parse_u64 s =
     (let digits = (case s of c # cs \<Rightarrow> if c = CHR ''+'' then cs else s | [] \<Rightarrow> s) in
      if digits = [] \<or> \<not> list_all is_ascii_digit digits then None else fold_decimal 0 digits)"

lemma parse_u64_decimal_string: "n < U64_LIMIT \<Longrightarrow> parse_u64 (decimal_string n) = Some n"
proof -
  assume n: "n < U64_LIMIT"
  obtain c cs where s: "decimal_string n = c # cs" using decimal_string_digits[of n] by (cases "decimal_string n") auto
  have digits: "list_all is_ascii_digit (c # cs)" using decimal_string_digits[of n] by (simp only: s)
  then have "c \<noteq> CHR ''+''" by (auto simp: is_ascii_digit_def)
  with digits have "parse_u64 (c # cs) = fold_decimal 0 (c # cs)" by (simp add: parse_u64_def del: fold_decimal.simps)
  also have "\<dots> = Some n" using fold_decimal_0[of "decimal_string n"] n by (simp only: s[symmetric] decimal_val_string if_True)
  finally show ?thesis by (simp only: s)
qed

end
