(* ===== verification/Ordered_Map.thy ===== *)
theory Ordered_Map
  imports Prelude
begin

text \<open>
  \<open>std::collections::BTreeMap\<close> and the interface its users rely on.

  The components use a \<open>BTreeMap\<close> for three things: lookup by key, the order in which
  \<open>keys()\<close>, \<open>values()\<close> and \<open>iter()\<close> yield the entries, and \<open>pop_first\<close>. The model is the
  list of its entries in ascending key order. The locale \<open>ordered_map\<close> states the
  contract, its client lemmas are proved inside it, and the interpretation \<open>bt\<close> gives them
  for the model.
\<close>

subsection \<open>The interface\<close>

locale ordered_map =
  fixes empty :: "'m"
    and insert :: "'k::linorder \<Rightarrow> 'v \<Rightarrow> 'm \<Rightarrow> 'm"
    and remove :: "'k \<Rightarrow> 'm \<Rightarrow> 'm"
    and lookup :: "'m \<Rightarrow> 'k \<Rightarrow> 'v option"
    and entries :: "'m \<Rightarrow> ('k \<times> 'v) list"
    and wf :: "'m \<Rightarrow> bool"
  assumes wf_empty: "wf empty"
    and wf_insert: "wf m \<Longrightarrow> wf (insert k v m)"
    and wf_remove: "wf m \<Longrightarrow> wf (remove k m)"
    and lookup_empty: "lookup empty = Map.empty"
    and lookup_insert: "wf m \<Longrightarrow> lookup (insert k v m) = (lookup m)(k \<mapsto> v)"
    and lookup_remove: "wf m \<Longrightarrow> lookup (remove k m) = (lookup m)(k := None)"
    and entries_ascending: "wf m \<Longrightarrow> sorted_wrt (<) (map fst (entries m))"
    and entries_lookup: "wf m \<Longrightarrow> map_of (entries m) = lookup m"
    and entries_inject: "wf m \<Longrightarrow> wf n \<Longrightarrow> entries m = entries n \<Longrightarrow> m = n"
begin

lemma distinct_keys: "wf m \<Longrightarrow> distinct (map fst (entries m))"
  using entries_ascending strict_sorted_iff by blast

lemma set_entries: "wf m \<Longrightarrow> (k, v) \<in> set (entries m) \<longleftrightarrow> lookup m k = Some v"
  using distinct_keys entries_lookup map_of_eq_Some_iff by metis

lemma set_keys: "wf m \<Longrightarrow> set (map fst (entries m)) = dom (lookup m)"
  using set_entries by (force simp: dom_def)

text \<open>Two maps that answer every lookup alike are the same map, in the same order.\<close>

lemma lookup_inject:
  assumes wf: "wf m" "wf n" and eq: "lookup m = lookup n"
  shows "m = n"
proof -
  have "map_of (entries m) = map_of (entries n)"
    using wf eq by (simp add: entries_lookup)
  then have sets: "set (entries m) = set (entries n)"
    using wf by (simp add: map_of_inject_set distinct_keys)
  have "inj_on fst (set (entries m))"
    using distinct_keys[OF wf(1)] by (simp add: distinct_map)
  then have "entries m = entries n"
    using sets distinct_keys[OF wf(1)] distinct_keys[OF wf(2)]
      entries_ascending[OF wf(1)] entries_ascending[OF wf(2)]
    by (intro map_sorted_distinct_set_unique[of fst]) (simp_all add: strict_sorted_iff)
  then show ?thesis by (rule entries_inject[OF wf])
qed

lemma insert_commute:
  "wf m \<Longrightarrow> k \<noteq> l \<Longrightarrow> insert k v (insert l w m) = insert l w (insert k v m)"
  by (rule lookup_inject) (simp_all add: wf_insert lookup_insert fun_upd_twist)

lemma insert_same: "wf m \<Longrightarrow> insert k v (insert k w m) = insert k v m"
  by (rule lookup_inject) (simp_all add: wf_insert lookup_insert)

lemma insert_remove: "wf m \<Longrightarrow> insert k v (remove k m) = insert k v m"
  by (rule lookup_inject) (simp_all add: wf_insert wf_remove lookup_insert lookup_remove)

lemma length_entries: "wf m \<Longrightarrow> length (entries m) = card (dom (lookup m))"
  using set_keys[of m] distinct_card[OF distinct_keys[of m]] by simp

lemma finite_dom: "wf m \<Longrightarrow> finite (dom (lookup m))"
  using set_keys[of m] by (metis List.finite_set)

lemma entries_empty: "wf m \<Longrightarrow> entries m = [] \<longleftrightarrow> lookup m = Map.empty"
  using set_keys[of m] by (metis dom_eq_empty_conv map_is_Nil_conv set_empty)

lemma set_values: "wf m \<Longrightarrow> set (map snd (entries m)) = ran (lookup m)"
  using set_entries[of m] by (force simp: ran_def)

end

subsection \<open>The model\<close>

type_synonym ('k, 'v) btree = "('k \<times> 'v) list"

definition bt_wf :: "('k::linorder, 'v) btree \<Rightarrow> bool" where
  "bt_wf m \<longleftrightarrow> sorted_wrt (<) (map fst m)"

definition bt_get :: "('k, 'v) btree \<Rightarrow> 'k \<Rightarrow> 'v option" where
  "bt_get m = map_of m"

definition bt_contains_key :: "('k, 'v) btree \<Rightarrow> 'k \<Rightarrow> bool" where
  "bt_contains_key m k \<longleftrightarrow> bt_get m k \<noteq> None"

fun bt_insert :: "'k::linorder \<Rightarrow> 'v \<Rightarrow> ('k, 'v) btree \<Rightarrow> ('k, 'v) btree" where
  "bt_insert k v [] = [(k, v)]"
| "bt_insert k v ((l, w) # m) =
     (if k < l then (k, v) # (l, w) # m
      else if k = l then (k, v) # m
      else (l, w) # bt_insert k v m)"

definition bt_remove :: "'k \<Rightarrow> ('k, 'v) btree \<Rightarrow> ('k, 'v) btree" where
  "bt_remove k m = filter (\<lambda>(l, w). l \<noteq> k) m"

text \<open>\<open>retain\<close>, \<open>pop_first\<close>, \<open>keys\<close>, \<open>values\<close>.\<close>

definition bt_retain :: "('v \<Rightarrow> bool) \<Rightarrow> ('k, 'v) btree \<Rightarrow> ('k, 'v) btree" where
  "bt_retain P m = filter (\<lambda>(k, v). P v) m"

definition bt_pop_first :: "('k, 'v) btree \<Rightarrow> ('k, 'v) btree" where
  "bt_pop_first m = tl m"

definition bt_keys :: "('k, 'v) btree \<Rightarrow> 'k list" where
  "bt_keys m = map fst m"

definition bt_values :: "('k, 'v) btree \<Rightarrow> 'v list" where
  "bt_values m = map snd m"

lemma set_keys_bt_insert: "fst ` set (bt_insert k v m) = insert k (fst ` set m)"
  by (induction k v m rule: bt_insert.induct) auto

lemma bt_wf_insert: "bt_wf m \<Longrightarrow> bt_wf (bt_insert k v m)"
proof (induction k v m rule: bt_insert.induct)
  case (2 k v l w m)
  then show ?case
    using set_keys_bt_insert[of k v m] by (auto simp: bt_wf_def)
qed (simp add: bt_wf_def)

lemma map_of_bt_insert: "bt_wf m \<Longrightarrow> map_of (bt_insert k v m) = (map_of m)(k \<mapsto> v)"
  by (induction k v m rule: bt_insert.induct) (auto simp: bt_wf_def)

lemma bt_wf_filter: "bt_wf m \<Longrightarrow> bt_wf (filter P m)"
  by (induction m) (auto simp: bt_wf_def)

interpretation bt: ordered_map "[]" bt_insert bt_remove bt_get "\<lambda>m. m" bt_wf
proof unfold_locales
  fix m :: "('a::linorder, 'b) btree" and k :: 'a
  show "bt_get (bt_remove k m) = (bt_get m)(k := None)"
    by (induction m) (auto simp: bt_get_def bt_remove_def)
qed (auto simp: bt_wf_insert bt_get_def map_of_bt_insert bt_remove_def bt_wf_filter,
     simp_all add: bt_wf_def)

lemmas bt_simps = bt.wf_empty bt.wf_insert bt.wf_remove bt.lookup_empty bt.lookup_insert
  bt.lookup_remove

lemma bt_wf_retain: "bt_wf m \<Longrightarrow> bt_wf (bt_retain P m)"
  by (simp add: bt_retain_def bt_wf_filter)

lemma bt_get_retain:
  "bt_wf m \<Longrightarrow> bt_get (bt_retain P m) k =
     (case bt_get m k of None \<Rightarrow> None | Some v \<Rightarrow> if P v then Some v else None)"
proof -
  assume wf: "bt_wf m"
  have eq: "bt_get (bt_retain P m) k = Some v \<longleftrightarrow> bt_get m k = Some v \<and> P v" for v
    using bt.set_entries[OF wf, of k v] bt.set_entries[OF bt_wf_retain[OF wf], of k v P]
    by (simp add: bt_retain_def)
  show ?thesis
  proof (cases "bt_get m k")
    case None
    then have "bt_get (bt_retain P m) k = None"
      using eq by (metis not_Some_eq)
    with None show ?thesis by simp
  next
    case (Some v)
    show ?thesis
    proof (cases "P v")
      case True
      with Some have "bt_get (bt_retain P m) k = Some v" by (simp add: eq)
      with Some True show ?thesis by simp
    next
      case False
      with Some have "bt_get (bt_retain P m) k = None"
        using eq by (metis not_Some_eq option.inject)
      with Some False show ?thesis by simp
    qed
  qed
qed

lemma bt_wf_pop_first: "bt_wf m \<Longrightarrow> bt_wf (bt_pop_first m)"
  by (cases m) (auto simp: bt_wf_def bt_pop_first_def)

lemma bt_values_set: "bt_wf m \<Longrightarrow> v \<in> set (bt_values m) \<longleftrightarrow> (\<exists>k. bt_get m k = Some v)"
  using bt.set_values[of m] by (auto simp: bt_values_def ran_def)

lemma bt_keys_set: "bt_wf m \<Longrightarrow> k \<in> set (bt_keys m) \<longleftrightarrow> bt_contains_key m k"
  using bt.set_keys[of m] by (auto simp: bt_keys_def bt_contains_key_def dom_def)

end
