(* ===== verification/Autoindex.thy ===== *)
theory Autoindex
  imports Ordered_Map
begin

text \<open>
  \<open>src/autoindex.rs\<close>: validated relative paths, the projection of visible OCI objects into
  a file-system like index, directory listings and their HTML.

  A \<open>RelativePath\<close> is its validated spelling. The index is the code's
  \<open>BTreeMap<RelativePath, VisibleObject>\<close>. The lemmas relate both to the abstract view of a
  path as the list of its components, and of the index as a prefix-free set of such lists:
  the leaves of a tree of directories.
\<close>

subsection \<open>Paths\<close>

definition MAX_PATH_BYTES :: nat where "MAX_PATH_BYTES = 4096"
definition MAX_PATH_SEGMENTS :: nat where "MAX_PATH_SEGMENTS = 128"

datatype path_error = Invalid | Duplicate | Collision | DirectoryNeedsTrailingSlash

definition is_safe_path_byte :: "char \<Rightarrow> bool" where
  "is_safe_path_byte c \<longleftrightarrow>
     is_ascii_alphanumeric c \<or> c \<in> set (''/-._~!$&()*+,=:@'' @ [SQUOTE])"

datatype relative_path = RelativePath (rp_str: string)

instantiation relative_path :: linorder
begin

definition less_eq_relative_path :: "relative_path \<Rightarrow> relative_path \<Rightarrow> bool" where
  "p \<le> q \<longleftrightarrow> rp_str p \<le> rp_str q"

definition less_relative_path :: "relative_path \<Rightarrow> relative_path \<Rightarrow> bool" where
  "p < q \<longleftrightarrow> rp_str p < rp_str q"

instance
  by standard (auto simp: less_eq_relative_path_def less_relative_path_def relative_path.expand)

end

definition relative_path_parse :: "string \<Rightarrow> path_error + relative_path" where
  "relative_path_parse value =
     (if value = [] \<or> length value > MAX_PATH_BYTES \<or> \<not> list_all is_ascii value
         \<or> starts_with value ''/'' \<or> contains_any value [CHR ''?'', CHR ''#'', CHR ''%'', BACKSLASH, CHR '';'']
         \<or> list_ex (\<lambda>byte. \<not> is_safe_path_byte byte) value
      then Err Invalid
      else
        let segments = split_on SLASH value;
            trailing_slash = ends_with value ''/'';
            meaningful = (if trailing_slash then take (length segments - 1) segments else segments)
        in if meaningful = [] \<or> length meaningful > MAX_PATH_SEGMENTS
              \<or> list_ex (\<lambda>segment. segment = [] \<or> segment = ''.'' \<or> segment = ''..'') meaningful
           then Err Invalid
           else Ok (RelativePath value))"

definition is_directory :: "relative_path \<Rightarrow> bool" where
  "is_directory p \<longleftrightarrow> ends_with (rp_str p) ''/''"

definition components :: "relative_path \<Rightarrow> string list" where
  "components p = filter (\<lambda>component. component \<noteq> []) (split_on SLASH (rp_str p))"

definition parse_request_path :: "string \<Rightarrow> path_error + string" where
  "parse_request_path raw_target =
     (if raw_target = [] \<or> \<not> starts_with raw_target ''/''
         \<or> contains_any raw_target [CHR ''?'', CHR ''#'', CHR ''%'', BACKSLASH, CHR '';'']
         \<or> list_ex (\<lambda>byte. \<not> is_safe_path_byte byte) raw_target
      then Err Invalid
      else if starts_with raw_target ''//'' then Err Invalid
      else
        let relative = drop 1 raw_target
        in if relative = [] then Ok []
           else and_then (relative_path_parse relative) (\<lambda>path. Ok (rp_str path)))"

subsection \<open>Visible objects and the index\<close>

record visible_object =
  vo_path :: relative_path
  vo_digest :: string
  vo_media_type :: string
  vo_size :: nat

definition visible_object_new ::
    "string \<Rightarrow> string \<Rightarrow> string \<Rightarrow> nat \<Rightarrow> path_error + visible_object" where
  "visible_object_new path digest media_type sz =
     and_then (relative_path_parse path) (\<lambda>path.
       if is_directory path then Err Invalid
       else Ok \<lparr>vo_path = path, vo_digest = digest, vo_media_type = media_type, vo_size = sz\<rparr>)"

record index =
  objects :: "(relative_path, visible_object) btree"

definition index_default :: index where
  "index_default = \<lparr>objects = []\<rparr>"

definition index_insert :: "index \<Rightarrow> visible_object \<Rightarrow> path_error + index" where
  "index_insert idx object =
     (let path = vo_path object in
      if bt_contains_key (objects idx) path then Err Duplicate
      else
        let path_without_slash = trim_end_matches SLASH (rp_str path) in
        if list_ex (\<lambda>existing.
             let existing_without_slash = trim_end_matches SLASH (rp_str existing) in
             existing_without_slash = path_without_slash
             \<or> starts_with existing_without_slash (path_without_slash @ ''/'')
             \<or> starts_with path_without_slash (existing_without_slash @ ''/''))
           (bt_keys (objects idx))
        then Err Collision
        else Ok (idx\<lparr>objects := bt_insert path object (objects idx)\<rparr>))"

definition index_object :: "index \<Rightarrow> string \<Rightarrow> visible_object option" where
  "index_object idx path = bt_get (objects idx) (RelativePath path)"

definition index_objects :: "index \<Rightarrow> visible_object list" where
  "index_objects idx = bt_values (objects idx)"

definition has_directory :: "index \<Rightarrow> string \<Rightarrow> path_error + bool" where
  "has_directory idx directory =
     (if directory = [] then Ok True
      else and_then (relative_path_parse directory) (\<lambda>path.
        if \<not> is_directory path then Err DirectoryNeedsTrailingSlash
        else Ok (list_ex (\<lambda>object_path. starts_with (rp_str object_path) directory)
                   (bt_keys (objects idx)))))"

datatype directory_entry = Directory string | File visible_object

text \<open>The body of the loop over the objects in \<open>children\<close>.\<close>

definition add_child ::
    "string \<Rightarrow> (string, directory_entry) btree \<Rightarrow> visible_object \<Rightarrow> (string, directory_entry) btree"
  where
  "add_child directory entries object =
     (case strip_prefix directory (rp_str (vo_path object)) of
        None \<Rightarrow> entries
      | Some remainder \<Rightarrow>
          if remainder = [] then entries
          else
            let remainder = trim_end_matches SLASH remainder in
            (case split_once SLASH remainder of
               None \<Rightarrow>
                 if remainder \<noteq> [] then bt_insert remainder (File object) entries else entries
             | Some (name, rest) \<Rightarrow>
                 if name \<noteq> [] \<and> rest \<noteq> [] then
                   (if bt_contains_key entries name then entries
                    else bt_insert name (Directory (directory @ name @ ''/'')) entries)
                 else entries))"

definition children :: "index \<Rightarrow> string \<Rightarrow> path_error + directory_entry list" where
  "children idx directory =
     and_then
       (if directory = [] then Ok []
        else and_then (relative_path_parse directory) (\<lambda>path.
          if \<not> is_directory path then Err DirectoryNeedsTrailingSlash else Ok (rp_str path)))
       (\<lambda>directory. Ok (bt_values (foldl (add_child directory) [] (bt_values (objects idx)))))"

subsection \<open>Directory pages\<close>

definition entry_name :: "directory_entry \<Rightarrow> string" where
  "entry_name entry =
     (case entry of
        Directory path \<Rightarrow> (case rev (split_on SLASH path) of _ # name # _ \<Rightarrow> name | _ \<Rightarrow> [])
      | File object \<Rightarrow>
          (case rev (split_on SLASH (rp_str (vo_path object))) of name # _ \<Rightarrow> name | _ \<Rightarrow> []))"

definition entry_path :: "directory_entry \<Rightarrow> string" where
  "entry_path entry =
     (case entry of Directory path \<Rightarrow> path | File object \<Rightarrow> rp_str (vo_path object))"

definition parent_directory :: "string \<Rightarrow> string" where
  "parent_directory directory =
     (let without_slash = trim_end_matches SLASH directory in
      case rfind SLASH without_slash of
        None \<Rightarrow> []
      | Some position \<Rightarrow> take (Suc position) without_slash)"

fun escape_char :: "char \<Rightarrow> string" where
  "escape_char c =
     (if c = CHR ''&'' then ''&amp;''
      else if c = CHR ''<'' then ''&lt;''
      else if c = CHR ''>'' then ''&gt;''
      else if c = DQUOTE then ''&quot;''
      else if c = SQUOTE then ''&#39;''
      else [c])"

definition escape_html :: "string \<Rightarrow> string" where
  "escape_html value = concat (map escape_char value)"

definition render_entry :: "directory_entry \<Rightarrow> string" where
  "render_entry entry =
     (let href = ''/'' @ entry_path entry;
          label = (case entry of Directory _ \<Rightarrow> entry_name entry @ ''/'' | File _ \<Rightarrow> entry_name entry)
      in ''<li><a href='' @ [DQUOTE] @ escape_html href @ [DQUOTE] @ ''>''
         @ escape_html label @ ''</a></li>'')"

definition render_directory_html :: "string \<Rightarrow> directory_entry list \<Rightarrow> path_error + string" where
  "render_directory_html directory entries =
     and_then
       (if directory = [] then Ok ()
        else and_then (relative_path_parse directory) (\<lambda>path.
          if \<not> is_directory path then Err DirectoryNeedsTrailingSlash else Ok ()))
       (\<lambda>_. Ok (
         ''<!doctype html><html><head><meta charset='' @ [DQUOTE] @ ''utf-8'' @ [DQUOTE]
         @ ''><title>Index of /'' @ escape_html directory
         @ ''</title></head><body><h1>Index of /'' @ escape_html directory @ ''</h1><ul>''
         @ (if directory \<noteq> []
            then ''<li><a href='' @ [DQUOTE] @ ''/'' @ escape_html (parent_directory directory)
                 @ [DQUOTE] @ ''>../</a></li>''
            else [])
         @ concat (map render_entry entries) @ ''</ul></body></html>'' @ [CHR 0x0A]))"

subsection \<open>The grammar of paths\<close>

text \<open>
  The specification the validator is measured against: a path is a list of valid segments
  joined by single slashes, with an optional final slash for a directory.
\<close>

definition valid_segment :: "string \<Rightarrow> bool" where
  "valid_segment s \<longleftrightarrow> s \<noteq> [] \<and> s \<noteq> ''.'' \<and> s \<noteq> ''..'' \<and> SLASH \<notin> set s \<and> list_all is_safe_path_byte s"

definition path_string :: "string list \<Rightarrow> bool \<Rightarrow> string" where
  "path_string segs dir = join_with SLASH segs @ (if dir then ''/'' else [])"

definition path_spec :: "string list \<Rightarrow> bool \<Rightarrow> bool" where
  "path_spec segs dir \<longleftrightarrow> segs \<noteq> [] \<and> length segs \<le> MAX_PATH_SEGMENTS
     \<and> list_all valid_segment segs \<and> length (path_string segs dir) \<le> MAX_PATH_BYTES"

lemma safe_byte_ascii: "is_safe_path_byte c \<Longrightarrow> is_ascii c"
  by (auto simp: is_safe_path_byte_def byte_defs)

lemma safe_byte_not_special:
  "is_safe_path_byte c \<Longrightarrow> c \<notin> {CHR ''?'', CHR ''#'', CHR ''%'', BACKSLASH, CHR '';''}"
  by (auto simp: is_safe_path_byte_def byte_defs)

lemma safe_byte_slash [simp]: "is_safe_path_byte SLASH"
  by (simp add: is_safe_path_byte_def)

lemma safe_bytes_no_special:
  "list_all is_safe_path_byte s \<Longrightarrow>
     \<not> contains_any s [CHR ''?'', CHR ''#'', CHR ''%'', BACKSLASH, CHR '';''] \<and> list_all is_ascii s"
  using safe_byte_not_special safe_byte_ascii
  by (fastforce simp: contains_any_iff list_all_iff)

lemma path_string_safe:
  "list_all valid_segment segs \<Longrightarrow> list_all is_safe_path_byte (path_string segs dir)"
  using set_join_with[of SLASH segs]
  by (auto simp: path_string_def list_all_iff valid_segment_def)

lemma join_segments_first:
  assumes "segs \<noteq> []" "list_all valid_segment segs"
  shows "join_with SLASH segs \<noteq> [] \<and> \<not> prefix [SLASH] (join_with SLASH segs)"
  using assms by (cases segs; cases "tl segs"; cases "hd segs")
    (auto simp: valid_segment_def join_with_Cons)

lemma join_segments_last:
  assumes "segs \<noteq> []" "list_all valid_segment segs"
  shows "\<not> suffix [SLASH] (join_with SLASH segs)"
  using assms
proof (induction segs)
  case (Cons s segs)
  show ?case
  proof (cases "segs = []")
    case True
    with Cons.prems have "valid_segment s" by simp
    then have "last s \<noteq> SLASH"
      using last_in_set[of s] unfolding valid_segment_def by metis
    with True show ?thesis by (simp add: suffix_single_iff)
  next
    case False
    with Cons join_segments_first[of segs] show ?thesis
      by (auto simp: join_with_Cons suffix_single_iff)
  qed
qed simp

lemma split_join_segments:
  "segs \<noteq> [] \<Longrightarrow> list_all valid_segment segs \<Longrightarrow> split_on SLASH (join_with SLASH segs) = segs"
  by (rule split_on_join) (auto simp: list_all_iff valid_segment_def)

lemma split_path_string:
  assumes "segs \<noteq> []" "list_all valid_segment segs"
  shows "split_on SLASH (path_string segs dir) = segs @ (if dir then [[]] else [])"
  using split_on_append_sep[of SLASH "join_with SLASH segs" "[]"] split_join_segments[OF assms]
  by (simp add: path_string_def)

lemma suffix_path_string:
  assumes "segs \<noteq> []" "list_all valid_segment segs"
  shows "suffix [SLASH] (path_string segs dir) = dir"
  using join_segments_last[OF assms] by (simp add: path_string_def)

lemma relative_path_parse_complete:
  assumes "path_spec segs dir"
  shows "relative_path_parse (path_string segs dir) = Ok (RelativePath (path_string segs dir))"
proof -
  let ?s = "path_string segs dir"
  from assms have segs: "segs \<noteq> []" "list_all valid_segment segs" "length segs \<le> MAX_PATH_SEGMENTS"
    and len: "length ?s \<le> MAX_PATH_BYTES"
    by (auto simp: path_spec_def)
  have "?s \<noteq> []" "\<not> prefix [SLASH] ?s"
    using join_segments_first[OF segs(1,2)]
    by (cases "join_with SLASH segs"; simp add: path_string_def)+
  moreover have "list_ex (\<lambda>s. s = [] \<or> s = ''.'' \<or> s = ''..'') segs = False"
    using segs(2) by (auto simp: list_ex_iff list_all_iff valid_segment_def)
  moreover note safe_bytes_no_special[OF path_string_safe[OF segs(2), of dir]]
    path_string_safe[OF segs(2), of dir]
  ultimately show ?thesis
    using segs len
    by (auto simp: relative_path_parse_def suffix_path_string split_path_string Let_def
        list_ex_iff list_all_iff)
qed

lemma relative_path_parse_sound:
  assumes "relative_path_parse s = Ok p"
  shows "p = RelativePath s \<and> (\<exists>segs. path_spec segs (is_directory p) \<and> s = path_string segs (is_directory p))"
proof -
  define dir where "dir = suffix [SLASH] s"
  define segs where "segs = (if dir then butlast (split_on SLASH s) else split_on SLASH s)"
  from assms have p: "p = RelativePath s" and safe: "list_all is_safe_path_byte s"
    and len: "length s \<le> MAX_PATH_BYTES"
    by (auto simp: relative_path_parse_def Let_def list_ex_iff list_all_iff split: if_splits)
  have "\<not> (segs = [] \<or> length segs > MAX_PATH_SEGMENTS
      \<or> list_ex (\<lambda>s. s = [] \<or> s = ''.'' \<or> s = ''..'') segs)"
    using assms
    by (auto simp: relative_path_parse_def Let_def segs_def dir_def butlast_conv_take split: if_splits)
  then have segs: "segs \<noteq> []" "length segs \<le> MAX_PATH_SEGMENTS"
    "\<forall>t \<in> set segs. t \<noteq> [] \<and> t \<noteq> ''.'' \<and> t \<noteq> ''..''"
    by (auto simp: list_ex_iff)
  have sub: "set segs \<subseteq> set (split_on SLASH s)"
    by (auto simp: segs_def dest: in_set_butlastD)
  have "valid_segment t" if "t \<in> set segs" for t
  proof -
    from that sub have t: "t \<in> set (split_on SLASH s)" by blast
    have "list_all is_safe_path_byte t"
      using safe set_split_on_subset[OF t] by (auto simp: list_all_iff)
    with that segs(3) split_on_sep_free[OF t] show ?thesis by (simp add: valid_segment_def)
  qed
  then have "list_all valid_segment segs" by (simp add: list_all_iff)
  moreover have "s = path_string segs dir"
  proof (cases dir)
    case True
    then obtain t where t: "s = t @ [SLASH]" by (auto simp: dir_def suffix_def)
    then have "segs = split_on SLASH t"
      using True split_on_append_sep[of SLASH t "[]"] by (simp add: segs_def)
    with True t show ?thesis by (simp add: path_string_def)
  next
    case False
    then show ?thesis by (simp add: path_string_def segs_def)
  qed
  ultimately show ?thesis
    using p segs len by (auto simp: path_spec_def is_directory_def dir_def)
qed

subsection \<open>Paths as lists of components\<close>

definition file_path :: "relative_path \<Rightarrow> bool" where
  "file_path p \<longleftrightarrow> relative_path_parse (rp_str p) = Ok p \<and> \<not> is_directory p"

definition valid_segments :: "string list \<Rightarrow> bool" where
  "valid_segments segs \<longleftrightarrow> list_all valid_segment segs"

definition dir_string :: "string list \<Rightarrow> string" where
  "dir_string segs = (if segs = [] then [] else join_with SLASH segs @ ''/'')"

lemma valid_segments_simps [simp]:
  "valid_segments []" "valid_segments (s # ss) \<longleftrightarrow> valid_segment s \<and> valid_segments ss"
  "valid_segments (ss @ ts) \<longleftrightarrow> valid_segments ss \<and> valid_segments ts"
  by (simp_all add: valid_segments_def)

lemma valid_segments_drop: "valid_segments ss \<Longrightarrow> valid_segments (drop n ss)"
  by (auto simp: valid_segments_def list_all_iff dest: in_set_dropD)

lemma valid_segment_sep_free: "valid_segment s \<Longrightarrow> SLASH \<notin> set s"
  by (simp add: valid_segment_def)

lemma components_path_string:
  assumes "segs \<noteq> []" "valid_segments segs"
  shows "components (RelativePath (path_string segs dir)) = segs"
proof -
  have "filter (\<lambda>c. c \<noteq> []) segs = segs"
    using assms(2) by (auto simp: valid_segments_def list_all_iff valid_segment_def filter_id_conv)
  then show ?thesis
    using assms split_path_string[of segs dir] by (simp add: components_def valid_segments_def)
qed

lemma parsed_components:
  assumes "relative_path_parse s = Ok p"
  shows "p = RelativePath s \<and> components p \<noteq> [] \<and> valid_segments (components p)
    \<and> s = path_string (components p) (is_directory p)"
proof -
  from relative_path_parse_sound[OF assms] obtain segs where
    p: "p = RelativePath s" and segs: "path_spec segs (is_directory p)"
    and s: "s = path_string segs (is_directory p)" by blast
  from segs have "segs \<noteq> []" "valid_segments segs" by (auto simp: path_spec_def valid_segments_def)
  moreover from this components_path_string[of segs "is_directory p"] p s
  have "components p = segs" by metis
  ultimately show ?thesis using p s by metis
qed

lemma file_path_components:
  assumes "file_path p"
  shows "components p \<noteq> []" "valid_segments (components p)"
    "rp_str p = join_with SLASH (components p)"
proof -
  have parse: "relative_path_parse (rp_str p) = Ok p" and nodir: "\<not> is_directory p"
    using assms by (simp_all add: file_path_def)
  note parsed = parsed_components[OF parse]
  then show "components p \<noteq> []" "valid_segments (components p)" by blast+
  have "path_string (components p) (is_directory p) = join_with SLASH (components p)"
    using nodir by (simp add: path_string_def)
  with parsed show "rp_str p = join_with SLASH (components p)" by metis
qed

lemma components_inject: "file_path p \<Longrightarrow> file_path q \<Longrightarrow> components p = components q \<Longrightarrow> p = q"
  using file_path_components(3) by (metis relative_path.expand)

lemma directory_components:
  assumes "relative_path_parse d = Ok p" "is_directory p"
  shows "d = dir_string (components p)" "components p \<noteq> []" "valid_segments (components p)"
proof -
  note parsed = parsed_components[OF assms(1)]
  then show ne: "components p \<noteq> []" and "valid_segments (components p)" by blast+
  have "path_string (components p) (is_directory p) = dir_string (components p)"
    using assms(2) ne by (simp add: path_string_def dir_string_def)
  with parsed show "d = dir_string (components p)" by metis
qed

lemma join_append_dir:
  "r \<noteq> [] \<Longrightarrow> join_with SLASH (ds @ r) = dir_string ds @ join_with SLASH r"
  by (cases "ds = []") (auto simp: dir_string_def join_with_append)

lemma prefix_dir_string_iff:
  assumes "valid_segments ds" "valid_segments ps" "ps \<noteq> []"
  shows "prefix (dir_string ds) (join_with SLASH ps) \<longleftrightarrow> strict_prefix ds ps"
proof (cases "ds = []")
  case True
  with assms show ?thesis by (auto simp: dir_string_def strict_prefix_def)
next
  case False
  show ?thesis
  proof
    assume "prefix (dir_string ds) (join_with SLASH ps)"
    then obtain r where "join_with SLASH ps = join_with SLASH ds @ SLASH # r"
      using False by (auto simp: dir_string_def prefix_def)
    then have "split_on SLASH (join_with SLASH ps) = split_on SLASH (join_with SLASH ds) @ split_on SLASH r"
      by (simp add: split_on_append_sep)
    then have "ps = ds @ split_on SLASH r"
      using assms False by (simp add: split_join_segments valid_segments_def)
    then show "strict_prefix ds ps" by (auto simp: strict_prefix_def)
  next
    assume "strict_prefix ds ps"
    then obtain r where "ps = ds @ r" "r \<noteq> []" by (auto elim!: strict_prefixE prefixE)
    then show "prefix (dir_string ds) (join_with SLASH ps)" by (simp add: join_append_dir)
  qed
qed

lemma strip_dir_string:
  assumes "valid_segments ds" "valid_segments ps" "ps \<noteq> []"
  shows "strip_prefix (dir_string ds) (join_with SLASH ps) =
    (if strict_prefix ds ps then Some (join_with SLASH (drop (length ds) ps)) else None)"
proof (cases "strict_prefix ds ps")
  case True
  then obtain r where "ps = ds @ r" "r \<noteq> []" by (auto elim!: strict_prefixE prefixE)
  with True show ?thesis by (simp add: join_append_dir)
next
  case False
  with prefix_dir_string_iff[OF assms] show ?thesis by (simp add: strip_prefix_None_iff)
qed

lemma trim_join_segments:
  "ss \<noteq> [] \<Longrightarrow> valid_segments ss \<Longrightarrow> trim_end_matches SLASH (join_with SLASH ss) = join_with SLASH ss"
  using join_segments_last trim_end_matches_id by (auto simp: valid_segments_def)

lemma split_once_join:
  assumes "valid_segments (f # r)"
  shows "split_once SLASH (join_with SLASH (f # r)) =
    (if r = [] then None else Some (f, join_with SLASH r))"
  using assms by (auto simp: split_once_Some_iff split_once_None_iff join_with_Cons valid_segment_def)

lemma join_segments_not_Nil: "r \<noteq> [] \<Longrightarrow> valid_segments r \<Longrightarrow> join_with SLASH r \<noteq> []"
  using join_segments_first[of r] by (simp add: valid_segments_def)

subsection \<open>The index invariant\<close>

text \<open>
  Two files can stand in one tree when neither path is an ancestor of the other; equal paths
  are ancestors of each other.
\<close>

definition separate :: "relative_path \<Rightarrow> relative_path \<Rightarrow> bool" where
  "separate p q \<longleftrightarrow> components p \<parallel> components q"

definition index_wf :: "index \<Rightarrow> bool" where
  "index_wf idx \<longleftrightarrow> bt_wf (objects idx)
     \<and> (\<forall>p obj. bt_get (objects idx) p = Some obj \<longrightarrow> vo_path obj = p \<and> file_path p)
     \<and> (\<forall>p q. bt_contains_key (objects idx) p \<longrightarrow> bt_contains_key (objects idx) q \<longrightarrow> p \<noteq> q
          \<longrightarrow> separate p q)"

lemma separate_sym: "separate p q \<longleftrightarrow> separate q p"
  by (auto simp: separate_def parallel_def)

lemma not_separate_self [simp]: "\<not> separate p p"
  by (simp add: separate_def parallel_def)

lemma index_wf_default: "index_wf index_default"
  by (simp add: index_wf_def index_default_def bt_simps bt_contains_key_def)

lemma index_wf_bt [dest]: "index_wf idx \<Longrightarrow> bt_wf (objects idx)"
  by (simp add: index_wf_def)

lemma index_wf_get:
  "index_wf idx \<Longrightarrow> bt_get (objects idx) p = Some obj \<Longrightarrow> vo_path obj = p \<and> file_path p"
  by (simp add: index_wf_def)

lemma index_wf_separate:
  "index_wf idx \<Longrightarrow> bt_get (objects idx) p = Some a \<Longrightarrow> bt_get (objects idx) q = Some b \<Longrightarrow> p \<noteq> q
    \<Longrightarrow> separate p q"
  unfolding index_wf_def bt_contains_key_def by blast

lemma index_objects_iff:
  assumes "index_wf idx"
  shows "obj \<in> set (index_objects idx) \<longleftrightarrow> bt_get (objects idx) (vo_path obj) = Some obj"
proof -
  have "obj \<in> set (index_objects idx) \<longleftrightarrow> (\<exists>k. bt_get (objects idx) k = Some obj)"
    unfolding index_objects_def by (rule bt_values_set[OF index_wf_bt[OF assms]])
  also have "\<dots> \<longleftrightarrow> bt_get (objects idx) (vo_path obj) = Some obj"
  proof
    assume "\<exists>k. bt_get (objects idx) k = Some obj"
    then obtain k where k: "bt_get (objects idx) k = Some obj" ..
    with index_wf_get[OF assms k] show "bt_get (objects idx) (vo_path obj) = Some obj" by simp
  qed blast
  finally show ?thesis .
qed

text \<open>The three tests of the collision loop are one test on components.\<close>

lemma prefix_slash_iff:
  assumes "file_path p" "file_path q"
  shows "prefix (rp_str p @ ''/'') (rp_str q) \<longleftrightarrow> strict_prefix (components p) (components q)"
  using prefix_dir_string_iff[of "components p" "components q"] file_path_components[OF assms(1)]
    file_path_components[OF assms(2)]
  by (simp add: dir_string_def)

lemma trim_file_path: "file_path p \<Longrightarrow> trim_end_matches SLASH (rp_str p) = rp_str p"
  using trim_join_segments[of "components p"] file_path_components[of p] by simp

lemma collision_test_iff:
  assumes "file_path p" "file_path q"
  shows "(rp_str q = rp_str p \<or> prefix (rp_str p @ ''/'') (rp_str q) \<or> prefix (rp_str q @ ''/'') (rp_str p))
    \<longleftrightarrow> \<not> separate q p"
proof -
  have eq: "rp_str q = rp_str p \<longleftrightarrow> components q = components p"
    using components_inject[OF assms] by (auto simp: components_def)
  show ?thesis
    unfolding eq prefix_slash_iff[OF assms] prefix_slash_iff[OF assms(2,1)]
      separate_def parallel_def strict_prefix_def
    by (metis prefix_order.refl)
qed

lemma visible_object_new_Ok:
  "visible_object_new title digest media_type sz = Ok obj \<longleftrightarrow>
     relative_path_parse title = Ok (RelativePath title) \<and> \<not> is_directory (RelativePath title) \<and>
     obj = \<lparr>vo_path = RelativePath title, vo_digest = digest, vo_media_type = media_type, vo_size = sz\<rparr>"
  using parsed_components[of title] by (auto simp: visible_object_new_def)

lemma visible_object_file_path: "visible_object_new title digest media_type sz = Ok obj \<Longrightarrow> file_path (vo_path obj)"
  by (auto simp: visible_object_new_Ok file_path_def)

lemma index_insert_eq:
  assumes wf: "index_wf idx" and obj: "file_path (vo_path obj)"
  shows "index_insert idx obj =
    (if bt_contains_key (objects idx) (vo_path obj) then Err Duplicate
     else if \<exists>q. bt_contains_key (objects idx) q \<and> \<not> separate q (vo_path obj) then Err Collision
     else Ok (idx\<lparr>objects := bt_insert (vo_path obj) obj (objects idx)\<rparr>))"
proof -
  have key: "file_path q" if "q \<in> set (bt_keys (objects idx))" for q
    using that wf index_wf_get[OF wf] bt_keys_set[of "objects idx" q]
    by (auto simp: bt_contains_key_def)
  have "list_ex (\<lambda>q. trim_end_matches SLASH (rp_str q) = trim_end_matches SLASH (rp_str (vo_path obj))
        \<or> prefix (trim_end_matches SLASH (rp_str (vo_path obj)) @ ''/'') (trim_end_matches SLASH (rp_str q))
        \<or> prefix (trim_end_matches SLASH (rp_str q) @ ''/'') (trim_end_matches SLASH (rp_str (vo_path obj))))
      (bt_keys (objects idx))
    \<longleftrightarrow> (\<exists>q \<in> set (bt_keys (objects idx)). \<not> separate q (vo_path obj))"
    unfolding list_ex_iff
    by (rule bex_cong[OF refl]) (simp add: trim_file_path key obj collision_test_iff[OF obj])
  then show ?thesis
    using wf bt_keys_set[of "objects idx"] by (auto simp: index_insert_def Let_def)
qed

lemma index_insert_Ok:
  assumes "index_wf idx" "file_path (vo_path obj)"
  shows "index_insert idx obj = Ok idx' \<longleftrightarrow>
    (\<forall>q. bt_contains_key (objects idx) q \<longrightarrow> separate q (vo_path obj))
    \<and> idx' = idx\<lparr>objects := bt_insert (vo_path obj) obj (objects idx)\<rparr>"
  using not_separate_self by (auto simp: index_insert_eq[OF assms])

lemma index_wf_insert:
  assumes wf: "index_wf idx" and obj: "file_path (vo_path obj)" and ins: "index_insert idx obj = Ok idx'"
  shows "index_wf idx'"
proof -
  have idx': "idx' = idx\<lparr>objects := bt_insert (vo_path obj) obj (objects idx)\<rparr>"
    and sep: "\<And>q. bt_contains_key (objects idx) q \<Longrightarrow> separate q (vo_path obj)"
    using ins by (auto simp: index_insert_Ok[OF wf obj])
  have get: "bt_get (objects idx') = (bt_get (objects idx))(vo_path obj \<mapsto> obj)"
    using wf by (simp add: idx' bt.lookup_insert index_wf_bt)
  show ?thesis
    unfolding index_wf_def
  proof (intro conjI allI impI)
    show "bt_wf (objects idx')" using wf by (simp add: idx' bt.wf_insert index_wf_bt)
  next
    fix p o' assume "bt_get (objects idx') p = Some o'"
    then show "vo_path o' = p" "file_path p"
      using obj index_wf_get[OF wf] by (auto simp: get split: if_splits)
  next
    fix p q
    assume "bt_contains_key (objects idx') p" "bt_contains_key (objects idx') q" "p \<noteq> q"
    then show "separate p q"
      using sep[of p] sep[of q] index_wf_separate[OF wf] separate_sym[of "vo_path obj"]
      by (auto simp: bt_contains_key_def get split: if_splits)
  qed
qed

lemma index_objects_insert:
  assumes wf: "index_wf idx" and obj: "file_path (vo_path obj)" and ins: "index_insert idx obj = Ok idx'"
  shows "set (index_objects idx') = insert obj (set (index_objects idx))"
proof -
  have idx': "idx' = idx\<lparr>objects := bt_insert (vo_path obj) obj (objects idx)\<rparr>"
    and fresh: "\<not> bt_contains_key (objects idx) (vo_path obj)"
    using ins by (auto simp: index_insert_eq[OF wf obj] split: if_splits)
  have get: "bt_get (objects idx') = (bt_get (objects idx))(vo_path obj \<mapsto> obj)"
    using wf by (simp add: idx' bt.lookup_insert index_wf_bt)
  have none: "bt_get (objects idx) (vo_path obj) = None"
    using fresh by (simp add: bt_contains_key_def)
  show ?thesis
  proof (rule set_eqI)
    fix x
    have "x \<in> set (index_objects idx') \<longleftrightarrow>
        (if vo_path x = vo_path obj then x = obj else bt_get (objects idx) (vo_path x) = Some x)"
      unfolding index_objects_iff[OF index_wf_insert[OF assms]] get by auto
    also have "\<dots> \<longleftrightarrow> x = obj \<or> bt_get (objects idx) (vo_path x) = Some x"
    proof (cases "vo_path x = vo_path obj")
      case True
      then show ?thesis using none by simp
    qed auto
    finally show "x \<in> set (index_objects idx') \<longleftrightarrow> x \<in> insert obj (set (index_objects idx))"
      by (simp add: index_objects_iff[OF wf])
  qed
qed

end
