(* ===== verification/Autoindex_Listing.thy ===== *)
theory Autoindex_Listing
  imports Autoindex "HOL-Library.Multiset"
begin

text \<open>
  What the index of \<open>src/autoindex.rs\<close> shows: inserting a batch of objects, the listing of a
  directory, browsing from the root, and the HTML of a listing.
\<close>

subsection \<open>Batches of objects\<close>

text \<open>
  The contract of a batch: the objects can be inserted when their paths are pairwise separate,
  in whatever order they come.
\<close>

fun insert_all :: "index \<Rightarrow> visible_object list \<Rightarrow> path_error + index" where
  "insert_all idx [] = Ok idx"
| "insert_all idx (obj # objs) = and_then (index_insert idx obj) (\<lambda>idx. insert_all idx objs)"

definition mutually_separate :: "visible_object list \<Rightarrow> bool" where
  "mutually_separate objs \<longleftrightarrow> sorted_wrt (\<lambda>a b. separate (vo_path a) (vo_path b)) objs"

lemma mutually_separate_perm:
  assumes "mutually_separate xs" "mset xs = mset ys"
  shows "mutually_separate ys"
proof -
  have iff: "mutually_separate zs \<longleftrightarrow>
      distinct zs \<and> (\<forall>a \<in> set zs. \<forall>b \<in> set zs. a \<noteq> b \<longrightarrow> separate (vo_path a) (vo_path b))" for zs
  proof (induction zs)
    case (Cons z zs)
    then show ?case
      using not_separate_self separate_sym by (auto simp: mutually_separate_def)
  qed (simp add: mutually_separate_def)
  show ?thesis
    using assms mset_eq_imp_distinct_iff[OF assms(2)] mset_eq_setD[OF assms(2)] unfolding iff by simp
qed

lemma insert_all_Ok:
  assumes "index_wf idx" "\<forall>obj \<in> set objs. file_path (vo_path obj)"
  shows "is_ok (insert_all idx objs) \<longleftrightarrow> mutually_separate objs
      \<and> (\<forall>obj \<in> set objs. \<forall>q. bt_contains_key (objects idx) q \<longrightarrow> separate q (vo_path obj))"
  using assms
proof (induction objs arbitrary: idx)
  case (Cons obj objs)
  let ?fresh = "\<forall>q. bt_contains_key (objects idx) q \<longrightarrow> separate q (vo_path obj)"
  let ?idx = "idx\<lparr>objects := bt_insert (vo_path obj) obj (objects idx)\<rparr>"
  show ?case
  proof (cases ?fresh)
    case True
    have ins: "index_insert idx obj = Ok ?idx"
      using Cons.prems True by (simp add: index_insert_Ok)
    have wf: "index_wf ?idx"
      by (rule index_wf_insert[OF Cons.prems(1) _ ins]) (simp add: Cons.prems(2))
    have keys: "bt_contains_key (objects ?idx) q \<longleftrightarrow> q = vo_path obj \<or> bt_contains_key (objects idx) q" for q
      using Cons.prems by (simp add: bt_contains_key_def bt.lookup_insert index_wf_bt)
    from Cons.IH[OF wf] Cons.prems(2) True show ?thesis
      unfolding keys by (auto simp: ins mutually_separate_def)
  next
    case False
    then have "index_insert idx obj \<noteq> Ok idx'" for idx'
      using Cons.prems by (simp add: index_insert_Ok)
    then obtain e where "index_insert idx obj = Err e" by (cases "index_insert idx obj") auto
    with False show ?thesis by auto
  qed
qed (simp add: mutually_separate_def)

lemma insert_all_result:
  assumes "index_wf idx" "\<forall>obj \<in> set objs. file_path (vo_path obj)" "insert_all idx objs = Ok idx'"
  shows "index_wf idx' \<and> set (index_objects idx') = set objs \<union> set (index_objects idx)"
  using assms
proof (induction objs arbitrary: idx)
  case (Cons obj objs)
  then obtain idx1 where ins: "index_insert idx obj = Ok idx1" and rest: "insert_all idx1 objs = Ok idx'"
    by auto
  have obj: "file_path (vo_path obj)" using Cons.prems(2) by simp
  show ?case
    using Cons.IH[OF index_wf_insert[OF Cons.prems(1) obj ins] _ rest] Cons.prems(2)
      index_objects_insert[OF Cons.prems(1) obj ins] by simp
qed simp

lemma index_ext:
  assumes wf: "index_wf i" "index_wf j" and eq: "set (index_objects i) = set (index_objects j)"
  shows "i = (j::index)"
proof -
  have "bt_get (objects i) p = Some obj \<longleftrightarrow> bt_get (objects j) p = Some obj" for p obj
    using eq index_objects_iff[OF wf(1), of obj] index_objects_iff[OF wf(2), of obj]
      index_wf_get[OF wf(1)] index_wf_get[OF wf(2)] by metis
  then have "bt_get (objects i) = bt_get (objects j)"
    by (metis ext not_None_eq)
  then have "objects i = objects j"
    using bt.lookup_inject[OF index_wf_bt[OF wf(1)] index_wf_bt[OF wf(2)]] by simp
  then show ?thesis by simp
qed

lemma insert_all_default_Ok:
  "\<forall>obj \<in> set objs. file_path (vo_path obj) \<Longrightarrow>
     is_ok (insert_all index_default objs) \<longleftrightarrow> mutually_separate objs"
  using insert_all_Ok[OF index_wf_default]
  by (simp add: index_default_def bt_contains_key_def bt_simps)

lemma index_objects_default [simp]: "index_objects index_default = []"
  by (simp add: index_objects_def index_default_def bt_values_def)

subsection \<open>The listing of a directory\<close>

text \<open>
  The specification of an entry: \<open>n\<close> is a file of directory \<open>ds\<close> when some object stands at
  \<open>ds @ [n]\<close>, and a directory when some object stands strictly below.
\<close>

definition entry_spec :: "visible_object set \<Rightarrow> string list \<Rightarrow> string \<Rightarrow> directory_entry \<Rightarrow> bool" where
  "entry_spec objs ds n v \<longleftrightarrow>
     (\<exists>obj \<in> objs. v = File obj \<and> components (vo_path obj) = ds @ [n])
     \<or> v = Directory (dir_string (ds @ [n]))
        \<and> (\<exists>obj \<in> objs. strict_prefix (ds @ [n]) (components (vo_path obj)))"

definition leaves :: "visible_object set \<Rightarrow> bool" where
  "leaves objs \<longleftrightarrow> (\<forall>a \<in> objs. file_path (vo_path a))
     \<and> (\<forall>a \<in> objs. \<forall>b \<in> objs. a \<noteq> b \<longrightarrow> separate (vo_path a) (vo_path b))"

lemma leaves_subset: "leaves B \<Longrightarrow> A \<subseteq> B \<Longrightarrow> leaves A"
  unfolding leaves_def by blast

lemma leaves_index: 
  assumes "index_wf idx"
  shows "leaves (set (index_objects idx))"
  unfolding leaves_def
proof (intro conjI ballI impI)
  fix a assume "a \<in> set (index_objects idx)"
  then show "file_path (vo_path a)"
    using index_objects_iff[OF assms] index_wf_get[OF assms] by blast
next
  fix a b assume "a \<in> set (index_objects idx)" "b \<in> set (index_objects idx)" "a \<noteq> b"
  then have "bt_get (objects idx) (vo_path a) = Some a" "bt_get (objects idx) (vo_path b) = Some b"
    by (simp_all add: index_objects_iff[OF assms])
  with \<open>a \<noteq> b\<close> show "separate (vo_path a) (vo_path b)"
    by (intro index_wf_separate[OF assms]) auto
qed

lemma leaves_not_below:
  assumes "leaves objs" "a \<in> objs" "b \<in> objs" "prefix (components (vo_path a)) (components (vo_path b))"
  shows "a = b"
  using assms unfolding leaves_def separate_def parallel_def by blast

lemma dir_string_snoc: "dir_string (ds @ [n]) = dir_string ds @ n @ ''/''"
  by (cases "ds = []") (simp_all add: dir_string_def join_with_append)

lemma strict_prefix_snoc_iff:
  "strict_prefix ds ps \<longleftrightarrow> (\<exists>n r. ps = ds @ n # r)"
  by (auto simp: strict_prefix_def prefix_def) (metis neq_Nil_conv)

lemma add_child_eq:
  assumes ds: "valid_segments ds" and obj: "file_path (vo_path obj)"
  shows "add_child (dir_string ds) es obj =
    (if strict_prefix ds (components (vo_path obj)) then
       (case drop (length ds) (components (vo_path obj)) of
          [] \<Rightarrow> es
        | n # r \<Rightarrow>
            if r = [] then bt_insert n (File obj) es
            else if bt_contains_key es n then es
            else bt_insert n (Directory (dir_string (ds @ [n]))) es)
     else es)"
proof -
  let ?ps = "components (vo_path obj)"
  note ps = file_path_components[OF obj]
  have strip: "strip_prefix (dir_string ds) (rp_str (vo_path obj)) =
      (if strict_prefix ds ?ps then Some (join_with SLASH (drop (length ds) ?ps)) else None)"
    using strip_dir_string[OF ds ps(2,1)] ps(3) by simp
  show ?thesis
  proof (cases "strict_prefix ds ?ps")
    case True
    then obtain n r where eq: "?ps = ds @ n # r" by (auto simp: strict_prefix_snoc_iff)
    then have valid: "valid_segments (n # r)" using ps(2) by simp
    have "n \<noteq> []" using valid by (simp add: valid_segment_def)
    moreover have "r \<noteq> [] \<Longrightarrow> join_with SLASH r \<noteq> []"
      using join_segments_not_Nil valid by simp
    ultimately show ?thesis
      using strip True eq valid trim_join_segments[OF _ valid] split_once_join[OF valid]
        join_segments_not_Nil[OF _ valid]
      by (simp add: add_child_def dir_string_snoc)
  next
    case False
    with strip show ?thesis by (simp add: add_child_def)
  qed
qed

lemma entry_spec_insert:
  assumes "components (vo_path obj) = ds @ n # r"
  shows "entry_spec (insert obj objs) ds m v \<longleftrightarrow> entry_spec objs ds m v
    \<or> m = n \<and> v = (if r = [] then File obj else Directory (dir_string (ds @ [n])))"
  using assms by (auto simp: entry_spec_def strict_prefix_def)

lemma entry_spec_only:
  assumes leaves: "leaves (insert obj objs)" and ps: "components (vo_path obj) = ds @ n # r"
    and spec: "entry_spec objs ds n v"
  shows "v = (if r = [] then File obj else Directory (dir_string (ds @ [n])))"
proof -
  from spec[unfolded entry_spec_def] show ?thesis
  proof (elim disjE bexE conjE)
    fix o' assume o': "o' \<in> objs" "v = File o'" "components (vo_path o') = ds @ [n]"
    then have "o' = obj" by (intro leaves_not_below[OF leaves]) (simp_all add: ps)
    with o' ps show ?thesis by simp
  next
    fix o' assume o': "o' \<in> objs" "v = Directory (dir_string (ds @ [n]))"
      "strict_prefix (ds @ [n]) (components (vo_path o'))"
    have "r \<noteq> []"
    proof
      assume "r = []"
      with ps o' have below: "strict_prefix (components (vo_path obj)) (components (vo_path o'))" by simp
      then have "obj = o'"
        using o'(1) by (intro leaves_not_below[OF leaves]) (auto simp: strict_prefix_def)
      with below show False by simp
    qed
    with o' show ?thesis by simp
  qed
qed

lemma listing_fold:
  assumes "valid_segments ds" "leaves (set objs)"
  shows "bt_wf (foldl (add_child (dir_string ds)) [] objs)
    \<and> (\<forall>n v. bt_get (foldl (add_child (dir_string ds)) [] objs) n = Some v \<longleftrightarrow> entry_spec (set objs) ds n v)"
  using assms(2)
proof (induction objs rule: rev_induct)
  case Nil
  show ?case by (simp add: bt_simps entry_spec_def)
next
  case (snoc obj objs)
  let ?es = "foldl (add_child (dir_string ds)) [] objs"
  let ?es' = "add_child (dir_string ds) ?es obj"
  let ?ps = "components (vo_path obj)"
  have IH: "bt_wf ?es" "\<And>n v. bt_get ?es n = Some v \<longleftrightarrow> entry_spec (set objs) ds n v"
    using snoc.IH leaves_subset[OF snoc.prems] by auto
  have leaves: "leaves (insert obj (set objs))" using snoc.prems by simp
  then have obj: "file_path (vo_path obj)" by (simp add: leaves_def)
  have "bt_wf ?es' \<and> (\<forall>n v. bt_get ?es' n = Some v \<longleftrightarrow> entry_spec (insert obj (set objs)) ds n v)"
  proof (cases "strict_prefix ds ?ps")
    case False
    then have "entry_spec (insert obj (set objs)) ds n v \<longleftrightarrow> entry_spec (set objs) ds n v" for n v
      unfolding entry_spec_def strict_prefix_snoc_iff by auto
    with False IH show ?thesis by (simp add: add_child_eq[OF assms(1) obj])
  next
    case strict: True
    then obtain n r where ps: "?ps = ds @ n # r" unfolding strict_prefix_snoc_iff by blast
    define new where "new = (if r = [] then File obj else Directory (dir_string (ds @ [n])))"
    note spec = entry_spec_insert[OF ps, of "set objs", folded new_def]
    have only: "bt_get ?es n = Some v \<Longrightarrow> v = new" for v
      using entry_spec_only[OF leaves ps, of v] IH(2) by (simp add: new_def)
    have "?es' = (if r = [] \<or> \<not> bt_contains_key ?es n then bt_insert n new ?es else ?es)"
      using strict by (simp add: add_child_eq[OF assms(1) obj] ps new_def)
    moreover have "bt_get ?es n = Some new" if "bt_contains_key ?es n"
      using that only by (auto simp: bt_contains_key_def)
    ultimately have "bt_wf ?es'" "bt_get ?es' = (bt_get ?es)(n \<mapsto> new)"
      using IH(1) by (auto simp: bt_simps fun_upd_idem)
    then show ?thesis using spec IH(2) only by auto
  qed
  then show ?case by simp
qed

text \<open>The spelling of a directory that the operations accept.\<close>

definition directory_spec :: "string \<Rightarrow> string list \<Rightarrow> bool" where
  "directory_spec d ds \<longleftrightarrow> d = dir_string ds \<and> (ds = [] \<or> path_spec ds True)"

lemma directory_spec_root [simp]: "directory_spec [] []"
  by (simp add: directory_spec_def dir_string_def)

lemma directory_spec_valid: "directory_spec d ds \<Longrightarrow> valid_segments ds"
  by (auto simp: directory_spec_def path_spec_def valid_segments_def)

lemma dir_string_path_string: "ds \<noteq> [] \<Longrightarrow> dir_string ds = path_string ds True"
  by (simp add: dir_string_def path_string_def)

lemma dir_string_Nil_iff: "dir_string ds = [] \<longleftrightarrow> ds = []"
  by (simp add: dir_string_def)

lemma directory_spec_parse:
  assumes "directory_spec d ds" "ds \<noteq> []"
  shows "relative_path_parse d = Ok (RelativePath d) \<and> is_directory (RelativePath d)"
proof -
  from assms have spec: "path_spec ds True" and d: "d = path_string ds True"
    by (auto simp: directory_spec_def dir_string_path_string)
  then have "suffix [SLASH] d"
    by (simp add: path_string_def suffix_def)
  with relative_path_parse_complete[OF spec] d show ?thesis by (simp add: is_directory_def)
qed

lemma parse_directory_spec:
  assumes "relative_path_parse d = Ok p" "is_directory p"
  shows "directory_spec d (components p)"
proof -
  obtain segs where p: "p = RelativePath d" "path_spec segs True" "d = path_string segs True"
    using relative_path_parse_sound[OF assms(1)] assms(2) by auto
  then have "components p = segs"
    using components_path_string[of segs True] by (simp add: path_spec_def valid_segments_def)
  with p show ?thesis
    by (simp add: directory_spec_def) (simp add: path_spec_def dir_string_path_string)
qed

lemma children_fold:
  assumes "directory_spec d ds"
  shows "children idx d = Ok (bt_values (foldl (add_child (dir_string ds)) [] (bt_values (objects idx))))"
proof (cases "ds = []")
  case True
  with assms show ?thesis by (simp add: directory_spec_def children_def dir_string_def)
next
  case False
  note parse = directory_spec_parse[OF assms False]
  from assms False have "d = dir_string ds" "d \<noteq> []"
    by (auto simp: directory_spec_def dir_string_Nil_iff)
  with parse show ?thesis by (simp add: children_def)
qed

lemma children_Ok_directory:
  assumes "children idx d = Ok es"
  obtains ds where "directory_spec d ds"
proof (cases "d = []")
  case True
  then show ?thesis using that directory_spec_root by blast
next
  case False
  with assms obtain p where "relative_path_parse d = Ok p" "is_directory p"
    by (auto simp: children_def split: if_splits)
  then show ?thesis using that parse_directory_spec by blast
qed

lemma children_spec:
  assumes wf: "index_wf idx" and d: "directory_spec d ds"
  obtains m where "children idx d = Ok (bt_values m)" "bt_wf m"
    "\<And>n v. bt_get m n = Some v \<longleftrightarrow> entry_spec (set (index_objects idx)) ds n v"
  using that[OF children_fold[OF d]] leaves_index[OF wf]
    listing_fold[OF directory_spec_valid[OF d], of "bt_values (objects idx)"]
  unfolding index_objects_def by blast

lemma children_set:
  assumes wf: "index_wf idx" and d: "directory_spec d ds" and es: "children idx d = Ok es"
  shows "v \<in> set es \<longleftrightarrow> (\<exists>n. entry_spec (set (index_objects idx)) ds n v)"
  using children_spec[OF wf d] es by (metis Inr_inject bt_values_set)

lemma entry_spec_valid:
  assumes "index_wf idx" "entry_spec (set (index_objects idx)) ds n v"
  shows "valid_segments (ds @ [n])"
proof -
  have valid: "valid_segments (components (vo_path obj))" if "obj \<in> set (index_objects idx)" for obj
    using leaves_index[OF assms(1)] that by (intro file_path_components) (simp add: leaves_def)
  from assms(2)[unfolded entry_spec_def] show ?thesis
  proof (elim disjE bexE conjE)
    fix obj assume "obj \<in> set (index_objects idx)" "strict_prefix (ds @ [n]) (components (vo_path obj))"
    with valid[of obj] show ?thesis by (auto simp: strict_prefix_def prefix_def)
  qed (use valid in fastforce)
qed

lemma split_dir_string:
  assumes "valid_segments (ds @ [n])"
  shows "split_on SLASH (dir_string (ds @ [n])) = ds @ [n, []]"
  using split_path_string[of "ds @ [n]" True] assms
  by (simp add: dir_string_path_string valid_segments_def)

lemma entry_name_spec:
  assumes wf: "index_wf idx" and spec: "entry_spec (set (index_objects idx)) ds n v"
  shows "entry_name v = n"
proof -
  note valid = entry_spec_valid[OF assms]
  from spec[unfolded entry_spec_def] show ?thesis
  proof (elim disjE bexE conjE)
    fix obj assume obj: "obj \<in> set (index_objects idx)" "v = File obj" "components (vo_path obj) = ds @ [n]"
    then have "rp_str (vo_path obj) = join_with SLASH (ds @ [n])"
      using file_path_components(3)[of "vo_path obj"] leaves_index[OF wf] by (simp add: leaves_def)
    then have "split_on SLASH (rp_str (vo_path obj)) = ds @ [n]"
      using split_join_segments[of "ds @ [n]"] valid by (simp add: valid_segments_def)
    with obj show ?thesis by (simp add: entry_name_def)
  qed (simp add: entry_name_def split_dir_string[OF valid])
qed

lemma children_names:
  assumes wf: "index_wf idx" and d: "directory_spec d ds"
  obtains es where "children idx d = Ok es" "sorted_wrt (<) (map entry_name es)"
proof -
  obtain m where m: "children idx d = Ok (bt_values m)" "bt_wf m"
    "\<And>n v. bt_get m n = Some v \<longleftrightarrow> entry_spec (set (index_objects idx)) ds n v"
    using children_spec[OF wf d] by blast
  have "map entry_name (bt_values m) = map fst m"
    unfolding bt_values_def map_map
  proof (rule map_cong[OF refl])
    fix x assume "x \<in> set m"
    then have "bt_get m (fst x) = Some (snd x)"
      using bt.set_entries[OF m(2), of "fst x" "snd x"] by simp
    then show "(entry_name \<circ> snd) x = fst x"
      using m(3) entry_name_spec[OF wf] by simp
  qed
  then show ?thesis using that[OF m(1)] m(2) by (simp add: bt_wf_def)
qed

subsection \<open>Browsing\<close>

text \<open>The directories a client meets when it follows the directory entries from the root.\<close>

inductive listed :: "index \<Rightarrow> string \<Rightarrow> bool" for idx :: index where
  root: "listed idx []"
| below: "listed idx d \<Longrightarrow> children idx d = Ok es \<Longrightarrow> Directory p \<in> set es \<Longrightarrow> listed idx p"

lemma object_path_spec:
  assumes "index_wf idx" "obj \<in> set (index_objects idx)"
  shows "path_spec (components (vo_path obj)) False
    \<and> rp_str (vo_path obj) = path_string (components (vo_path obj)) False"
proof -
  have fp: "file_path (vo_path obj)" using leaves_index[OF assms(1)] assms(2) by (simp add: leaves_def)
  then have parse: "relative_path_parse (rp_str (vo_path obj)) = Ok (vo_path obj)"
    and "\<not> is_directory (vo_path obj)" by (simp_all add: file_path_def)
  then obtain segs where segs: "path_spec segs False" "rp_str (vo_path obj) = path_string segs False"
    using relative_path_parse_sound[OF parse] by auto
  then have "components (vo_path obj) = segs"
    using components_path_string[of segs False] by (metis path_spec_def relative_path.collapse valid_segments_def)
  with segs show ?thesis by simp
qed

lemma ancestor_directory_spec:
  assumes "path_spec ps False" "strict_prefix ds ps"
  shows "directory_spec (dir_string ds) ds"
proof (cases "ds = []")
  case False
  obtain n r where ps: "ps = ds @ n # r" using assms(2) by (auto simp: strict_prefix_snoc_iff)
  then have "path_string ps False = dir_string ds @ join_with SLASH (n # r)"
    using join_append_dir[of "n # r" ds] by (simp add: path_string_def)
  with assms(1) ps False show ?thesis
    by (auto simp: directory_spec_def path_spec_def dir_string_path_string)
qed (simp add: dir_string_def)

lemma ancestor_listed:
  assumes wf: "index_wf idx" and obj: "obj \<in> set (index_objects idx)"
  shows "strict_prefix ds (components (vo_path obj)) \<Longrightarrow> listed idx (dir_string ds)"
proof (induction ds rule: rev_induct)
  case Nil
  show ?case by (simp add: dir_string_def listed.root)
next
  case (snoc n ds)
  then have above: "strict_prefix ds (components (vo_path obj))"
    by (auto simp: strict_prefix_def prefix_def)
  note d = ancestor_directory_spec[OF conjunct1[OF object_path_spec[OF wf obj]] above]
  obtain es where es: "children idx (dir_string ds) = Ok es" using children_spec[OF wf d] by blast
  have "entry_spec (set (index_objects idx)) ds n (Directory (dir_string (ds @ [n])))"
    using obj snoc.prems by (auto simp: entry_spec_def)
  then have "Directory (dir_string (ds @ [n])) \<in> set es"
    using children_set[OF wf d es] by blast
  with listed.below[OF snoc.IH[OF above] es] show ?case by blast
qed

lemma listed_iff:
  assumes wf: "index_wf idx"
  shows "listed idx d \<longleftrightarrow> d = [] \<or> (\<exists>ds. d = dir_string ds
    \<and> (\<exists>obj \<in> set (index_objects idx). strict_prefix ds (components (vo_path obj))))"
    (is "_ \<longleftrightarrow> ?R d")
proof
  show "listed idx d \<Longrightarrow> ?R d"
  proof (induction rule: listed.induct)
    case (below d es p)
    obtain ds where d: "directory_spec d ds" using children_Ok_directory[OF below.hyps(2)] by blast
    from below.hyps(3) obtain n where "entry_spec (set (index_objects idx)) ds n (Directory p)"
      using children_set[OF wf d below.hyps(2)] by blast
    then show ?case by (auto simp: entry_spec_def)
  qed simp
next
  show "?R d \<Longrightarrow> listed idx d"
    using ancestor_listed[OF wf] listed.root by blast
qed

lemma object_listed:
  assumes wf: "index_wf idx" and obj: "obj \<in> set (index_objects idx)"
  obtains d es where "listed idx d" "children idx d = Ok es" "File obj \<in> set es"
proof -
  define ps where "ps = components (vo_path obj)"
  note spec = conjunct1[OF object_path_spec[OF wf obj], folded ps_def]
  then have ne: "ps \<noteq> []" by (simp add: path_spec_def)
  then have above: "strict_prefix (butlast ps) ps"
    by (metis append_butlast_last_id strict_prefix_snoc_iff)
  note d = ancestor_directory_spec[OF spec above]
  obtain es where es: "children idx (dir_string (butlast ps)) = Ok es"
    using children_spec[OF wf d] by blast
  have "entry_spec (set (index_objects idx)) (butlast ps) (last ps) (File obj)"
    using obj ne by (auto simp: entry_spec_def ps_def)
  then have "File obj \<in> set es" using children_set[OF wf d es] by blast
  with that ancestor_listed[OF wf obj above[unfolded ps_def]] es show ?thesis
    by (simp add: ps_def)
qed

lemma listed_file_object:
  assumes wf: "index_wf idx" and "children idx d = Ok es" "File obj \<in> set es"
  shows "obj \<in> set (index_objects idx)"
proof -
  obtain ds where d: "directory_spec d ds" using children_Ok_directory[OF assms(2)] by blast
  with assms show ?thesis
    using children_set[OF wf d assms(2)] by (auto simp: entry_spec_def)
qed

lemma has_directory_spec:
  assumes wf: "index_wf idx" and d: "directory_spec d ds" and ne: "ds \<noteq> []"
  shows "has_directory idx d =
    Ok (\<exists>obj \<in> set (index_objects idx). strict_prefix ds (components (vo_path obj)))"
proof -
  have "prefix d (rp_str (vo_path obj)) \<longleftrightarrow> strict_prefix ds (components (vo_path obj))"
    if "obj \<in> set (index_objects idx)" for obj
  proof -
    have "file_path (vo_path obj)" using leaves_index[OF wf] that by (simp add: leaves_def)
    note fp = file_path_components[OF this]
    show ?thesis
      using prefix_dir_string_iff[OF directory_spec_valid[OF d] fp(2,1)] fp(3) d
      by (simp add: directory_spec_def)
  qed
  moreover have "p \<in> set (bt_keys (objects idx)) \<longleftrightarrow> (\<exists>obj \<in> set (index_objects idx). p = vo_path obj)" for p
    using bt_keys_set[OF index_wf_bt[OF wf]] index_objects_iff[OF wf] index_wf_get[OF wf]
    unfolding bt_contains_key_def by (metis not_None_eq)
  ultimately have "list_ex (\<lambda>p. prefix d (rp_str p)) (bt_keys (objects idx))
      \<longleftrightarrow> (\<exists>obj \<in> set (index_objects idx). strict_prefix ds (components (vo_path obj)))"
    unfolding list_ex_iff by metis
  moreover have "d \<noteq> []" using d ne by (auto simp: directory_spec_def dir_string_Nil_iff)
  ultimately show ?thesis
    using directory_spec_parse[OF d ne] by (simp add: has_directory_def)
qed

subsection \<open>Links and markup\<close>

lemma request_of_path:
  assumes "path_spec segs dir"
  shows "parse_request_path (''/'' @ path_string segs dir) = Ok (path_string segs dir)"
proof -
  let ?s = "path_string segs dir"
  note parse = relative_path_parse_complete[OF assms]
  have "list_all valid_segment segs" "segs \<noteq> []" using assms by (simp_all add: path_spec_def)
  then have safe: "list_all is_safe_path_byte (''/'' @ ?s)" and first: "\<not> prefix [SLASH] ?s" "?s \<noteq> []"
    using path_string_safe[of segs dir] join_segments_first[of segs]
    by (cases "join_with SLASH segs"; simp add: path_string_def)+
  from first have "\<not> prefix ''//'' (''/'' @ ?s)" by simp
  then show ?thesis
    using parse first(2) safe safe_bytes_no_special[OF safe]
    by (simp add: parse_request_path_def list_ex_iff list_all_iff del: append_Cons append_Nil)
      (simp add: first)
qed

lemma parse_request_path_eq:
  "parse_request_path t =
     (if t = ''/'' then Ok []
      else if \<exists>segs dir. path_spec segs dir \<and> t = ''/'' @ path_string segs dir then Ok (tl t)
      else Err Invalid)"
proof (cases "\<exists>segs dir. path_spec segs dir \<and> t = ''/'' @ path_string segs dir")
  case True
  then obtain segs dir where s: "path_spec segs dir" "t = ''/'' @ path_string segs dir" by blast
  then have "path_string segs dir \<noteq> []"
    using join_segments_first[of segs] by (auto simp: path_spec_def path_string_def)
  with s request_of_path[OF s(1)] show ?thesis by auto
next
  case False
  have err: "parse_request_path t = Err e \<Longrightarrow> e = Invalid" for e
    by (auto simp: parse_request_path_def relative_path_parse_def Let_def split: if_splits)
  have root: "parse_request_path ''/'' = Ok []" by code_simp
  have only: "parse_request_path t = Ok p \<Longrightarrow> t = ''/'' \<and> p = []" for p
  proof -
    assume ok: "parse_request_path t = Ok p"
    then obtain r where t: "t = SLASH # r" by (cases t) (auto simp: parse_request_path_def split: if_splits)
    show ?thesis
    proof (cases "r = []")
      case True
      with ok t show ?thesis by (simp add: parse_request_path_def split: if_splits)
    next
      case nonempty: False
      with ok t obtain q where "relative_path_parse r = Ok q"
        by (auto simp: parse_request_path_def split: if_splits)
      from relative_path_parse_sound[OF this] False t show ?thesis by auto
    qed
  qed
  show ?thesis
  proof (cases "t = ''/''")
    case True
    then show ?thesis using root by simp
  next
    case no_root: False
    with only have "\<And>p. parse_request_path t \<noteq> Ok p" by blast
    with err obtain "parse_request_path t = Err Invalid" by (cases "parse_request_path t") auto
    with False no_root show ?thesis by simp
  qed
qed

lemma entry_path_spec:
  assumes wf: "index_wf idx" and d: "directory_spec d ds" and spec: "entry_spec (set (index_objects idx)) ds n v"
  shows "\<exists>dir. path_spec (ds @ [n]) dir \<and> entry_path v = path_string (ds @ [n]) dir"
  using spec[unfolded entry_spec_def]
proof (elim disjE bexE conjE)
  fix obj assume "obj \<in> set (index_objects idx)" "v = File obj" "components (vo_path obj) = ds @ [n]"
  with object_path_spec[OF wf, of obj] show ?thesis by (auto simp: entry_path_def)
next
  fix obj assume o: "v = Directory (dir_string (ds @ [n]))" "obj \<in> set (index_objects idx)"
    "strict_prefix (ds @ [n]) (components (vo_path obj))"
  then show ?thesis
    using ancestor_directory_spec[OF conjunct1[OF object_path_spec[OF wf o(2)]] o(3)]
    by (auto simp: entry_path_def directory_spec_def dir_string_path_string)
qed

text \<open>The reader of the five character references, to state that nothing is lost.\<close>

fun unescape_html :: "string \<Rightarrow> string" where
  "unescape_html [] = []"
| "unescape_html (c # cs) =
     (if c = CHR ''&'' then
        (if prefix ''amp;'' cs then CHR ''&'' # unescape_html (drop 4 cs)
         else if prefix ''lt;'' cs then CHR ''<'' # unescape_html (drop 3 cs)
         else if prefix ''gt;'' cs then CHR ''>'' # unescape_html (drop 3 cs)
         else if prefix ''quot;'' cs then DQUOTE # unescape_html (drop 5 cs)
         else if prefix ''#39;'' cs then SQUOTE # unescape_html (drop 4 cs)
         else c # unescape_html cs)
      else c # unescape_html cs)"

lemma escape_html_Nil [simp]: "escape_html [] = []"
  by (simp add: escape_html_def)

lemma escape_html_Cons: "escape_html (c # s) = escape_char c @ escape_html s"
  by (simp add: escape_html_def)

lemma unescape_escape_char: "unescape_html (escape_char c @ r) = c # unescape_html r"
  by simp

lemma unescape_escape: "unescape_html (escape_html s) = s"
  by (induction s) (simp_all only: escape_html_Cons unescape_escape_char escape_html_Nil unescape_html.simps(1))

lemma escape_no_markup:
  "set (escape_html s) \<inter> {CHR ''<'', CHR ''>'', DQUOTE, SQUOTE} = {}"
  by (induction s) (auto simp: escape_html_Cons)

subsection \<open>Properties\<close>

text \<open>An index built by the code, at which the properties are applied.\<close>

definition example_object :: "string \<Rightarrow> visible_object" where
  "example_object title = \<lparr>vo_path = RelativePath title, vo_digest = ''sha256:0'',
     vo_media_type = ''text/html'', vo_size = 7\<rparr>"

definition example_objects :: "visible_object list" where
  "example_objects = map example_object
     [''pypi/simple/index.html'', ''README.txt'', ''pypi/simple/demo/index.html'']"

definition example_index :: index where
  "example_index = \<lparr>objects = map (\<lambda>obj. (vo_path obj, obj)) (map example_object
     [''README.txt'', ''pypi/simple/demo/index.html'', ''pypi/simple/index.html''])\<rparr>"

lemma example_index_built: "insert_all index_default example_objects = Ok example_index"
  by code_simp

lemma example_objects_files: "\<forall>obj \<in> set example_objects. file_path (vo_path obj)"
  by code_simp

lemma example_index_wf: "index_wf example_index"
  using insert_all_result[OF index_wf_default example_objects_files example_index_built] by blast

text \<open>A relative path is accepted exactly when it is a list of 1 to 128 segments, joined by
  single slashes, with at most one final slash, of at most 4096 bytes; no segment is empty,
  \<open>.\<close> or \<open>..\<close>, and every byte is in the safe set. It is kept without normalization, and
  everything else is the error \<open>Invalid\<close>.\<close>

lemma relative_path_parse_grammar:
  "relative_path_parse s =
     (if \<exists>segs dir. path_spec segs dir \<and> s = path_string segs dir
      then Ok (RelativePath s) else Err Invalid)"
proof (cases "\<exists>segs dir. path_spec segs dir \<and> s = path_string segs dir")
  case True
  then show ?thesis using relative_path_parse_complete by auto
next
  case False
  then show ?thesis
    using relative_path_parse_sound[of s]
    by (cases "relative_path_parse s") (auto simp: relative_path_parse_def Let_def split: if_splits)
qed

text \<open>A request target is accepted exactly when it is \<open>/\<close> or a slash followed by a valid
  relative path, and the path handed on is the target without its first slash: no query,
  percent escape, dot segment or doubled slash reaches the index.\<close>

lemma parse_request_path_grammar:
  "parse_request_path t =
     (if t = ''/'' then Ok []
      else if \<exists>segs dir. path_spec segs dir \<and> t = ''/'' @ path_string segs dir then Ok (tl t)
      else Err Invalid)"
  by (rule parse_request_path_eq)

text \<open>Inserting a validated object into an index succeeds exactly when its path is no other
  object's path, ancestor or descendant; an equal path is \<open>Duplicate\<close> and a file in the place of
  a directory is \<open>Collision\<close>. The string tests of the loop decide this relation on components.\<close>

lemma index_insert_outcome:
  assumes "index_wf idx" "visible_object_new title digest media_type sz = Ok obj"
  shows "index_insert idx obj =
    (if vo_path obj \<in> vo_path ` set (index_objects idx) then Err Duplicate
     else if \<exists>other \<in> set (index_objects idx). \<not> components (vo_path other) \<parallel> components (vo_path obj)
     then Err Collision
     else Ok (idx\<lparr>objects := bt_insert (vo_path obj) obj (objects idx)\<rparr>))"
proof -
  have "bt_contains_key (objects idx) p \<longleftrightarrow> p \<in> vo_path ` set (index_objects idx)" for p
    using index_objects_iff[OF assms(1)] index_wf_get[OF assms(1)]
    unfolding bt_contains_key_def image_iff by (metis not_None_eq)
  then show ?thesis
    unfolding index_insert_eq[OF assms(1) visible_object_file_path[OF assms(2)]] separate_def
    by auto
qed

lemma index_insert_outcome_witness:
  "index_insert example_index (example_object ''README.txt/x'') = Err Collision"
  using index_insert_outcome[OF example_index_wf, of "''README.txt/x''" "''sha256:0''" "''text/html''" 7
      "example_object ''README.txt/x''"] by code_simp

text \<open>C22. The index is always a tree. A sequence of inserts of validated objects, starting from the empty
  index, succeeds exactly when no path of the sequence is another's path or ancestor. The map it
  builds is then sorted and keyed by the objects' own paths, with no path an ancestor of another, it
  holds exactly the inserted objects, and finds each of them under its title.\<close>

theorem index_insert_preserves:
  assumes "\<forall>obj \<in> set objs. \<exists>title digest media_type sz. visible_object_new title digest media_type sz = Ok obj"
  shows "(is_ok (insert_all index_default objs) \<longleftrightarrow> mutually_separate objs)
    \<and> (\<forall>idx. insert_all index_default objs = Ok idx \<longrightarrow> index_wf idx \<and> set (index_objects idx) = set objs
         \<and> (\<forall>obj \<in> set objs. index_object idx (rp_str (vo_path obj)) = Some obj))"
proof (intro conjI allI impI)
  have files: "\<forall>obj \<in> set objs. file_path (vo_path obj)" using assms visible_object_file_path by blast
  show "is_ok (insert_all index_default objs) \<longleftrightarrow> mutually_separate objs" by (rule insert_all_default_Ok[OF files])
  fix idx assume "insert_all index_default objs = Ok idx"
  note idx = insert_all_result[OF index_wf_default files this]
  then show wf: "index_wf idx" and objs: "set (index_objects idx) = set objs" by simp_all
  show "\<forall>obj \<in> set objs. index_object idx (rp_str (vo_path obj)) = Some obj"
    using index_objects_iff[OF wf] objs by (simp add: index_object_def)
qed

theorem index_insert_preserves_witness:
  "insert_all index_default example_objects = Ok example_index \<and> index_wf example_index \<and> mutually_separate example_objects
    \<and> index_object example_index ''README.txt'' = Some (example_object ''README.txt'')"
proof -
  have "visible_object_new ''pypi/simple/index.html'' ''sha256:0'' ''text/html'' 7 = Ok (example_object ''pypi/simple/index.html'')"
    "visible_object_new ''README.txt'' ''sha256:0'' ''text/html'' 7 = Ok (example_object ''README.txt'')"
    "visible_object_new ''pypi/simple/demo/index.html'' ''sha256:0'' ''text/html'' 7 = Ok (example_object ''pypi/simple/demo/index.html'')"
    by code_simp+
  then have "\<forall>obj \<in> set example_objects. \<exists>title digest media_type sz. visible_object_new title digest media_type sz = Ok obj"
    unfolding example_objects_def list.map list.set ball_simps by blast
  note built = index_insert_preserves[OF this]
  have "is_ok (insert_all index_default example_objects)" by (simp add: example_index_built)
  then have "mutually_separate example_objects" using built by simp
  moreover have "index_wf example_index" using built example_index_built by blast
  moreover have "index_object example_index ''README.txt'' = Some (example_object ''README.txt'')"
  proof -
    have "example_object ''README.txt'' \<in> set example_objects" by (simp add: example_objects_def)
    then have "index_object example_index (rp_str (vo_path (example_object ''README.txt''))) = Some (example_object ''README.txt'')"
      using built example_index_built by blast
    then show ?thesis by (simp add: example_object_def)
  qed
  ultimately show ?thesis using example_index_built by simp
qed

text \<open>C23. The listing of a directory: every accepted directory spelling has a listing, sorted by
  entry name without repetition, whose entries are exactly the files that stand directly in the
  directory and, once each, the directories with an object somewhere below.\<close>

theorem children_listing:
  assumes "index_wf idx" "directory_spec d ds"
  shows "\<exists>es. children idx d = Ok es \<and> sorted_wrt (<) (map entry_name es)
    \<and> (\<forall>v. v \<in> set es \<longleftrightarrow>
        (\<exists>obj \<in> set (index_objects idx). v = File obj \<and> components (vo_path obj) = ds @ [entry_name v])
      \<or> (\<exists>n. v = Directory (dir_string (ds @ [n]))
          \<and> (\<exists>obj \<in> set (index_objects idx). strict_prefix (ds @ [n]) (components (vo_path obj)))))"
proof -
  obtain es where es: "children idx d = Ok es" "sorted_wrt (<) (map entry_name es)"
    using children_names[OF assms] by blast
  have "entry_spec (set (index_objects idx)) ds n v \<Longrightarrow> entry_name v = n" for n v
    using entry_name_spec[OF assms(1)] by blast
  then have "v \<in> set es \<longleftrightarrow>
        (\<exists>obj \<in> set (index_objects idx). v = File obj \<and> components (vo_path obj) = ds @ [entry_name v])
      \<or> (\<exists>n. v = Directory (dir_string (ds @ [n]))
          \<and> (\<exists>obj \<in> set (index_objects idx). strict_prefix (ds @ [n]) (components (vo_path obj))))" for v
    unfolding children_set[OF assms es(1)] entry_spec_def by blast
  with es show ?thesis by blast
qed

theorem children_listing_witness:
  "children example_index ''pypi/simple/'' =
     Ok [Directory ''pypi/simple/demo/'', File (example_object ''pypi/simple/index.html'')]
   \<and> sorted_wrt (<) (map entry_name
        [Directory ''pypi/simple/demo/'', File (example_object ''pypi/simple/index.html'')])"
proof -
  have d: "directory_spec ''pypi/simple/'' [''pypi'', ''simple'']" by code_simp
  have "children example_index ''pypi/simple/'' =
     Ok [Directory ''pypi/simple/demo/'', File (example_object ''pypi/simple/index.html'')]"
    by code_simp
  with children_listing[OF example_index_wf d] show ?thesis by auto
qed

text \<open>C24. Browsing from the root reaches every object of the index and no other: an object is
  in the index exactly when some directory, met by following directory entries from the root,
  lists it as a file.\<close>

theorem browsing_complete:
  assumes "index_wf idx"
  shows "obj \<in> set (index_objects idx) \<longleftrightarrow>
    (\<exists>d es. listed idx d \<and> children idx d = Ok es \<and> File obj \<in> set es)"
  using object_listed[OF assms] listed_file_object[OF assms] by metis

theorem browsing_complete_witness:
  "\<exists>d es. listed example_index d \<and> children example_index d = Ok es
     \<and> File (example_object ''pypi/simple/demo/index.html'') \<in> set es"
proof -
  have "example_object ''pypi/simple/demo/index.html'' \<in> set (index_objects example_index)"
    by (simp add: example_index_def index_objects_def bt_values_def)
  then show ?thesis using browsing_complete[OF example_index_wf] by blast
qed

text \<open>The target of every entry of a listing is an accepted request path, which is the entry's; a file
  entry is found in the index at that path, and a directory entry exists and has a non-empty listing.\<close>

lemma listing_entry_found:
  assumes "index_wf idx" "children idx d = Ok es" "v \<in> set es"
  shows "parse_request_path (''/'' @ entry_path v) = Ok (entry_path v)
    \<and> (case v of
         File obj \<Rightarrow> index_object idx (entry_path v) = Some obj
       | Directory p \<Rightarrow> ends_with p ''/'' \<and> has_directory idx p = Ok True
           \<and> (\<exists>e es'. children idx (entry_path v) = Ok (e # es')))"
proof -
  note wf = assms(1)
  obtain ds where d: "directory_spec d ds" using children_Ok_directory[OF assms(2)] by blast
  obtain n where spec: "entry_spec (set (index_objects idx)) ds n v"
    using children_set[OF wf d assms(2)] assms(3) by blast
  have request: "parse_request_path (''/'' @ entry_path v) = Ok (entry_path v)"
    using entry_path_spec[OF wf d spec] request_of_path by metis
  show ?thesis
  proof (cases v)
    case (File obj)
    then have "obj \<in> set (index_objects idx)" using spec by (auto simp: entry_spec_def)
    then have "bt_get (objects idx) (vo_path obj) = Some obj" by (simp add: index_objects_iff[OF wf])
    with File request show ?thesis by (simp add: entry_path_def index_object_def)
  next
    case (Directory p)
    then obtain obj where p: "p = dir_string (ds @ [n])" and obj: "obj \<in> set (index_objects idx)"
      and above: "strict_prefix (ds @ [n]) (components (vo_path obj))"
      using spec by (auto simp: entry_spec_def)
    note d' = ancestor_directory_spec[OF conjunct1[OF object_path_spec[OF wf obj]] above]
    obtain es' where es': "children idx p = Ok es'" using children_spec[OF wf d'] p by blast
    obtain m r where ps: "components (vo_path obj) = (ds @ [n]) @ m # r"
      using above unfolding strict_prefix_snoc_iff by blast
    have "entry_spec (set (index_objects idx)) (ds @ [n]) m
        (if r = [] then File obj else Directory (dir_string ((ds @ [n]) @ [m])))"
      using entry_spec_insert[OF ps, of "set (index_objects idx)"] unfolding insert_absorb[OF obj]
      by metis
    then have "es' \<noteq> []"
      using children_set[OF wf d', of es'] es' p by (metis emptyE set_empty)
    moreover have "ends_with p ''/''" unfolding p dir_string_snoc suffix_def by (rule exI[of _ "dir_string ds @ n"]) simp
    ultimately show ?thesis
      using request Directory es' obj above has_directory_spec[OF wf d'] p
      by (cases es') (auto simp: entry_path_def)
  qed
qed

text \<open>C26. Escaping is safe and loses nothing: escaped text contains no angle bracket and no
  quote, so it cannot leave an attribute or open a tag, and decoding the five character
  references gives the text back.\<close>

theorem escape_html_safe:
  "set (escape_html s) \<inter> {CHR ''<'', CHR ''>'', DQUOTE, SQUOTE} = {}
    \<and> unescape_html (escape_html s) = s"
  using escape_no_markup unescape_escape by simp

end
