(* ===== verification/Grammars.thy ===== *)
theory Grammars
  imports Prelude
begin

text \<open>
  The contract of the parsers at the edge of the crate: a parser accepts exactly the spellings
  of the well-formed values. A grammar whose values have one spelling each is canonical; that is
  what lets the crate compare, cache and route by the raw text of a request.
\<close>

locale grammar =
  fixes parse :: "string \<Rightarrow> 'e + 'v"
    and wf :: "'v \<Rightarrow> bool"
    and spells :: "'v \<Rightarrow> string \<Rightarrow> bool"
  assumes parse_iff: "parse s = Inr v \<longleftrightarrow> wf v \<and> spells v s"
begin

lemma parse_spelling: "wf v \<Longrightarrow> spells v s \<Longrightarrow> parse s = Inr v"
  by (simp add: parse_iff)

lemma unambiguous: "wf v \<Longrightarrow> wf w \<Longrightarrow> spells v s \<Longrightarrow> spells w s \<Longrightarrow> v = w"
  by (metis Inr_inject parse_spelling)

lemma accepted_iff: "is_ok (parse s) \<longleftrightarrow> (\<exists>v. wf v \<and> spells v s)"
  by (auto simp: is_ok_iff parse_iff)

lemma rejected_iff: "(\<exists>e. parse s = Inl e) \<longleftrightarrow> (\<forall>v. wf v \<longrightarrow> \<not> spells v s)"
  using parse_iff[of s] by (cases "parse s") auto

end

locale canonical_grammar = grammar +
  fixes render :: "'b \<Rightarrow> string"
  assumes spells_iff: "spells v s \<longleftrightarrow> s = render v"
begin

lemma parse_render: "wf v \<Longrightarrow> parse (render v) = Inr v"
  by (simp add: parse_iff spells_iff)

lemma render_parse: "parse s = Inr v \<Longrightarrow> render v = s"
  by (simp add: parse_iff spells_iff)

lemma one_spelling: "parse s = Inr v \<Longrightarrow> parse t = Inr v \<Longrightarrow> s = t"
  by (metis render_parse)

lemma render_inject: "wf v \<Longrightarrow> wf w \<Longrightarrow> render v = render w \<Longrightarrow> v = w"
  by (metis Inr_inject parse_render)

end

end
