(* ===== verification/Gateway.thy ===== *)
theory Gateway
  imports Grammars
begin

text \<open>
  \<open>src/oci_gateway.rs\<close>: the repository-scoped paths of the OCI distribution API. The lemmas
  measure the parser against the set of spellings of each target.
\<close>

subsection \<open>The code\<close>

datatype distribution_target =
    Version
  | Manifest string string
  | Blob string string
  | BlobUploadStart string
  | BlobUpload string string

datatype distribution_path_error = InvalidPath | RepositoryMismatch

definition valid_reference :: "string \<Rightarrow> bool" where
  "valid_reference value \<longleftrightarrow> length value \<le> 256 \<and> list_all is_ascii value \<and> value \<noteq> []
     \<and> \<not> starts_with value ''.'' \<and> \<not> ends_with value ''.''
     \<and> list_all (\<lambda>byte. is_ascii_alphanumeric byte \<or> byte \<in> set ''._-:'') value"

definition valid_upload_id :: "string \<Rightarrow> bool" where
  "valid_upload_id value \<longleftrightarrow> value \<noteq> [] \<and> length value \<le> 512 \<and> list_all is_ascii value
     \<and> list_all (\<lambda>byte. is_ascii_alphanumeric byte \<or> byte \<in> set ''._-'') value
     \<and> value \<noteq> ''.'' \<and> value \<noteq> ''..''"

definition valid_digest :: "string \<Rightarrow> bool" where
  "valid_digest value =
     (case strip_prefix ''sha256:'' value of
        None \<Rightarrow> False
      | Some hex \<Rightarrow> length hex = 64
          \<and> list_all (\<lambda>byte. is_ascii_hexdigit byte \<and> \<not> is_ascii_uppercase byte) hex)"

definition parse_operation :: "string \<Rightarrow> string \<Rightarrow> distribution_path_error + distribution_target" where
  "parse_operation repository operation =
     (if operation = [] \<or> contains_any operation [CHR ''?'', CHR ''#'', CHR ''%'', BACKSLASH]
      then Err InvalidPath
      else if operation = ''blobs/uploads'' \<or> operation = ''blobs/uploads/''
      then Ok (BlobUploadStart repository)
      else (case strip_prefix ''blobs/uploads/'' operation of
        Some upload_id \<Rightarrow>
          if valid_upload_id upload_id then Ok (BlobUpload repository upload_id) else Err InvalidPath
      | None \<Rightarrow>
          and_then (ok_or InvalidPath (split_once SLASH operation)) (\<lambda>(kind, value).
            if value = [] \<or> contains_any value [SLASH] \<or> list_ex is_ascii_control value
            then Err InvalidPath
            else if kind = ''manifests'' \<and> valid_reference value then Ok (Manifest repository value)
            else if kind = ''blobs'' \<and> valid_digest value then Ok (Blob repository value)
            else Err InvalidPath)))"

definition parse_path :: "string \<Rightarrow> string \<Rightarrow> distribution_path_error + distribution_target" where
  "parse_path path repository =
     (if path = ''/v2/'' then Ok Version
      else and_then (ok_or InvalidPath (strip_prefix ''/v2/'' path)) (\<lambda>remainder.
        if remainder = repository then Err InvalidPath
        else (case strip_prefix (repository @ ''/'') remainder of
          Some operation \<Rightarrow> parse_operation repository operation
        | None \<Rightarrow> Err RepositoryMismatch)))"

subsection \<open>The spellings of a target\<close>

fun target_wf :: "string \<Rightarrow> distribution_target \<Rightarrow> bool" where
  "target_wf repository Version = True"
| "target_wf repository (Manifest r reference) = (r = repository \<and> valid_reference reference)"
| "target_wf repository (Blob r digest) = (r = repository \<and> valid_digest digest)"
| "target_wf repository (BlobUploadStart r) = (r = repository)"
| "target_wf repository (BlobUpload r upload_id) = (r = repository \<and> valid_upload_id upload_id)"

fun target_spells :: "distribution_target \<Rightarrow> string \<Rightarrow> bool" where
  "target_spells Version s = (s = ''/v2/'')"
| "target_spells (Manifest r reference) s = (s = ''/v2/'' @ r @ ''/manifests/'' @ reference)"
| "target_spells (Blob r digest) s = (s = ''/v2/'' @ r @ ''/blobs/'' @ digest)"
| "target_spells (BlobUploadStart r) s =
     (s = ''/v2/'' @ r @ ''/blobs/uploads'' \<or> s = ''/v2/'' @ r @ ''/blobs/uploads/'')"
| "target_spells (BlobUpload r upload_id) s = (s = ''/v2/'' @ r @ ''/blobs/uploads/'' @ upload_id)"

text \<open>The same within the operation that follows the repository.\<close>

fun operation_of :: "distribution_target \<Rightarrow> string \<Rightarrow> bool" where
  "operation_of Version s = False"
| "operation_of (Manifest r reference) s = (s = ''manifests/'' @ reference)"
| "operation_of (Blob r digest) s = (s = ''blobs/'' @ digest)"
| "operation_of (BlobUploadStart r) s = (s = ''blobs/uploads'' \<or> s = ''blobs/uploads/'')"
| "operation_of (BlobUpload r upload_id) s = (s = ''blobs/uploads/'' @ upload_id)"

lemma plain_bytes:
  "is_ascii_alphanumeric c \<or> c \<in> set ''._-:'' \<Longrightarrow>
     c \<notin> {CHR ''?'', CHR ''#'', CHR ''%'', BACKSLASH, SLASH} \<and> \<not> is_ascii_control c"
  by (auto simp: byte_defs)

lemma digest_char: "is_ascii_hexdigit c \<Longrightarrow> is_ascii_alphanumeric c"
  by (auto simp: byte_defs)

lemma valid_digest_bytes: "valid_digest v \<Longrightarrow> v \<noteq> [] \<and> (\<forall>c \<in> set v. is_ascii_alphanumeric c \<or> c \<in> set ''._-:'')"
proof -
  assume "valid_digest v"
  then obtain hex where "v = ''sha256:'' @ hex" "list_all is_ascii_hexdigit hex"
    by (auto simp: valid_digest_def list_all_iff split: option.splits)
  moreover have "\<forall>c \<in> set ''sha256:''. is_ascii_alphanumeric c \<or> c \<in> set ''._-:''" by code_simp
  ultimately show ?thesis using digest_char by (auto simp: list_all_iff)
qed

lemma valid_reference_bytes:
  "valid_reference v \<Longrightarrow> v \<noteq> [] \<and> (\<forall>c \<in> set v. is_ascii_alphanumeric c \<or> c \<in> set ''._-:'')"
  unfolding valid_reference_def list_all_iff by blast

lemma valid_upload_id_bytes:
  "valid_upload_id v \<Longrightarrow> v \<noteq> [] \<and> (\<forall>c \<in> set v. is_ascii_alphanumeric c \<or> c \<in> set ''._-:'')"
  unfolding valid_upload_id_def list_all_iff by fastforce

lemma plain_value:
  assumes "v \<noteq> [] \<and> (\<forall>c \<in> set v. is_ascii_alphanumeric c \<or> c \<in> set ''._-:'')"
  shows "v \<noteq> []" "\<not> contains_any v [CHR ''?'', CHR ''#'', CHR ''%'', BACKSLASH]"
    "\<not> contains_any v [SLASH]" "\<not> list_ex is_ascii_control v" "SLASH \<notin> set v"
  using assms plain_bytes by (auto simp: contains_any_iff list_ex_iff)

lemma parse_operation_sound:
  assumes "parse_operation repository operation = Ok t"
  shows "target_wf repository t \<and> operation_of t operation"
proof -
  consider "operation = ''blobs/uploads'' \<or> operation = ''blobs/uploads/''" "t = BlobUploadStart repository"
    | upload_id where "operation = ''blobs/uploads/'' @ upload_id" "valid_upload_id upload_id"
        "t = BlobUpload repository upload_id"
    | kind v where "split_once SLASH operation = Some (kind, v)"
        "kind = ''manifests'' \<and> valid_reference v \<and> t = Manifest repository v
         \<or> kind = ''blobs'' \<and> valid_digest v \<and> t = Blob repository v"
    using assms unfolding parse_operation_def
    by (simp split: if_splits option.splits prod.splits) blast+
  then show ?thesis
  proof cases
    case (3 kind v)
    then have "operation = kind @ ''/'' @ v" by (simp add: split_once_Some_iff)
    with 3(2) show ?thesis by auto
  qed auto
qed

lemma split_once_value: "SLASH \<notin> set k \<Longrightarrow> split_once SLASH (k @ SLASH # v) = Some (k, v)"
  by (simp add: split_once_Some_iff)

lemma parse_operation_complete:
  assumes "target_wf repository t" "operation_of t operation"
  shows "parse_operation repository operation = Ok t"
proof (cases t)
  case (Manifest r v)
  with assms have v: "valid_reference v" "r = repository" "operation = ''manifests'' @ SLASH # v" by auto
  note plain = plain_value[OF valid_reference_bytes[OF v(1)]]
  have "split_once SLASH operation = Some (''manifests'', v)" unfolding v(3) by (rule split_once_value) simp
  with v plain show ?thesis by (simp add: parse_operation_def Manifest contains_any_def)
next
  case (Blob r v)
  with assms have v: "valid_digest v" "r = repository" "operation = ''blobs'' @ SLASH # v" by auto
  note plain = plain_value[OF valid_digest_bytes[OF v(1)]]
  obtain hex where hex: "v = ''sha256:'' @ hex"
    using v(1) unfolding valid_digest_def by (cases "strip_prefix ''sha256:'' v") auto
  have uploads: "operation \<noteq> ''blobs/uploads''" "operation \<noteq> ''blobs/uploads/''"
    "strip_prefix ''blobs/uploads/'' operation = None"
    unfolding v(3) hex by simp_all
  have "split_once SLASH operation = Some (''blobs'', v)" unfolding v(3) by (rule split_once_value) simp
  moreover have "operation \<noteq> []" "\<not> contains_any operation [CHR ''?'', CHR ''#'', CHR ''%'', BACKSLASH]"
    unfolding v(3) contains_any_append using plain(2) by (simp_all add: contains_any_def)
  ultimately show ?thesis
    using uploads plain(1,3,4) v(1,2) unfolding parse_operation_def by (simp add: Blob)
next
  case (BlobUploadStart r)
  with assms have "r = repository" "operation = ''blobs/uploads'' \<or> operation = ''blobs/uploads/''" by auto
  then show ?thesis by (auto simp: parse_operation_def BlobUploadStart contains_any_def)
next
  case (BlobUpload r v)
  with assms have v: "valid_upload_id v" "r = repository" "operation = ''blobs/uploads/'' @ v" by auto
  note plain = plain_value[OF valid_upload_id_bytes[OF v(1)]]
  with v show ?thesis by (simp add: parse_operation_def BlobUpload contains_any_def)
qed (use assms in simp)

lemma target_spells_operation:
  assumes "target_wf repository t" "t \<noteq> Version"
  shows "target_spells t s \<longleftrightarrow> (\<exists>operation. s = ''/v2/'' @ repository @ ''/'' @ operation \<and> operation_of t operation)"
  using assms by (cases t) auto

lemma parse_path_operation:
  "parse_path (''/v2/'' @ repository @ ''/'' @ operation) repository = parse_operation repository operation"
proof -
  have "strip_prefix (repository @ ''/'') (repository @ ''/'' @ operation) = Some operation"
    using strip_prefix_append[of "repository @ ''/''" operation] by simp
  then show ?thesis by (simp add: parse_path_def)
qed

lemma parse_path_iff: "parse_path path repository = Ok t \<longleftrightarrow> target_wf repository t \<and> target_spells t path"
proof
  assume ok: "parse_path path repository = Ok t"
  show "target_wf repository t \<and> target_spells t path"
  proof (cases "path = ''/v2/''")
    case True
    with ok show ?thesis by (auto simp: parse_path_def)
  next
    case False
    with ok obtain operation where op: "path = ''/v2/'' @ repository @ ''/'' @ operation"
      "parse_operation repository operation = Ok t"
      by (auto simp: parse_path_def split: if_splits option.splits)
    note sound = parse_operation_sound[OF op(2)]
    then have "t \<noteq> Version" by auto
    with sound op(1) show ?thesis using target_spells_operation by blast
  qed
next
  assume t: "target_wf repository t \<and> target_spells t path"
  show "parse_path path repository = Ok t"
  proof (cases "t = Version")
    case True
    with t show ?thesis by (simp add: parse_path_def)
  next
    case False
    with t obtain operation where "path = ''/v2/'' @ repository @ ''/'' @ operation" "operation_of t operation"
      using target_spells_operation by blast
    with t show ?thesis using parse_operation_complete parse_path_operation by metis
  qed
qed

interpretation gateway: grammar "\<lambda>path. parse_path path repository" "target_wf repository" target_spells
  for repository
  by unfold_locales (rule parse_path_iff)

lemma parse_path_mismatch_iff:
  "parse_path path repository = Err RepositoryMismatch \<longleftrightarrow>
     prefix ''/v2/'' path \<and> path \<noteq> ''/v2/'' \<and> path \<noteq> ''/v2/'' @ repository
     \<and> \<not> prefix (''/v2/'' @ repository @ ''/'') path"
proof -
  have op: "parse_operation r operation \<noteq> Err RepositoryMismatch" for r operation
    by (auto simp: parse_operation_def split: if_splits option.splits prod.splits)
  show ?thesis
  proof (cases "prefix ''/v2/'' path")
    case True
    then obtain r where r: "path = ''/v2/'' @ r" by (auto simp: prefix_def)
    show ?thesis
      unfolding r using op strip_prefix_None_iff[of "repository @ ''/''" r]
      by (auto simp: parse_path_def split: option.splits) 
  next
    case False
    then have "strip_prefix ''/v2/'' path = None" by (simp only: strip_prefix_None_iff) simp
    with False show ?thesis by (auto simp: parse_path_def)
  qed
qed

subsection \<open>Properties\<close>

text \<open>C27. The gateway accepts exactly the spellings of the well-formed targets of its own
  repository (an upload start has two spellings, with and without a final slash, every other
  target has one), and reports a repository mismatch exactly for a path below \<open>/v2/\<close> that is
  neither the version check nor the configured repository nor below it. No other repository can
  be named through the gateway.\<close>

theorem parse_path_exact:
  "(parse_path path repository = Ok t \<longleftrightarrow> target_wf repository t \<and> target_spells t path)
   \<and> (parse_path path repository = Err RepositoryMismatch \<longleftrightarrow>
        prefix ''/v2/'' path \<and> path \<noteq> ''/v2/'' \<and> path \<noteq> ''/v2/'' @ repository
        \<and> \<not> prefix (''/v2/'' @ repository @ ''/'') path)"
  using parse_path_iff parse_path_mismatch_iff by blast

end
