(* ===== verification/Http.thy ===== *)
theory Http
  imports Prelude
begin

text \<open>
  The vocabulary of the HTTP library the crate is written against. A header map is the list of
  its fields in iteration order, names in lowercase as the library stores them, values as
  bytes; \<open>insert\<close> replaces every field of that name, \<open>append\<close> keeps them. A request is the
  record of what the crate reads of it, and a response of what it writes.
\<close>

type_synonym header_map = "(string \<times> string) list"

definition header_get_all :: "header_map \<Rightarrow> string \<Rightarrow> string list" where
  "header_get_all hs name = map snd (filter (\<lambda>(n, v). n = name) hs)"

definition header_get :: "header_map \<Rightarrow> string \<Rightarrow> string option" where
  "header_get hs name = map_of hs name"

definition header_contains_key :: "header_map \<Rightarrow> string \<Rightarrow> bool" where
  "header_contains_key hs name \<longleftrightarrow> list_ex (\<lambda>(n, v). n = name) hs"

definition header_insert :: "header_map \<Rightarrow> string \<Rightarrow> string \<Rightarrow> header_map" where
  "header_insert hs name value = filter (\<lambda>(n, v). n \<noteq> name) hs @ [(name, value)]"

definition header_append :: "header_map \<Rightarrow> string \<Rightarrow> string \<Rightarrow> header_map" where
  "header_append hs name value = hs @ [(name, value)]"

definition header_remove :: "header_map \<Rightarrow> string \<Rightarrow> header_map" where
  "header_remove hs name = filter (\<lambda>(n, v). n \<noteq> name) hs"

record request =
  req_method :: string
  req_scheme :: "string option"
  req_authority :: "string option"
  req_path_and_query :: "string option"
  req_path :: string
  req_query :: "string option"
  req_headers :: header_map
  req_end_stream :: bool

record response =
  rsp_status :: nat
  rsp_headers :: header_map
  rsp_body :: string

text \<open>\<open>HeaderValue::to_str\<close> succeeds on visible ASCII, space and tab; \<open>from_str\<close> and
  \<open>from_bytes\<close> refuse control bytes other than tab.\<close>

definition header_to_str :: "string \<Rightarrow> string option" where
  "header_to_str v =
     (if list_all (\<lambda>c. (32 \<le> byte_val c \<and> byte_val c < (127::nat)) \<or> c = HTAB) v then Some v else None)"

definition header_value_from :: "string \<Rightarrow> string option" where
  "header_value_from v =
     (if list_all (\<lambda>c. (32 \<le> byte_val c \<and> byte_val c \<noteq> (127::nat)) \<or> c = HTAB) v then Some v else None)"

definition is_ascii_whitespace :: "char \<Rightarrow> bool" where
  "is_ascii_whitespace c \<longleftrightarrow> c \<in> {CHR '' '', HTAB, CHR 0x0A, CHR 0x0C, CHR 0x0D}"

definition trim_ascii :: "string \<Rightarrow> string" where
  "trim_ascii s = rev (dropWhile is_ascii_whitespace (rev (dropWhile is_ascii_whitespace s)))"

text \<open>The fields of one name after the operations of the map.\<close>

lemma header_get_hd: "header_get hs n = (case header_get_all hs n of [] \<Rightarrow> None | v # _ \<Rightarrow> Some v)"
  unfolding header_get_def header_get_all_def by (induction hs) auto

lemma header_get_in_all: "header_get hs n = Some v \<Longrightarrow> v \<in> set (header_get_all hs n)"
  by (simp add: header_get_hd split: list.splits)

lemma header_get_None_iff: "header_get hs n = None \<longleftrightarrow> header_get_all hs n = []"
  by (simp add: header_get_hd split: list.splits)

lemma header_get_all_set: "v \<in> set (header_get_all hs n) \<longleftrightarrow> (n, v) \<in> set hs"
  by (force simp: header_get_all_def)

lemma header_contains_key_iff: "header_contains_key hs n \<longleftrightarrow> header_get_all hs n \<noteq> []"
  by (induction hs) (auto simp: header_contains_key_def header_get_all_def)

lemma header_get_all_insert [simp]:
  "header_get_all (header_insert hs n v) m = (if m = n then [v] else header_get_all hs m)"
  by (induction hs) (auto simp: header_get_all_def header_insert_def)

lemma header_get_all_append [simp]:
  "header_get_all (header_append hs n v) m = header_get_all hs m @ (if m = n then [v] else [])"
  by (auto simp: header_get_all_def header_append_def)

lemma header_get_all_remove [simp]:
  "header_get_all (header_remove hs n) m = (if m = n then [] else header_get_all hs m)"
  by (induction hs) (auto simp: header_get_all_def header_remove_def)

lemma header_get_insert [simp]:
  "header_get (header_insert hs n v) m = (if m = n then Some v else header_get hs m)"
  by (simp add: header_get_hd)

lemma header_get_remove [simp]:
  "header_get (header_remove hs n) m = (if m = n then None else header_get hs m)"
  by (simp add: header_get_hd)

lemma header_get_all_Nil [simp]: "header_get_all [] n = []"
  by (simp add: header_get_all_def)

lemma header_get_Nil [simp]: "header_get [] n = None"
  by (simp add: header_get_def)

end
