(* ===== verification/Base64url.thy ===== *)
theory Base64url
  imports Prelude
begin

text \<open>
  The base64 codec that \<open>src/routing.rs\<close> calls (\<open>URL_SAFE_NO_PAD\<close> of the \<open>base64\<close> crate) is not
  part of the repository: the model takes its two functions as arguments, and the locale
  \<open>base64_codec\<close> states the documented behaviour that the routes rely on (RFC 4648, section 5,
  without padding). The functions of RFC 4648 themselves are given here as the instance at which
  the contract holds.
\<close>

definition is_base64url_byte :: "char \<Rightarrow> bool" where
  "is_base64url_byte c \<longleftrightarrow> is_ascii_alphanumeric c \<or> c = CHR ''-'' \<or> c = CHR ''_''"

locale base64_codec =
  fixes encode :: "string \<Rightarrow> string"
    and decode :: "string \<Rightarrow> string option"
  assumes decode_encode: "decode (encode s) = Some s"
    and encode_alphabet: "list_all is_base64url_byte (encode s)"
    and length_encode: "length (encode s) = (4 * length s + 2) div 3"
begin

lemma encode_inject: "encode s = encode t \<Longrightarrow> s = t"
  by (metis decode_encode option.inject)

lemma encode_Nil_iff: "encode s = [] \<longleftrightarrow> s = []"
proof -
  have "length (encode s) = 0 \<longleftrightarrow> length s = 0"
    unfolding length_encode by (simp add: div_eq_0_iff)
  then show ?thesis by simp
qed

lemma encode_no_slash: "SLASH \<notin> set (encode s)"
  using encode_alphabet[of s] by (auto simp: list_all_iff is_base64url_byte_def)

lemma canonical_iff: "encode s = t \<and> decode t = Some s \<longleftrightarrow> t = encode s"
  using decode_encode by blast

end

subsection \<open>The functions of RFC 4648\<close>

definition b64_alphabet :: string where
  "b64_alphabet = ''ABCDEFGHIJKLMNOPQRSTUVWXYZabcdefghijklmnopqrstuvwxyz0123456789-_''"

definition b64_char :: "nat \<Rightarrow> char" where
  "b64_char n = b64_alphabet ! (n mod 64)"

definition b64_value :: "char \<Rightarrow> nat option" where
  "b64_value c =
     (if is_ascii_uppercase c then Some (byte_val c - 65)
      else if is_ascii_lowercase c then Some (byte_val c - 71)
      else if is_ascii_digit c then Some (byte_val c + 4)
      else if c = CHR ''-'' then Some 62
      else if c = CHR ''_'' then Some 63
      else None)"

fun b64_encode :: "string \<Rightarrow> string" where
  "b64_encode [] = []"
| "b64_encode [a] = [b64_char (byte_val a div 4), b64_char (16 * byte_val a)]"
| "b64_encode [a, b] =
     [b64_char (byte_val a div 4), b64_char (16 * byte_val a + byte_val b div 16),
      b64_char (4 * byte_val b)]"
| "b64_encode (a # b # c # r) =
     b64_char (byte_val a div 4) # b64_char (16 * byte_val a + byte_val b div 16)
     # b64_char (4 * byte_val b + byte_val c div 64) # b64_char (byte_val c) # b64_encode r"

fun b64_decode :: "string \<Rightarrow> string option" where
  "b64_decode [] = Some []"
| "b64_decode [w] = None"
| "b64_decode [w, x] =
     (case (b64_value w, b64_value x) of
        (Some i, Some j) \<Rightarrow>
          if j mod 16 = 0 then Some [char_of (4 * i + j div 16)] else None
      | _ \<Rightarrow> None)"
| "b64_decode [w, x, y] =
     (case (b64_value w, b64_value x, b64_value y) of
        (Some i, Some j, Some k) \<Rightarrow>
          if k mod 4 = 0 then Some [char_of (4 * i + j div 16), char_of (16 * j + k div 4)] else None
      | _ \<Rightarrow> None)"
| "b64_decode (w # x # y # z # r) =
     (case (b64_value w, b64_value x, b64_value y, b64_value z, b64_decode r) of
        (Some i, Some j, Some k, Some l, Some s) \<Rightarrow>
          Some (char_of (4 * i + j div 16) # char_of (16 * j + k div 4) # char_of (64 * k + l) # s)
      | _ \<Rightarrow> None)"

lemma b64_alphabet_values: "map b64_value b64_alphabet = map Some [0..<64]"
  by (simp add: b64_alphabet_def b64_value_def byte_defs upt_rec)

lemma b64_alphabet_bytes: "list_all is_base64url_byte b64_alphabet"
  by code_simp

lemma length_b64_alphabet: "length b64_alphabet = 64"
  by (simp add: b64_alphabet_def)

lemma b64_value_char [simp]: "b64_value (b64_char n) = Some (n mod 64)"
proof -
  have "b64_value (b64_char n) = map b64_value b64_alphabet ! (n mod 64)"
    by (simp add: b64_char_def length_b64_alphabet)
  then show ?thesis by (simp add: b64_alphabet_values)
qed

lemma b64_char_byte [simp]: "is_base64url_byte (b64_char n)"
  using b64_alphabet_bytes by (simp add: b64_char_def list_all_length length_b64_alphabet)

lemma byte_val_less: "byte_val c < (256::nat)"
  by simp

lemma byte_div_4 [simp]: "byte_val c div 4 mod 64 = (byte_val c div 4 :: nat)"
  using byte_val_less[of c] by (intro mod_less) linarith

lemma mod_64_16: "u < 16 \<Longrightarrow> (16 * a + u) mod 64 = 16 * (a mod 4) + (u::nat)"
proof -
  assume "u < 16"
  then have "16 * (a mod 4) + u < 64" using mod_less_divisor[of 4 a] by linarith
  moreover have "16 * a + u = 64 * (a div 4) + (16 * (a mod 4) + u)"
    using mult_div_mod_eq[of 4 a] by linarith
  ultimately show ?thesis by (metis mod_less mod_mult_self4)
qed

lemma mod_64_4: "w < 4 \<Longrightarrow> (4 * b + w) mod 64 = 4 * (b mod 16) + (w::nat)"
proof -
  assume "w < 4"
  then have "4 * (b mod 16) + w < 64" using mod_less_divisor[of 16 b] by linarith
  moreover have "4 * b + w = 64 * (b div 16) + (4 * (b mod 16) + w)"
    using mult_div_mod_eq[of 16 b] by linarith
  ultimately show ?thesis by (metis mod_less mod_mult_self4)
qed

text \<open>The three bytes of a group come back from its four characters.\<close>

lemma b64_first: "4 * (byte_val a div 4 mod 64) + (16 * byte_val a + u) mod 64 div 16 = byte_val a"
  if "u < 16"
proof -
  have "(16 * (byte_val a mod 4) + u) div 16 = byte_val a mod (4::nat)" using that by simp
  then show ?thesis using that by (simp add: mod_64_16)
qed

lemma b64_second:
  "(16 * ((16 * a + byte_val b div 16) mod 64) + (4 * byte_val b + w) mod 64 div 4) mod 256 = byte_val b"
  if "w < 4"
proof -
  have u: "byte_val b div 16 < (16::nat)" using byte_val_less[of b] by linarith
  have "(4 * (byte_val b mod 16) + w) div 4 = byte_val b mod (16::nat)" using that by simp
  then have "16 * ((16 * a + byte_val b div 16) mod 64) + (4 * byte_val b + w) mod 64 div 4
      = 256 * (a mod 4) + (16 * (byte_val b div 16) + byte_val b mod 16)"
    using that u by (simp add: mod_64_16 mod_64_4)
  also have "\<dots> = 256 * (a mod 4) + byte_val b" by simp
  finally show ?thesis using byte_val_less[of b] by (metis mod_less mod_mult_self4)
qed

lemma b64_third:
  "(64 * ((4 * b + byte_val c div 64) mod 64) + byte_val c mod 64) mod 256 = byte_val c"
proof -
  have w: "byte_val c div 64 < (4::nat)" using byte_val_less[of c] by linarith
  then have "64 * ((4 * b + byte_val c div 64) mod 64) + byte_val c mod 64
      = 256 * (b mod 16) + (64 * (byte_val c div 64) + byte_val c mod 64)"
    by (simp add: mod_64_4)
  also have "\<dots> = 256 * (b mod 16) + byte_val c" by simp
  finally show ?thesis using byte_val_less[of c] by (metis mod_less mod_mult_self4)
qed

lemma char_of_byteI: "n mod 256 = byte_val c \<Longrightarrow> char_of (n::nat) = c"
  by (metis char_of_mod_256 char_of_char)

lemma b64_decode_encode: "b64_decode (b64_encode s) = Some s"
proof (induction s rule: b64_encode.induct)
  case (2 a)
  show ?case
    using b64_first[of 0 a] mod_64_16[of 0 "byte_val a"] by (simp add: mult.commute)
next
  case (3 a b)
  have u: "byte_val b div 16 < (16::nat)" using byte_val_less[of b] by linarith
  show ?case
    using b64_first[OF u, of a] char_of_byteI[OF b64_second[of 0 "byte_val a" b]]
      mod_64_4[of 0 "byte_val b"] by simp
next
  case (4 a b c r)
  have u: "byte_val b div 16 < (16::nat)" using byte_val_less[of b] by linarith
  have w: "byte_val c div 64 < (4::nat)" using byte_val_less[of c] by linarith
  show ?case
    using 4 b64_first[OF u, of a] char_of_byteI[OF b64_second[OF w, of "byte_val a" b]]
      char_of_byteI[OF b64_third[of "byte_val b" c]] by simp
qed simp

lemma b64_encode_alphabet: "list_all is_base64url_byte (b64_encode s)"
  by (induction s rule: b64_encode.induct) simp_all

lemma length_b64_encode: "length (b64_encode s) = (4 * length s + 2) div 3"
  by (induction s rule: b64_encode.induct) simp_all

interpretation rfc4648: base64_codec b64_encode b64_decode
  by unfold_locales (rule b64_decode_encode b64_encode_alphabet length_b64_encode)+

end
