(* ===== verification/Routing.thy ===== *)
theory Routing
  imports Base64url Grammars "HOL-Library.Word"
begin

unbundle bit_operations_syntax

text \<open>
  \<open>src/routing.rs\<close>: the public namespace \<open>/r/v1/<locator>/<protocol>/<path>\<close>. The base64url codec
  is the pair of arguments \<open>enc\<close>, \<open>dec\<close>.
\<close>

subsection \<open>The code\<close>

definition ROUTE_PREFIX :: string where "ROUTE_PREFIX = ''/r/v1/''"
definition MAX_REPOSITORY_BYTES :: nat where "MAX_REPOSITORY_BYTES = 255"
definition MAX_REPOSITORY_SEGMENTS :: nat where "MAX_REPOSITORY_SEGMENTS = 32"
definition MAX_PROTOCOL_PATH_BYTES :: nat where "MAX_PROTOCOL_PATH_BYTES = 4096"
definition MAX_PROTOCOL_PATH_SEGMENTS :: nat where "MAX_PROTOCOL_PATH_SEGMENTS = 128"
definition MAX_LOCATOR_BYTES :: nat where "MAX_LOCATOR_BYTES = 340"

datatype route_error =
    UnsupportedMethod | InvalidRoute | InvalidRepositoryLocator | InvalidRepository
  | UnsupportedProtocol | DisabledProtocol | InvalidProtocolPath

fun route_error_code :: "route_error \<Rightarrow> string" where
  "route_error_code UnsupportedMethod = ''unsupported_method''"
| "route_error_code InvalidRoute = ''invalid_route''"
| "route_error_code InvalidRepositoryLocator = ''invalid_repository_locator''"
| "route_error_code InvalidRepository = ''invalid_repository''"
| "route_error_code UnsupportedProtocol = ''unsupported_protocol''"
| "route_error_code DisabledProtocol = ''disabled_protocol''"
| "route_error_code InvalidProtocolPath = ''invalid_protocol_path''"

text \<open>The loop of \<open>is_repository_segment\<close> over the bytes after the first.\<close>

fun repository_segment_loop :: "bool \<Rightarrow> string \<Rightarrow> bool" where
  "repository_segment_loop previous_was_separator [] = (\<not> previous_was_separator)"
| "repository_segment_loop previous_was_separator (byte # remainder) =
     (if is_ascii_lowercase byte \<or> is_ascii_digit byte then repository_segment_loop False remainder
      else if byte \<in> {CHR ''.'', CHR ''_'', CHR ''-''} then
        (if previous_was_separator then False else repository_segment_loop True remainder)
      else False)"

fun is_repository_segment :: "string \<Rightarrow> bool" where
  "is_repository_segment [] = False"
| "is_repository_segment (first # remainder) =
     (if \<not> is_ascii_lowercase first \<and> \<not> is_ascii_digit first then False
      else repository_segment_loop False remainder)"

datatype validated_repository = ValidatedRepository (repo_str: string)

definition validated_repository_parse :: "string \<Rightarrow> route_error + validated_repository" where
  "validated_repository_parse repository =
     (if repository = [] \<or> length repository > MAX_REPOSITORY_BYTES \<or> \<not> list_all is_ascii repository
      then Err InvalidRepository
      else
        let segments = split_on SLASH repository
        in if length segments > MAX_REPOSITORY_SEGMENTS
              \<or> list_ex (\<lambda>segment. \<not> is_repository_segment segment) segments
           then Err InvalidRepository
           else Ok (ValidatedRepository repository))"

definition repository_locator :: "(string \<Rightarrow> string) \<Rightarrow> validated_repository \<Rightarrow> string" where
  "repository_locator enc r = enc (repo_str r)"

datatype protocol = Pypi | Rpm | Apt | Pacman

fun protocol_as_str :: "protocol \<Rightarrow> string" where
  "protocol_as_str Pypi = ''pypi''"
| "protocol_as_str Rpm = ''rpm''"
| "protocol_as_str Apt = ''apt''"
| "protocol_as_str Pacman = ''pacman''"

definition protocol_parse :: "string \<Rightarrow> route_error + protocol" where
  "protocol_parse value =
     (if value = ''pypi'' then Ok Pypi
      else if value = ''rpm'' then Ok Rpm
      else if value = ''apt'' then Ok Apt
      else if value = ''pacman'' then Ok Pacman
      else Err UnsupportedProtocol)"

datatype enabled_protocols = EnabledProtocols (ep_bits: "8 word")

definition PYPI :: "8 word" where "PYPI = push_bit 0 1"
definition RPM :: "8 word" where "RPM = push_bit 1 1"
definition APT :: "8 word" where "APT = push_bit 2 1"
definition PACMAN :: "8 word" where "PACMAN = push_bit 3 1"

fun protocol_bit :: "protocol \<Rightarrow> 8 word" where
  "protocol_bit Pypi = PYPI"
| "protocol_bit Rpm = RPM"
| "protocol_bit Apt = APT"
| "protocol_bit Pacman = PACMAN"

definition enabled_all :: enabled_protocols where
  "enabled_all = EnabledProtocols (((PYPI OR RPM) OR APT) OR PACMAN)"

definition enabled_none :: enabled_protocols where
  "enabled_none = EnabledProtocols 0"

definition enabled_with :: "enabled_protocols \<Rightarrow> protocol \<Rightarrow> enabled_protocols" where
  "enabled_with self protocol = EnabledProtocols (ep_bits self OR protocol_bit protocol)"

definition enabled_contains :: "enabled_protocols \<Rightarrow> protocol \<Rightarrow> bool" where
  "enabled_contains self protocol \<longleftrightarrow> ep_bits self AND protocol_bit protocol \<noteq> 0"

datatype canonical_protocol_path = CanonicalProtocolPath (cpp_str: string)

record validated_route =
  vr_repository :: validated_repository
  vr_protocol :: protocol
  vr_protocol_path :: canonical_protocol_path

definition parse_protocol_path :: "string \<Rightarrow> route_error + canonical_protocol_path" where
  "parse_protocol_path path =
     (if path = [] \<or> length path > MAX_PROTOCOL_PATH_BYTES \<or> \<not> list_all is_ascii path
      then Err InvalidProtocolPath
      else
        let has_trailing_slash = ends_with path ''/'';
            segments = split_on SLASH path;
            meaningful_segments =
              (if has_trailing_slash then take (length segments - 1) segments else segments)
        in if meaningful_segments = [] \<or> length meaningful_segments > MAX_PROTOCOL_PATH_SEGMENTS
              \<or> list_ex (\<lambda>segment. segment = [] \<or> segment = ''.'' \<or> segment = ''..''
                   \<or> contains_any segment [CHR '';''] \<or> list_ex is_ascii_control segment)
                   meaningful_segments
           then Err InvalidProtocolPath
           else Ok (CanonicalProtocolPath path))"

definition is_base64url_character :: "char \<Rightarrow> bool" where
  "is_base64url_character byte \<longleftrightarrow> is_ascii_uppercase byte \<or> is_ascii_lowercase byte
     \<or> is_ascii_digit byte \<or> byte \<in> {CHR ''-'', CHR ''_''}"

definition decode_repository_locator ::
    "(string \<Rightarrow> string) \<Rightarrow> (string \<Rightarrow> string option) \<Rightarrow> string \<Rightarrow> route_error + validated_repository" where
  "decode_repository_locator enc dec locator =
     (if locator = [] \<or> length locator > MAX_LOCATOR_BYTES \<or> \<not> list_all is_base64url_character locator
      then Err InvalidRepositoryLocator
      else and_then (ok_or InvalidRepositoryLocator (dec locator)) (\<lambda>decoded.
        if \<not> is_utf8 decoded then Err InvalidRepositoryLocator
        else if enc decoded \<noteq> locator then Err InvalidRepositoryLocator
        else validated_repository_parse decoded))"

definition parse_raw_target ::
    "(string \<Rightarrow> string) \<Rightarrow> (string \<Rightarrow> string option) \<Rightarrow> string \<Rightarrow> string \<Rightarrow> enabled_protocols
     \<Rightarrow> route_error + validated_route" where
  "parse_raw_target enc dec method raw_target enabled =
     (if \<not> (method = ''GET'' \<or> method = ''HEAD'') then Err UnsupportedMethod
      else if raw_target = [] \<or> \<not> list_all is_ascii raw_target \<or> list_ex is_ascii_control raw_target
        \<or> contains_any raw_target [CHR ''?'', CHR ''#'', CHR ''%'', BACKSLASH]
        \<or> \<not> starts_with raw_target ''/''
      then Err InvalidRoute
      else
        and_then (ok_or InvalidRoute (strip_prefix ROUTE_PREFIX raw_target)) (\<lambda>route.
        and_then (ok_or InvalidRoute (split_once SLASH route)) (\<lambda>(locator, rest).
        and_then (ok_or InvalidRoute (split_once SLASH rest)) (\<lambda>(protocol, protocol_path).
        if locator = [] then Err InvalidRepositoryLocator
        else
          and_then (decode_repository_locator enc dec locator) (\<lambda>repository.
          and_then (protocol_parse protocol) (\<lambda>protocol.
          if \<not> enabled_contains enabled protocol then Err DisabledProtocol
          else
            and_then (parse_protocol_path protocol_path) (\<lambda>protocol_path.
            Ok \<lparr>vr_repository = repository, vr_protocol = protocol,
                vr_protocol_path = protocol_path\<rparr>)))))))"

subsection \<open>Repository names\<close>

text \<open>
  The specification of a repository segment: runs of lowercase letters and digits joined by
  single separators.
\<close>

definition name_char :: "char \<Rightarrow> bool" where
  "name_char c \<longleftrightarrow> is_ascii_lowercase c \<or> is_ascii_digit c"

definition separator_char :: "char \<Rightarrow> bool" where
  "separator_char c \<longleftrightarrow> c = CHR ''.'' \<or> c = CHR ''_'' \<or> c = CHR ''-''"

definition repository_segment_spec :: "string \<Rightarrow> bool" where
  "repository_segment_spec s \<longleftrightarrow> s \<noteq> [] \<and> name_char (hd s) \<and> name_char (last s)
     \<and> (\<forall>c \<in> set s. name_char c \<or> separator_char c)
     \<and> (\<nexists>u a b v. s = u @ [a, b] @ v \<and> separator_char a \<and> separator_char b)"

definition repository_spec :: "string \<Rightarrow> bool" where
  "repository_spec r \<longleftrightarrow> length r \<le> MAX_REPOSITORY_BYTES
     \<and> (\<exists>segs. segs \<noteq> [] \<and> length segs \<le> MAX_REPOSITORY_SEGMENTS
          \<and> list_all repository_segment_spec segs \<and> r = join_with SLASH segs)"

lemma separator_not_name: "separator_char c \<Longrightarrow> \<not> name_char c"
  by (auto simp: separator_char_def name_char_def byte_defs)

lemma adjacent_Cons:
  "(\<exists>u a b v. c # s = u @ [a, b] @ v \<and> P a \<and> P b) \<longleftrightarrow>
     (s \<noteq> [] \<and> P c \<and> P (hd s)) \<or> (\<exists>u a b v. s = u @ [a, b] @ v \<and> P a \<and> P b)"
  (is "?L \<longleftrightarrow> ?R")
proof
  assume ?L
  then obtain u a b v where s: "c # s = u @ [a, b] @ v" "P a" "P b" by blast
  show ?R
  proof (cases u)
    case Nil
    with s show ?thesis by auto
  next
    case (Cons d u')
    with s have "s = u' @ [a, b] @ v" by simp
    with s show ?thesis by blast
  qed
next
  assume ?R
  then show ?L
  proof
    assume h: "s \<noteq> [] \<and> P c \<and> P (hd s)"
    then have "c # s = [] @ [c, hd s] @ tl s" by simp
    with h show ?thesis by blast
  next
    assume "\<exists>u a b v. s = u @ [a, b] @ v \<and> P a \<and> P b"
    then obtain u a b v where "s = u @ [a, b] @ v" "P a" "P b" by blast
    then have "c # s = (c # u) @ [a, b] @ v" by simp
    with \<open>P a\<close> \<open>P b\<close> show ?thesis by blast
  qed
qed

lemma repository_segment_loop_Cons:
  "repository_segment_loop prev (c # s) \<longleftrightarrow>
     (if name_char c then repository_segment_loop False s
      else separator_char c \<and> \<not> prev \<and> repository_segment_loop True s)"
  unfolding repository_segment_loop.simps name_char_def separator_char_def by simp

lemma repository_segment_loop_iff:
  "repository_segment_loop prev s \<longleftrightarrow>
     (\<forall>c \<in> set s. name_char c \<or> separator_char c)
     \<and> (if s = [] then \<not> prev else (prev \<longrightarrow> name_char (hd s)) \<and> name_char (last s))
     \<and> (\<nexists>u a b v. s = u @ [a, b] @ v \<and> separator_char a \<and> separator_char b)"
proof (induction prev s rule: repository_segment_loop.induct)
  case (2 prev c s)
  note loop = repository_segment_loop_Cons[of prev c s]
  show ?case
  proof (cases "name_char c")
    case True
    then have "repository_segment_loop prev (c # s) = repository_segment_loop False s"
      unfolding loop by simp
    moreover have "\<not> separator_char c" using True separator_not_name by blast
    ultimately show ?thesis
      unfolding adjacent_Cons using True 2(1) by (cases "s = []") (auto simp: name_char_def)
  next
    case False
    show ?thesis
    proof (cases "separator_char c \<and> \<not> prev")
      case True
      then have IH: "repository_segment_loop True s \<longleftrightarrow>
          (\<forall>c \<in> set s. name_char c \<or> separator_char c)
          \<and> (if s = [] then \<not> True else (True \<longrightarrow> name_char (hd s)) \<and> name_char (last s))
          \<and> (\<nexists>u a b v. s = u @ [a, b] @ v \<and> separator_char a \<and> separator_char b)"
        using 2(2) False by (auto simp: name_char_def separator_char_def)
      have hd: "s \<noteq> [] \<Longrightarrow> \<forall>c \<in> set s. name_char c \<or> separator_char c \<Longrightarrow>
          name_char (hd s) \<longleftrightarrow> \<not> separator_char (hd s)"
        using separator_not_name by (metis hd_in_set)
      show ?thesis
        unfolding loop adjacent_Cons using True False IH hd by (cases "s = []") auto
    next
      case nosep: False
      with False show ?thesis unfolding loop by auto
    qed
  qed
qed simp

lemma is_repository_segment_iff: "is_repository_segment s \<longleftrightarrow> repository_segment_spec s"
proof (cases s)
  case Nil
  then show ?thesis by (simp add: repository_segment_spec_def)
next
  case (Cons c r)
  have "is_repository_segment s \<longleftrightarrow> name_char c \<and> repository_segment_loop False r"
    by (auto simp: Cons name_char_def)
  then show ?thesis
    unfolding repository_segment_loop_iff repository_segment_spec_def Cons adjacent_Cons
    using separator_not_name by (cases "r = []") auto
qed

subsection \<open>Protocol paths\<close>

definition protocol_segment :: "string \<Rightarrow> bool" where
  "protocol_segment s \<longleftrightarrow> s \<noteq> [] \<and> s \<noteq> ''.'' \<and> s \<noteq> ''..''
     \<and> (\<forall>c \<in> set s. is_ascii c \<and> \<not> is_ascii_control c \<and> c \<noteq> SLASH \<and> c \<noteq> CHR '';'')"

definition protocol_path_spec :: "string \<Rightarrow> bool" where
  "protocol_path_spec path \<longleftrightarrow> length path \<le> MAX_PROTOCOL_PATH_BYTES
     \<and> (\<exists>segs dir. segs \<noteq> [] \<and> length segs \<le> MAX_PROTOCOL_PATH_SEGMENTS \<and> list_all protocol_segment segs
          \<and> path = join_with SLASH segs @ (if dir then ''/'' else []))"

lemma meaningful_segments_iff:
  assumes P: "\<And>s. P s \<Longrightarrow> s \<noteq> [] \<and> d \<notin> set s"
  defines "m \<equiv> \<lambda>s. if suffix [d] s then take (length (split_on d s) - 1) (split_on d s) else split_on d s"
  shows "m s \<noteq> [] \<and> length (m s) \<le> n \<and> list_all P (m s) \<longleftrightarrow>
    (\<exists>segs dir. segs \<noteq> [] \<and> length segs \<le> n \<and> list_all P segs
       \<and> s = join_with d segs @ (if dir then [d] else []))"
    (is "?L \<longleftrightarrow> ?R")
proof
  assume l: ?L
  have "s = join_with d (m s) @ (if suffix [d] s then [d] else [])"
  proof (cases "suffix [d] s")
    case True
    then obtain t where "s = t @ [d]" by (auto simp: suffix_def)
    then show ?thesis using split_on_append_sep[of d t "[]"] by (simp add: m_def)
  qed (simp add: m_def)
  with l show ?R by blast
next
  assume ?R
  then obtain segs dir where segs: "segs \<noteq> []" "length segs \<le> n" "list_all P segs"
    and s: "s = join_with d segs @ (if dir then [d] else [])" by blast
  have split: "split_on d (join_with d segs) = segs"
    using segs P by (intro split_on_join) (auto simp: list_all_iff)
  have "m s = segs"
  proof (cases dir)
    case True
    then show ?thesis using s split split_on_append_sep[of d "join_with d segs" "[]"] by (simp add: m_def)
  next
    case False
    have "P (last segs)" using segs by (simp add: list_all_iff)
    then have lst: "last segs \<noteq> []" "last (last segs) \<noteq> d"
      using P[of "last segs"] last_in_set[of "last segs"] by (blast, metis)
    have "join_with d segs = (if tl segs = [] then [] else join_with d (butlast segs) @ [d]) @ last segs"
    proof (cases "butlast segs = []")
      case True
      then show ?thesis using segs(1) by (cases segs) (auto split: if_splits)
    next
      case False
      then show ?thesis
        using join_with_append[of "butlast segs" "[last segs]" d] segs(1) by (cases segs) auto
    qed
    with lst have "\<not> suffix [d] (join_with d segs)" by (simp add: suffix_single_iff)
    then show ?thesis using False s split by (simp add: m_def)
  qed
  with segs show ?L by simp
qed

lemma parse_protocol_path_eq:
  "parse_protocol_path path =
     (if protocol_path_spec path then Ok (CanonicalProtocolPath path) else Err InvalidProtocolPath)"
proof -
  define m where "m = (if suffix ''/'' path then take (length (split_on SLASH path) - 1) (split_on SLASH path)
    else split_on SLASH path)"
  have P: "protocol_segment s \<Longrightarrow> s \<noteq> [] \<and> SLASH \<notin> set s" for s by (auto simp: protocol_segment_def)
  have ascii: "list_all is_ascii path" if "protocol_path_spec path"
  proof -
    from that obtain segs dir where "list_all protocol_segment segs"
      "path = join_with SLASH segs @ (if dir then ''/'' else [])" by (auto simp: protocol_path_spec_def)
    then show ?thesis
      using set_join_with[of SLASH segs]
      by (auto simp: list_all_iff protocol_segment_def is_ascii_def split: if_splits)
  qed
  have nonempty: "path \<noteq> []" if "protocol_path_spec path"
  proof -
    from that obtain segs dir where "segs \<noteq> []" "protocol_segment (hd segs)"
      "path = join_with SLASH segs @ (if dir then ''/'' else [])"
      by (auto simp: protocol_path_spec_def list_all_iff)
    then show ?thesis using prefix_hd_join[of segs SLASH] P by fastforce
  qed
  have seg: "protocol_segment s \<longleftrightarrow> \<not> (s = [] \<or> s = ''.'' \<or> s = ''..''
      \<or> contains_any s [CHR '';''] \<or> list_ex is_ascii_control s)"
    if "s \<in> set m" "list_all is_ascii path" for s
  proof -
    have "s \<in> set (split_on SLASH path)" using that(1) by (auto simp: m_def split: if_splits dest: in_set_takeD)
    then have "SLASH \<notin> set s" "set s \<subseteq> set path"
      using split_on_sep_free set_split_on_subset by blast+
    with that(2) show ?thesis
      by (auto simp: protocol_segment_def contains_any_iff list_ex_iff list_all_iff)
  qed
  let ?bad = "list_ex (\<lambda>s. s = [] \<or> s = ''.'' \<or> s = ''..'' \<or> contains_any s [CHR '';'']
    \<or> list_ex is_ascii_control s) m"
  have spec: "protocol_path_spec path \<longleftrightarrow> length path \<le> MAX_PROTOCOL_PATH_BYTES
      \<and> m \<noteq> [] \<and> length m \<le> MAX_PROTOCOL_PATH_SEGMENTS \<and> list_all protocol_segment m"
    unfolding protocol_path_spec_def m_def
    using meaningful_segments_iff[of protocol_segment SLASH path MAX_PROTOCOL_PATH_SEGMENTS, OF P]
    by blast
  have bad: "list_all protocol_segment m \<longleftrightarrow> \<not> ?bad" if "list_all is_ascii path"
    using seg[OF _ that] unfolding list_all_iff list_ex_iff by blast
  define reject where "reject \<longleftrightarrow> m = [] \<or> length m > MAX_PROTOCOL_PATH_SEGMENTS \<or> ?bad"
  have parse: "parse_protocol_path path =
      (if path = [] \<or> length path > MAX_PROTOCOL_PATH_BYTES \<or> \<not> list_all is_ascii path
       then Err InvalidProtocolPath
       else if reject then Err InvalidProtocolPath else Ok (CanonicalProtocolPath path))"
    by (simp only: parse_protocol_path_def Let_def reject_def m_def)
  show ?thesis
  proof (cases "path \<noteq> [] \<and> list_all is_ascii path")
    case True
    with bad have "protocol_path_spec path \<longleftrightarrow> length path \<le> MAX_PROTOCOL_PATH_BYTES \<and> \<not> reject"
      unfolding spec reject_def by auto
    with True show ?thesis unfolding parse by auto
  next
    case False
    with ascii nonempty have "\<not> protocol_path_spec path" by blast
    with False show ?thesis unfolding parse by auto
  qed
qed

lemma validated_repository_parse_eq:
  "validated_repository_parse r =
     (if repository_spec r then Ok (ValidatedRepository r) else Err InvalidRepository)"
proof -
  have free: "repository_segment_spec s \<Longrightarrow> s \<noteq> [] \<and> SLASH \<notin> set s \<and> list_all is_ascii s" for s
    by (auto simp: repository_segment_spec_def name_char_def separator_char_def byte_defs list_all_iff)
  have spec: "repository_spec r \<longleftrightarrow> length r \<le> MAX_REPOSITORY_BYTES
      \<and> length (split_on SLASH r) \<le> MAX_REPOSITORY_SEGMENTS
      \<and> list_all repository_segment_spec (split_on SLASH r)"
  proof
    assume "repository_spec r"
    then obtain segs where segs: "segs \<noteq> []" "length segs \<le> MAX_REPOSITORY_SEGMENTS"
      "list_all repository_segment_spec segs" "r = join_with SLASH segs"
      and len: "length r \<le> MAX_REPOSITORY_BYTES"
      by (auto simp: repository_spec_def)
    have "split_on SLASH r = segs"
      using segs free by (auto simp: list_all_iff intro!: split_on_join)
    with segs len show "length r \<le> MAX_REPOSITORY_BYTES
      \<and> length (split_on SLASH r) \<le> MAX_REPOSITORY_SEGMENTS
      \<and> list_all repository_segment_spec (split_on SLASH r)" by simp
  next
    assume "length r \<le> MAX_REPOSITORY_BYTES
      \<and> length (split_on SLASH r) \<le> MAX_REPOSITORY_SEGMENTS
      \<and> list_all repository_segment_spec (split_on SLASH r)"
    then show "repository_spec r"
      unfolding repository_spec_def by (metis join_split_on split_on_not_Nil)
  qed
  have ascii: "list_all is_ascii r \<and> r \<noteq> []" if "list_all repository_segment_spec (split_on SLASH r)"
  proof -
    have "set (join_with SLASH (split_on SLASH r)) \<subseteq> insert SLASH (\<Union> (set ` set (split_on SLASH r)))"
      by (rule set_join_with)
    then have "\<forall>c \<in> set r. c = SLASH \<or> (\<exists>s \<in> set (split_on SLASH r). c \<in> set s)" by auto
    moreover have "r \<noteq> []" using that by (auto simp: repository_segment_spec_def)
    ultimately show ?thesis using that free by (fastforce simp: list_all_iff is_ascii_def)
  qed
  have "list_ex (\<lambda>s. \<not> is_repository_segment s) ss \<longleftrightarrow> \<not> list_all repository_segment_spec ss" for ss
    by (simp add: is_repository_segment_iff list_ex_iff list_all_iff)
  then show ?thesis
    using spec ascii unfolding validated_repository_parse_def Let_def by auto
qed

subsection \<open>Enabled protocols\<close>

text \<open>The abstraction of the bit set: the set of protocols it contains.\<close>

definition enabled_set :: "enabled_protocols \<Rightarrow> protocol set" where
  "enabled_set e = {p. enabled_contains e p}"

fun protocol_index :: "protocol \<Rightarrow> nat" where
  "protocol_index Pypi = 0"
| "protocol_index Rpm = 1"
| "protocol_index Apt = 2"
| "protocol_index Pacman = 3"

lemma protocol_bit_exp: "protocol_bit p = 2 ^ protocol_index p"
  by (cases p) (simp_all add: PYPI_def RPM_def APT_def PACMAN_def push_bit_of_1)

lemma protocol_index_inject: "protocol_index p = protocol_index q \<longleftrightarrow> p = q"
  by (cases p; cases q) simp_all

lemma protocol_index_less: "protocol_index p < 8"
  by (cases p) simp_all

lemma enabled_contains_iff: "enabled_contains e p \<longleftrightarrow> bit (ep_bits e) (protocol_index p)"
  unfolding enabled_contains_def protocol_bit_exp by (simp add: and_exp_eq_0_iff_not_bit)

lemma bit_protocol: "bit (2 ^ protocol_index q :: 8 word) (protocol_index p) \<longleftrightarrow> p = q"
  using protocol_index_less[of p] protocol_index_inject[of p q]
  by (simp add: bit_exp_iff possible_bit_def)

lemma enabled_set_with: "enabled_set (enabled_with e p) = insert p (enabled_set e)"
  by (auto simp: enabled_set_def enabled_with_def enabled_contains_iff bit_or_iff protocol_bit_exp bit_protocol)

lemma enabled_set_none: "enabled_set enabled_none = {}"
  by (simp add: enabled_set_def enabled_none_def enabled_contains_iff)

lemma enabled_set_all: "enabled_set enabled_all = UNIV"
proof -
  have eq: "enabled_all = enabled_with (enabled_with (enabled_with (enabled_with enabled_none Pypi) Rpm) Apt) Pacman"
    by (simp add: enabled_all_def enabled_with_def enabled_none_def)
  have "enabled_set enabled_all = {Pacman, Apt, Rpm, Pypi}"
    unfolding eq enabled_set_with enabled_set_none ..
  then show ?thesis using protocol.exhaust by auto
qed

subsection \<open>Routes\<close>

definition route_render :: "(string \<Rightarrow> string) \<Rightarrow> validated_route \<Rightarrow> string" where
  "route_render enc r = ROUTE_PREFIX @ enc (repo_str (vr_repository r)) @ ''/''
     @ protocol_as_str (vr_protocol r) @ ''/'' @ cpp_str (vr_protocol_path r)"

definition route_wf :: "enabled_protocols \<Rightarrow> validated_route \<Rightarrow> bool" where
  "route_wf enabled r \<longleftrightarrow> repository_spec (repo_str (vr_repository r))
     \<and> vr_protocol r \<in> enabled_set enabled
     \<and> protocol_path_spec (cpp_str (vr_protocol_path r))
     \<and> \<not> contains_any (cpp_str (vr_protocol_path r)) [CHR ''?'', CHR ''#'', CHR ''%'', BACKSLASH]"

lemma protocol_parse_iff: "protocol_parse s = Ok p \<longleftrightarrow> s = protocol_as_str p"
  by (cases p) (auto simp: protocol_parse_def)

lemma protocol_path_bytes:
  assumes "protocol_path_spec path"
  shows "\<forall>c \<in> set path. is_ascii c \<and> \<not> is_ascii_control c"
proof -
  from assms obtain segs dir where "list_all protocol_segment segs"
    "path = join_with SLASH segs @ (if dir then ''/'' else [])" by (auto simp: protocol_path_spec_def)
  then show ?thesis
    using set_join_with[of SLASH segs]
    by (auto simp: list_all_iff protocol_segment_def is_ascii_def is_ascii_control_def split: if_splits)
qed

lemma repository_bytes: "repository_spec r \<Longrightarrow> list_all is_ascii r \<and> r \<noteq> [] \<and> length r \<le> MAX_REPOSITORY_BYTES"
proof -
  assume "repository_spec r"
  then have "validated_repository_parse r = Ok (ValidatedRepository r)"
    by (simp add: validated_repository_parse_eq)
  then show ?thesis by (auto simp: validated_repository_parse_def split: if_splits)
qed

lemma is_base64url_character_eq: "is_base64url_character = is_base64url_byte"
  by (rule ext) (auto simp: is_base64url_character_def is_base64url_byte_def is_ascii_alphanumeric_def)

lemma base64url_byte_plain:
  "is_base64url_byte c \<Longrightarrow> is_ascii c \<and> \<not> is_ascii_control c
     \<and> c \<notin> {CHR ''?'', CHR ''#'', CHR ''%'', BACKSLASH, SLASH}"
  by (auto simp: is_base64url_byte_def byte_defs)

lemma protocol_str_plain:
  "c \<in> set (protocol_as_str p) \<Longrightarrow> is_ascii c \<and> \<not> is_ascii_control c
     \<and> c \<notin> {CHR ''?'', CHR ''#'', CHR ''%'', BACKSLASH, SLASH}"
  by (cases p) (auto simp: is_ascii_def is_ascii_control_def)

context base64_codec
begin

text \<open>The bound on the locator is the bound on the repository: 340 = (4 * 255 + 2) div 3.\<close>

lemma decode_locator_iff:
  "decode_repository_locator encode decode l = Ok r \<longleftrightarrow>
     repository_spec (repo_str r) \<and> l = encode (repo_str r)"
proof
  assume "decode_repository_locator encode decode l = Ok r"
  then show "repository_spec (repo_str r) \<and> l = encode (repo_str r)"
    by (auto simp: decode_repository_locator_def validated_repository_parse_eq split: if_splits)
next
  assume r: "repository_spec (repo_str r) \<and> l = encode (repo_str r)"
  then have bytes: "list_all is_ascii (repo_str r)" "repo_str r \<noteq> []"
    "length (repo_str r) \<le> MAX_REPOSITORY_BYTES" using repository_bytes by auto
  have "length l \<le> MAX_LOCATOR_BYTES"
    using r bytes(3) length_encode[of "repo_str r"] by (simp add: MAX_LOCATOR_BYTES_def MAX_REPOSITORY_BYTES_def)
  then show "decode_repository_locator encode decode l = Ok r"
    using r bytes encode_alphabet[of "repo_str r"]
    by (simp add: decode_repository_locator_def is_base64url_character_eq decode_encode
        encode_Nil_iff ascii_is_utf8 validated_repository_parse_eq)
qed

lemma parse_raw_target_iff:
  "parse_raw_target encode decode m t enabled = Ok r \<longleftrightarrow>
     m \<in> {''GET'', ''HEAD''} \<and> route_wf enabled r \<and> t = route_render encode r"
proof
  assume ok: "parse_raw_target encode decode m t enabled = Ok r"
  then obtain route l rest p path repo prot cpath where
    m: "m = ''GET'' \<or> m = ''HEAD''" and
    clean: "\<not> contains_any t [CHR ''?'', CHR ''#'', CHR ''%'', BACKSLASH]" and
    t: "t = ROUTE_PREFIX @ route" "route = l @ SLASH # rest" "rest = p @ SLASH # path" and
    repo: "decode_repository_locator encode decode l = Ok repo" and
    prot: "protocol_parse p = Ok prot" "enabled_contains enabled prot" and
    cpath: "parse_protocol_path path = Ok cpath" and
    r: "r = \<lparr>vr_repository = repo, vr_protocol = prot, vr_protocol_path = cpath\<rparr>"
    by (auto simp: parse_raw_target_def split_once_Some_iff split: if_splits)
  from cpath have "protocol_path_spec path" "cpath = CanonicalProtocolPath path"
    by (auto simp: parse_protocol_path_eq split: if_splits)
  then show "m \<in> {''GET'', ''HEAD''} \<and> route_wf enabled r \<and> t = route_render encode r"
    using m clean t repo prot r
    by (auto simp: route_wf_def route_render_def enabled_set_def decode_locator_iff protocol_parse_iff
        contains_any_iff)
next
  assume r: "m \<in> {''GET'', ''HEAD''} \<and> route_wf enabled r \<and> t = route_render encode r"
  then have wf: "repository_spec (repo_str (vr_repository r))" "enabled_contains enabled (vr_protocol r)"
    "protocol_path_spec (cpp_str (vr_protocol_path r))"
    "\<not> contains_any (cpp_str (vr_protocol_path r)) [CHR ''?'', CHR ''#'', CHR ''%'', BACKSLASH]"
    by (auto simp: route_wf_def enabled_set_def)
  let ?l = "encode (repo_str (vr_repository r))" and ?p = "protocol_as_str (vr_protocol r)"
    and ?path = "cpp_str (vr_protocol_path r)"
  have t: "t = ROUTE_PREFIX @ (?l @ SLASH # (?p @ SLASH # ?path))"
    using r by (simp add: route_render_def)
  have plain: "is_ascii c \<and> \<not> is_ascii_control c \<and> c \<notin> {CHR ''?'', CHR ''#'', CHR ''%'', BACKSLASH}"
    if "c \<in> set t" for c
  proof -
    from that consider "c \<in> set ROUTE_PREFIX" | "c \<in> set ?l" | "c = SLASH" | "c \<in> set ?p" | "c \<in> set ?path"
      unfolding t by auto
    then show ?thesis
    proof cases
      case 1 then show ?thesis by (auto simp: ROUTE_PREFIX_def is_ascii_def is_ascii_control_def)
    next
      case 2 then show ?thesis
        using encode_alphabet[of "repo_str (vr_repository r)"] base64url_byte_plain[of c]
        by (auto simp: list_all_iff)
    next
      case 3 then show ?thesis by (simp add: is_ascii_def is_ascii_control_def)
    next
      case 4 then show ?thesis using protocol_str_plain by blast
    next
      case 5 then show ?thesis
        using protocol_path_bytes[OF wf(3)] wf(4) by (auto simp: contains_any_iff)
    qed
  qed
  have checks: "list_all is_ascii t" "\<not> list_ex is_ascii_control t"
    "\<not> contains_any t [CHR ''?'', CHR ''#'', CHR ''%'', BACKSLASH]"
    using plain by (auto simp: list_all_iff list_ex_iff contains_any_iff)
  have slash: "t \<noteq> []" "prefix ''/'' t" unfolding t ROUTE_PREFIX_def by simp_all
  have once: "split_once SLASH (?l @ SLASH # (?p @ SLASH # ?path)) = Some (?l, ?p @ SLASH # ?path)"
    "split_once SLASH (?p @ SLASH # ?path) = Some (?p, ?path)"
    using encode_no_slash protocol_str_plain by (auto simp: split_once_Some_iff)
  have "?l \<noteq> []" using repository_bytes[OF wf(1)] by (simp add: encode_Nil_iff)
  moreover have "parse_protocol_path ?path = Ok (vr_protocol_path r)"
    using wf(3) by (simp add: parse_protocol_path_eq)
  moreover have "decode_repository_locator encode decode ?l = Ok (vr_repository r)"
    using wf(1) by (simp add: decode_locator_iff)
  moreover have "protocol_parse ?p = Ok (vr_protocol r)" by (simp add: protocol_parse_iff)
  moreover have "strip_prefix ROUTE_PREFIX t = Some (?l @ SLASH # (?p @ SLASH # ?path))"
    using t by simp
  ultimately show "parse_raw_target encode decode m t enabled = Ok r"
    using r checks slash once wf(2) unfolding parse_raw_target_def by auto
qed

end

sublocale base64_codec < get_route: canonical_grammar
  "\<lambda>t. parse_raw_target encode decode ''GET'' t enabled" "route_wf enabled"
  "\<lambda>r t. t = route_render encode r" "route_render encode" for enabled
  by unfold_locales (simp_all add: parse_raw_target_iff)

subsection \<open>Properties\<close>

text \<open>C38. Routes have one spelling: a request target is accepted exactly when it is the rendering
  of a well-formed route with an enabled protocol, and the parser returns that route. So parsing
  inverts rendering, and no alias of a repository (padding, unused low bits, percent escapes, dot
  segments) is a second name for it.\<close>

theorem parse_raw_target_canonical:
  assumes "base64_codec enc dec"
  shows "parse_raw_target enc dec method target enabled = Ok route \<longleftrightarrow>
    method \<in> {''GET'', ''HEAD''} \<and> route_wf enabled route \<and> target = route_render enc route"
  by (rule base64_codec.parse_raw_target_iff[OF assms])

theorem parse_raw_target_canonical_witness:
  "parse_raw_target b64_encode b64_decode ''GET'' ''/r/v1/YWNtZS9ycG1z/rpm/repodata/repomd.xml'' enabled_all
     = Ok \<lparr>vr_repository = ValidatedRepository ''acme/rpms'', vr_protocol = Rpm,
         vr_protocol_path = CanonicalProtocolPath ''repodata/repomd.xml''\<rparr>
   \<and> route_wf enabled_all \<lparr>vr_repository = ValidatedRepository ''acme/rpms'', vr_protocol = Rpm,
         vr_protocol_path = CanonicalProtocolPath ''repodata/repomd.xml''\<rparr>"
proof -
  let ?r = "\<lparr>vr_repository = ValidatedRepository ''acme/rpms'', vr_protocol = Rpm,
    vr_protocol_path = CanonicalProtocolPath ''repodata/repomd.xml''\<rparr>"
  have "validated_repository_parse ''acme/rpms'' = Ok (ValidatedRepository ''acme/rpms'')"
    by code_simp
  moreover have "parse_protocol_path ''repodata/repomd.xml''
      = Ok (CanonicalProtocolPath ''repodata/repomd.xml'')" by code_simp
  moreover have "\<not> contains_any ''repodata/repomd.xml'' [CHR ''?'', CHR ''#'', CHR ''%'', BACKSLASH]"
    by code_simp
  ultimately have wf: "route_wf enabled_all ?r"
    by (simp add: route_wf_def enabled_set_all validated_repository_parse_eq parse_protocol_path_eq
        split: if_splits)
  have target: "''/r/v1/YWNtZS9ycG1z/rpm/repodata/repomd.xml'' = route_render b64_encode ?r"
    by (simp add: route_render_def ROUTE_PREFIX_def b64_char_def b64_alphabet_def)
  from wf target show ?thesis
    using parse_raw_target_canonical[OF rfc4648.base64_codec_axioms,
        of "''GET''" "''/r/v1/YWNtZS9ycG1z/rpm/repodata/repomd.xml''" enabled_all ?r] by blast
qed

text \<open>A repository name is admitted exactly when it has 1 to 32 slash-separated segments and at
  most 255 bytes, each segment made of runs of lowercase letters and digits joined by single
  dots, underscores or dashes. The byte loop with its flag decides this grammar.\<close>

lemma validated_repository_grammar:
  "validated_repository_parse r =
     (if repository_spec r then Ok (ValidatedRepository r) else Err InvalidRepository)"
  by (rule validated_repository_parse_eq)

text \<open>C39. The 8-bit set of enabled protocols implements a set: \<open>none\<close> is empty, \<open>all\<close> is full,
  \<open>with\<close> inserts, and \<open>contains\<close> is membership. No two protocols share a bit.\<close>

theorem enabled_protocols_refine_sets:
  "enabled_set enabled_none = {} \<and> enabled_set enabled_all = UNIV
    \<and> enabled_set (enabled_with e p) = insert p (enabled_set e)
    \<and> (enabled_contains e p \<longleftrightarrow> p \<in> enabled_set e)"
  by (simp add: enabled_set_none enabled_set_all enabled_set_with) (simp add: enabled_set_def)

end
