(* ===== verification/Json.thy ===== *)
theory Json
  imports Ordered_Map "HOL-Library.Multiset"
begin

text \<open>
  JSON values as \<open>serde\<close> presents them to the implementations it derives, and the pieces of those
  implementations. The attributes of the crate's types (names, defaults, \<open>flatten\<close>,
  \<open>deny_unknown_fields\<close>) choose among these pieces. The text of a value is read and written by
  \<open>serde_json\<close>, which is a parameter where a value is needed.
\<close>

subsection \<open>Values\<close>

text \<open>A number is kept as \<open>serde_json\<close> classifies it. \<open>JSkip\<close> is a text that can be skipped but not read,
  like a string with an unpaired surrogate.\<close>

datatype json_number = PosInt nat | NegInt int | Float string

datatype json =
    JNull | JBool bool | JNum json_number | JStr string | JArr "json list" | JObj "(string \<times> json) list" | JSkip

type_synonym json_members = "(string \<times> json) list"

lemma size_member: "m \<in> set ms \<Longrightarrow> size (snd m) < Suc (size_list (size_prod (\<lambda>_. 0) size) ms)"
  by (induction ms) auto

function readable :: "json \<Rightarrow> bool" where
  "readable JNull = True"
| "readable (JBool b) = True"
| "readable (JNum n) = True"
| "readable (JStr s) = True"
| "readable (JArr vs) = (\<forall>v \<in> set vs. readable v)"
| "readable (JObj ms) = (\<forall>v \<in> set (map snd ms). readable v)"
| "readable JSkip = False"
  by pat_completeness auto

termination
  by (relation "measure size") (use size_member in \<open>fastforce intro: le_imp_less_Suc size_list_estimation'\<close>)+

subsection \<open>Reading\<close>

fun as_string :: "json \<Rightarrow> string option" where
  "as_string (JStr s) = Some s"
| "as_string _ = None"

fun as_u64 :: "json \<Rightarrow> nat option" where
  "as_u64 (JNum (PosInt n)) = (if n < U64_LIMIT then Some n else None)"
| "as_u64 _ = None"

definition as_u8 :: "json \<Rightarrow> nat option" where
  "as_u8 v = Option.bind (as_u64 v) (\<lambda>n. if n < 256 then Some n else None)"

fun as_option :: "(json \<Rightarrow> 'a option) \<Rightarrow> json \<Rightarrow> 'a option option" where
  "as_option f JNull = Some None"
| "as_option f v = map_option Some (f v)"

fun as_list :: "(json \<Rightarrow> 'a option) \<Rightarrow> json \<Rightarrow> 'a list option" where
  "as_list f (JArr vs) = those (map f vs)"
| "as_list f _ = None"

text \<open>A map keeps the last of the members of one name.\<close>

definition collect_members :: "(string \<times> 'a) list \<Rightarrow> (string, 'a) btree" where
  "collect_members ms = foldl (\<lambda>m (name, v). bt_insert name v m) [] ms"

fun as_string_map :: "json \<Rightarrow> (string, string) btree option" where
  "as_string_map (JObj ms) = map_option collect_members (those (map (\<lambda>(name, v). map_option (Pair name) (as_string v)) ms))"
| "as_string_map _ = None"

text \<open>A field of a structure occurs once, or not at all when it has a default.\<close>

definition members_of :: "string \<Rightarrow> json_members \<Rightarrow> json list" where
  "members_of name ms = map snd (filter (\<lambda>m. fst m = name) ms)"

definition required :: "(json \<Rightarrow> 'a option) \<Rightarrow> string \<Rightarrow> json_members \<Rightarrow> 'a option" where
  "required f name ms = (case members_of name ms of [v] \<Rightarrow> f v | _ \<Rightarrow> None)"

definition defaulted :: "'a \<Rightarrow> (json \<Rightarrow> 'a option) \<Rightarrow> string \<Rightarrow> json_members \<Rightarrow> 'a option" where
  "defaulted d f name ms = (case members_of name ms of [] \<Rightarrow> Some d | [v] \<Rightarrow> f v | _ \<Rightarrow> None)"

definition unknown_members :: "string list \<Rightarrow> json_members \<Rightarrow> json_members" where
  "unknown_members names ms = filter (\<lambda>m. fst m \<notin> set names) ms"

text \<open>An optional field of a structure that is written as a sequence.\<close>

definition element :: "'a \<Rightarrow> (json \<Rightarrow> 'a option) \<Rightarrow> json list \<Rightarrow> nat \<Rightarrow> 'a option" where
  "element d f vs i = (if i < length vs then f (vs ! i) else Some d)"

text \<open>\<open>flatten\<close> into a map of values; \<open>deny_unknown_fields\<close>.\<close>

definition flattened :: "string list \<Rightarrow> json_members \<Rightarrow> (string, json) btree option" where
  "flattened names ms =
     (let others = unknown_members names ms in
      if list_all (\<lambda>m. readable (snd m)) others then Some (collect_members others) else None)"

definition denied :: "string list \<Rightarrow> json_members \<Rightarrow> bool" where
  "denied names ms \<longleftrightarrow> unknown_members names ms \<noteq> []"

subsection \<open>Writing\<close>

definition string_map_value :: "(string, string) btree \<Rightarrow> json" where
  "string_map_value m = JObj (map (\<lambda>(name, v). (name, JStr v)) m)"

lemma those_map_Some [simp]: "those (map (\<lambda>x. Some (f x)) xs) = Some (map f xs)"
  by (induction xs) auto

lemma those_map_eq: "(\<And>x. x \<in> set xs \<Longrightarrow> f x = Some (g x)) \<Longrightarrow> those (map f xs) = Some (map g xs)"
  by (induction xs) auto

text \<open>The members of a sorted map are read back as the map.\<close>

lemma bt_insert_last: "\<forall>l \<in> fst ` set m. l < k \<Longrightarrow> bt_insert k v m = m @ [(k, v)]"
  by (induction m) (auto simp: less_le_not_le)

lemma collect_members_sorted: "bt_wf m \<Longrightarrow> collect_members m = m"
proof (induction m rule: rev_induct)
  case (snoc x m)
  then have "bt_wf m" "\<forall>l \<in> fst ` set m. l < fst x" by (auto simp: bt_wf_def sorted_wrt_append)
  with snoc.IH bt_insert_last[of m "fst x" "snd x"] show ?case by (simp add: collect_members_def case_prod_beta)
qed (simp add: collect_members_def)

lemma as_string_map_value: "bt_wf m \<Longrightarrow> as_string_map (string_map_value m) = Some m"
  by (simp add: string_map_value_def o_def case_prod_beta collect_members_sorted)

lemma members_of_simps [simp]:
  "members_of name [] = []"
  "members_of name ((k, v) # ms) = (if k = name then v # members_of name ms else members_of name ms)"
  "members_of name (ms @ ns) = members_of name ms @ members_of name ns"
  by (simp_all add: members_of_def)

lemma unknown_members_simps [simp]:
  "unknown_members names [] = []"
  "unknown_members names ((k, v) # ms) = (if k \<in> set names then unknown_members names ms else (k, v) # unknown_members names ms)"
  "unknown_members names (ms @ ns) = unknown_members names ms @ unknown_members names ns"
  by (simp_all add: unknown_members_def)

lemma flattened_known [simp]: "unknown_members names ms = [] \<Longrightarrow> flattened names ms = Some []"
  by (simp add: flattened_def collect_members_def)

text \<open>The order of differently named members does not matter.\<close>

lemma mset_short: "mset xs = mset ys \<Longrightarrow> length ys \<le> 1 \<Longrightarrow> xs = ys"
  using mset_eq_length[of xs ys] by (cases ys; cases xs) auto

lemma members_of_permuted:
  assumes "distinct (map fst ms)" "mset ms' = mset ms"
  shows "members_of name ms' = members_of name ms"
proof -
  let ?f = "filter (\<lambda>m. fst m = name)"
  have "length (?f ms) \<le> 1"
    using assms(1) by (induction ms) (force simp: filter_empty_conv)+
  moreover have "mset (?f ms') = mset (?f ms)" using assms(2) by (metis mset_filter)
  ultimately show ?thesis unfolding members_of_def by (metis mset_short)
qed

end
