(* ===== verification/Oci.thy ===== *)
theory Oci
  imports Autoindex_Listing Gateway Http Routing Json "HOL-Library.Product_Lexorder"
begin

text \<open>
  \<open>src/oci.rs\<close>: descriptors, manifests and their projection into an index, the classification of
  upstream responses, the verification of a blob stream and the rewriting of upload locations.

  The JSON decoders (\<open>de\<close>, from a text), the SHA-256 function (as lowercase hex) and the URI parser
  are arguments (\<open>sha\<close>, \<open>uri_of\<close>).
\<close>

subsection \<open>Constants and data\<close>

definition VISIBILITY_ANNOTATION :: string where
  "VISIBILITY_ANNOTATION = ''io.github.djha-skin.github-oras-packages.autoindex.visible''"
definition TITLE_ANNOTATION :: string where
  "TITLE_ANNOTATION = ''org.opencontainers.image.title''"
definition PUBLISHER_ANNOTATION :: string where
  "PUBLISHER_ANNOTATION = ''io.github.djha-skin.github-oras-packages.autoindex.publisher''"
definition PUBLISHER_VERSION :: string where "PUBLISHER_VERSION = ''v1''"

definition LAYOUT_REFERENCE :: string where "LAYOUT_REFERENCE = ''oras-packages.v1''"
definition AUTO_INDEX_REFERENCE :: string where "AUTO_INDEX_REFERENCE = ''autoindex.v1''"
definition MANIFEST_MEDIA_TYPE :: string where
  "MANIFEST_MEDIA_TYPE = ''application/vnd.oci.image.manifest.v1+json''"
definition EMPTY_CONFIG_MEDIA_TYPE :: string where
  "EMPTY_CONFIG_MEDIA_TYPE = ''application/vnd.oci.empty.v1+json''"
definition EMPTY_CONFIG_DIGEST :: string where
  "EMPTY_CONFIG_DIGEST = ''sha256:44136fa355b3678a1146ad16f7e8649e94fb4fc21fe77e8310c060f61caaff8a''"
definition CONFIG_MEDIA_TYPE :: string where
  "CONFIG_MEDIA_TYPE = ''application/vnd.github.oras-packages.layout.v1+json''"
definition ROUTE_MAP_MEDIA_TYPE :: string where
  "ROUTE_MAP_MEDIA_TYPE = ''application/vnd.github.oras-packages.route-map.v1+json''"
definition MAX_METADATA_BYTES :: nat where "MAX_METADATA_BYTES = 4 * 1024 * 1024"
definition MAX_ARTIFACT_BYTES :: nat where "MAX_ARTIFACT_BYTES = 64 * 1024 * 1024"

datatype oci_error =
    Configuration | OciTimeout | Transport | OciNotFound
  | OciUnauthorized "string list"
  | OciForbidden
  | OciRateLimited "string option"
  | OciServer bool "string option"
  | OciUpstream | InvalidLayout | InvalidDescriptor

record descriptor =
  d_media_type :: string
  d_digest :: string
  d_size :: nat
  d_annotations :: "(string, string) btree"
  d_extra :: "(string, json) btree"

definition descriptor_new :: "string \<Rightarrow> string \<Rightarrow> nat \<Rightarrow> descriptor" where
  "descriptor_new media_type digest sz =
     \<lparr>d_media_type = media_type, d_digest = digest, d_size = sz, d_annotations = [], d_extra = []\<rparr>"

definition descriptor_title :: "descriptor \<Rightarrow> string option" where
  "descriptor_title d = bt_get (d_annotations d) TITLE_ANNOTATION"

definition is_autoindex_visible :: "descriptor \<Rightarrow> bool" where
  "is_autoindex_visible d \<longleftrightarrow> bt_get (d_annotations d) VISIBILITY_ANNOTATION = Some ''true''"

record manifest =
  m_schema_version :: nat
  m_media_type :: string
  m_annotations :: "(string, string) btree"
  m_config :: descriptor
  m_layers :: "descriptor list"
  m_extra :: "(string, json) btree"

record autoindex_snapshot =
  as_index :: index
  as_crud_compatible :: bool

record layout_config =
  lc_kind :: string
  lc_version :: nat

record route_entry =
  re_protocol :: string
  re_path :: string
  re_descriptor :: descriptor

record route_map =
  rm_version :: nat
  rm_routes :: "route_entry list"

record snapshot =
  sn_routes :: "(string \<times> string, descriptor) btree"

subsection \<open>The documents as JSON\<close>

text \<open>The derived \<open>Deserialize\<close> implementations. A structure with a flattened field is read from an
  object, any other one also from a sequence of its fields.\<close>

definition DESCRIPTOR_FIELDS :: "string list" where
  "DESCRIPTOR_FIELDS = [''mediaType'', ''digest'', ''size'', ''annotations'']"

fun descriptor_of_json :: "json \<Rightarrow> descriptor option" where
  "descriptor_of_json (JObj ms) =
     Option.bind (required as_string ''mediaType'' ms) (\<lambda>media_type.
     Option.bind (required as_string ''digest'' ms) (\<lambda>digest.
     Option.bind (required as_u64 ''size'' ms) (\<lambda>sz.
     Option.bind (defaulted [] as_string_map ''annotations'' ms) (\<lambda>annotations.
     map_option (\<lambda>extra. \<lparr>d_media_type = media_type, d_digest = digest, d_size = sz,
         d_annotations = annotations, d_extra = extra\<rparr>)
       (flattened DESCRIPTOR_FIELDS ms)))))"
| "descriptor_of_json _ = None"

definition MANIFEST_FIELDS :: "string list" where
  "MANIFEST_FIELDS = [''schemaVersion'', ''mediaType'', ''annotations'', ''config'', ''layers'']"

fun manifest_of_json :: "json \<Rightarrow> manifest option" where
  "manifest_of_json (JObj ms) =
     Option.bind (required as_u8 ''schemaVersion'' ms) (\<lambda>schema_version.
     Option.bind (required as_string ''mediaType'' ms) (\<lambda>media_type.
     Option.bind (defaulted [] as_string_map ''annotations'' ms) (\<lambda>annotations.
     Option.bind (required descriptor_of_json ''config'' ms) (\<lambda>config.
     Option.bind (required (as_list descriptor_of_json) ''layers'' ms) (\<lambda>layers.
     map_option (\<lambda>extra. \<lparr>m_schema_version = schema_version, m_media_type = media_type, m_annotations = annotations,
         m_config = config, m_layers = layers, m_extra = extra\<rparr>)
       (flattened MANIFEST_FIELDS ms))))))"
| "manifest_of_json _ = None"

definition layout_config_new :: "string option \<Rightarrow> nat option \<Rightarrow> layout_config option" where
  "layout_config_new kind version =
     Option.bind kind (\<lambda>kind. map_option (\<lambda>version. \<lparr>lc_kind = kind, lc_version = version\<rparr>) version)"

fun layout_config_of_json :: "json \<Rightarrow> layout_config option" where
  "layout_config_of_json (JObj ms) =
     (if denied [''kind'', ''version''] ms then None
      else layout_config_new (required as_string ''kind'' ms) (required as_u8 ''version'' ms))"
| "layout_config_of_json (JArr [kind, version]) = layout_config_new (as_string kind) (as_u8 version)"
| "layout_config_of_json _ = None"

definition route_entry_new :: "string option \<Rightarrow> string option \<Rightarrow> descriptor option \<Rightarrow> route_entry option" where
  "route_entry_new protocol path d =
     Option.bind protocol (\<lambda>protocol. Option.bind path (\<lambda>path.
       map_option (\<lambda>d. \<lparr>re_protocol = protocol, re_path = path, re_descriptor = d\<rparr>) d))"

fun route_entry_of_json :: "json \<Rightarrow> route_entry option" where
  "route_entry_of_json (JObj ms) =
     (if denied [''protocol'', ''path'', ''descriptor''] ms then None
      else route_entry_new (required as_string ''protocol'' ms) (required as_string ''path'' ms)
        (required descriptor_of_json ''descriptor'' ms))"
| "route_entry_of_json (JArr [protocol, path, d]) =
     route_entry_new (as_string protocol) (as_string path) (descriptor_of_json d)"
| "route_entry_of_json _ = None"

definition route_map_new :: "nat option \<Rightarrow> route_entry list option \<Rightarrow> route_map option" where
  "route_map_new version routes =
     Option.bind version (\<lambda>version. map_option (\<lambda>routes. \<lparr>rm_version = version, rm_routes = routes\<rparr>) routes)"

fun route_map_of_json :: "json \<Rightarrow> route_map option" where
  "route_map_of_json (JObj ms) =
     (if denied [''version'', ''routes''] ms then None
      else route_map_new (required as_u8 ''version'' ms) (required (as_list route_entry_of_json) ''routes'' ms))"
| "route_map_of_json (JArr [version, routes]) = route_map_new (as_u8 version) (as_list route_entry_of_json routes)"
| "route_map_of_json _ = None"

text \<open>\<open>serde_json::from_slice\<close>: \<open>parse\<close> reads the text as a value.\<close>

definition from_slice :: "(string \<Rightarrow> json option) \<Rightarrow> (json \<Rightarrow> 'a option) \<Rightarrow> string \<Rightarrow> 'a option" where
  "from_slice parse of_json bytes = Option.bind (parse bytes) of_json"

subsection \<open>Validation\<close>

definition oci_valid_digest :: "string \<Rightarrow> oci_error + string" where
  "oci_valid_digest value =
     (case strip_prefix ''sha256:'' value of
        None \<Rightarrow> Err InvalidDescriptor
      | Some hex \<Rightarrow>
          if length hex \<noteq> 64 \<or> \<not> list_all is_ascii_hexdigit hex \<or> list_ex is_ascii_uppercase hex
          then Err InvalidDescriptor else Ok value)"

text \<open>\<open>str::trim\<close> on ASCII text.\<close>

definition is_whitespace :: "char \<Rightarrow> bool" where
  "is_whitespace c \<longleftrightarrow> (9 \<le> byte_val c \<and> byte_val c \<le> (13::nat)) \<or> c = CHR '' ''"

definition trim_str :: "string \<Rightarrow> string" where
  "trim_str s = rev (dropWhile is_whitespace (rev (dropWhile is_whitespace s)))"

definition validate_descriptor :: "descriptor \<Rightarrow> oci_error + unit" where
  "validate_descriptor d =
     and_then (oci_valid_digest (d_digest d)) (\<lambda>_.
       if d_size d > MAX_ARTIFACT_BYTES then Err InvalidDescriptor
       else
         let media_type = d_media_type d in
         if media_type = [] \<or> length media_type > 256 \<or> \<not> list_all is_ascii media_type
            \<or> trim_str media_type \<noteq> media_type
            \<or> list_ex (\<lambda>byte. byte_val byte < (32::nat) \<or> byte_val byte = (127::nat)) media_type
         then Err InvalidDescriptor else Ok ())"

definition verify_descriptor :: "(string \<Rightarrow> string) \<Rightarrow> descriptor \<Rightarrow> string \<Rightarrow> oci_error + unit" where
  "verify_descriptor sha d bytes =
     (if d_size d \<noteq> length bytes then Err InvalidDescriptor
      else and_then (oci_valid_digest (d_digest d)) (\<lambda>digest.
        if ''sha256:'' @ sha bytes \<noteq> digest then Err InvalidDescriptor else Ok ()))"

definition validate_manifest :: "manifest \<Rightarrow> oci_error + unit" where
  "validate_manifest m =
     (if m_schema_version m \<noteq> 2 \<or> m_media_type m \<noteq> MANIFEST_MEDIA_TYPE \<or> length (m_layers m) \<noteq> 1
         \<or> d_media_type (m_config m) \<noteq> CONFIG_MEDIA_TYPE
         \<or> d_media_type (m_layers m ! 0) \<noteq> ROUTE_MAP_MEDIA_TYPE
         \<or> d_digest (m_config m) = d_digest (m_layers m ! 0)
      then Err InvalidLayout
      else and_then (validate_descriptor (m_config m)) (\<lambda>_. validate_descriptor (m_layers m ! 0)))"

definition validate_standard_manifest :: "manifest \<Rightarrow> oci_error + unit" where
  "validate_standard_manifest m =
     (if m_schema_version m \<noteq> 2 \<or> m_media_type m \<noteq> MANIFEST_MEDIA_TYPE then Err InvalidLayout
      else validate_descriptor (m_config m))"

definition validate_config :: "(string \<Rightarrow> layout_config option) \<Rightarrow> string \<Rightarrow> oci_error + unit" where
  "validate_config de bytes =
     and_then (ok_or InvalidLayout (de bytes)) (\<lambda>config.
       if lc_kind config = ''github-oras-packages-layout'' \<and> lc_version config = 1 then Ok ()
       else Err InvalidLayout)"

subsection \<open>The projection of a manifest\<close>

text \<open>\<open>media_type_for\<close> of \<open>src/publisher.rs\<close>.\<close>

definition media_type_for :: "string \<Rightarrow> string" where
  "media_type_for title =
     (let lower = map to_ascii_lowercase title in
      if ends_with lower ''.html'' \<or> ends_with lower ''.htm'' then ''text/html''
      else if ends_with lower ''.json'' then ''application/json''
      else if ends_with lower ''.xml'' then ''application/xml''
      else if ends_with lower ''.txt'' \<or> ends_with lower ''.list'' then ''text/plain; charset=utf-8''
      else if ends_with lower ''.rpm'' then ''application/vnd.rpm''
      else if ends_with lower ''.deb'' then ''application/vnd.debian.binary-package''
      else if ends_with lower ''.zst'' then ''application/zstd''
      else if ends_with lower ''.gz'' then ''application/gzip''
      else ''application/octet-stream'')"

definition is_native_publisher_layer :: "descriptor \<Rightarrow> bool" where
  "is_native_publisher_layer d \<longleftrightarrow> is_autoindex_visible d \<and> d_extra d = []
     \<and> length (d_annotations d) = 2
     \<and> (case descriptor_title d of Some title \<Rightarrow> d_media_type d = media_type_for title | None \<Rightarrow> False)"

definition windows2 :: "'a list \<Rightarrow> ('a \<times> 'a) list" where
  "windows2 xs = zip xs (tl xs)"

definition crud_compatible :: "manifest \<Rightarrow> bool" where
  "crud_compatible m \<longleftrightarrow> length (m_annotations m) = 1
     \<and> bt_get (m_annotations m) PUBLISHER_ANNOTATION = Some PUBLISHER_VERSION
     \<and> m_extra m = [] \<and> m_layers m \<noteq> [] \<and> list_all is_native_publisher_layer (m_layers m)
     \<and> list_all (\<lambda>(a, b). case (descriptor_title a, descriptor_title b) of
           (Some left, Some right) \<Rightarrow> left < right | _ \<Rightarrow> False) (windows2 (m_layers m))
     \<and> d_extra (m_config m) = [] \<and> d_annotations (m_config m) = []
     \<and> d_media_type (m_config m) = EMPTY_CONFIG_MEDIA_TYPE
     \<and> d_digest (m_config m) = EMPTY_CONFIG_DIGEST \<and> d_size (m_config m) = 2"

text \<open>The loop over the layers with its \<open>index\<close>.\<close>

fun project_layers :: "index \<Rightarrow> descriptor list \<Rightarrow> oci_error + index" where
  "project_layers idx [] = Ok idx"
| "project_layers idx (d # ds) =
     (if \<not> is_autoindex_visible d then project_layers idx ds
      else
        and_then (ok_or InvalidLayout (descriptor_title d)) (\<lambda>title.
        and_then (validate_descriptor d) (\<lambda>_.
        and_then (map_err (\<lambda>_. InvalidLayout)
          (visible_object_new title (d_digest d) (d_media_type d) (d_size d))) (\<lambda>object.
        and_then (map_err (\<lambda>_. InvalidLayout) (index_insert idx object)) (\<lambda>idx.
        project_layers idx ds)))))"

definition parse_autoindex_manifest ::
    "(string \<Rightarrow> manifest option) \<Rightarrow> string \<Rightarrow> oci_error + autoindex_snapshot" where
  "parse_autoindex_manifest de bytes =
     and_then (ok_or InvalidLayout (de bytes)) (\<lambda>m.
     and_then (validate_standard_manifest m) (\<lambda>_.
     and_then (project_layers index_default (m_layers m)) (\<lambda>idx.
     Ok \<lparr>as_index = idx, as_crud_compatible = crud_compatible m\<rparr>)))"

subsection \<open>The legacy route map\<close>

definition route_entry_rejected :: "route_entry \<Rightarrow> bool" where
  "route_entry_rejected e \<longleftrightarrow>
     (let path = re_path e in
      re_protocol e \<notin> {''pypi'', ''rpm'', ''apt'', ''pacman''}
      \<or> path = [] \<or> starts_with path ''/'' \<or> sublist ''//'' path
      \<or> contains_any path [BACKSLASH, CHR ''%'', CHR ''?'', CHR ''#'']
      \<or> \<not> list_all is_ascii path \<or> list_ex is_ascii_control path
      \<or> list_ex (\<lambda>segment. segment = ''.'' \<or> segment = ''..'')
           (filter (\<lambda>segment. segment \<noteq> []) (split_on SLASH path))
      \<or> (list_ex (\<lambda>segment. segment = []) (split_on SLASH path) \<and> \<not> ends_with path ''/''))"

fun route_map_loop ::
    "(string \<times> string, descriptor) btree \<Rightarrow> route_entry list
     \<Rightarrow> oci_error + (string \<times> string, descriptor) btree" where
  "route_map_loop routes [] = Ok routes"
| "route_map_loop routes (e # es) =
     (if route_entry_rejected e then Err InvalidLayout
      else and_then (validate_descriptor (re_descriptor e)) (\<lambda>_.
        if bt_contains_key routes (re_protocol e, re_path e) then Err InvalidLayout
        else route_map_loop (bt_insert (re_protocol e, re_path e) (re_descriptor e) routes) es))"

definition parse_route_map :: "(string \<Rightarrow> route_map option) \<Rightarrow> string \<Rightarrow> oci_error + snapshot" where
  "parse_route_map de bytes =
     and_then (ok_or InvalidLayout (de bytes)) (\<lambda>m.
       if rm_version m \<noteq> 1 \<or> rm_routes m = [] then Err InvalidLayout
       else and_then (route_map_loop [] (rm_routes m)) (\<lambda>routes. Ok \<lparr>sn_routes = routes\<rparr>))"

definition snapshot_descriptor :: "snapshot \<Rightarrow> string \<Rightarrow> string \<Rightarrow> descriptor option" where
  "snapshot_descriptor s protocol path = bt_get (sn_routes s) (protocol, path)"

subsection \<open>What a projection shows\<close>

definition visible_layers :: "manifest \<Rightarrow> descriptor list" where
  "visible_layers m = filter is_autoindex_visible (m_layers m)"

definition layer_ok :: "descriptor \<Rightarrow> bool" where
  "layer_ok d \<longleftrightarrow> validate_descriptor d = Ok ()
     \<and> (\<exists>segs. descriptor_title d = Some (path_string segs False) \<and> path_spec segs False)"

definition layer_object :: "descriptor \<Rightarrow> visible_object" where
  "layer_object d = \<lparr>vo_path = RelativePath (the (descriptor_title d)), vo_digest = d_digest d,
     vo_media_type = d_media_type d, vo_size = d_size d\<rparr>"

definition manifest_ok :: "manifest \<Rightarrow> bool" where
  "manifest_ok m \<longleftrightarrow> validate_standard_manifest m = Ok ()
     \<and> list_all layer_ok (visible_layers m)
     \<and> mutually_separate (map layer_object (visible_layers m))"

lemma file_title_iff:
  "relative_path_parse t = Ok (RelativePath t) \<and> \<not> is_directory (RelativePath t)
     \<longleftrightarrow> (\<exists>segs. t = path_string segs False \<and> path_spec segs False)"
proof
  assume "relative_path_parse t = Ok (RelativePath t) \<and> \<not> is_directory (RelativePath t)"
  then show "\<exists>segs. t = path_string segs False \<and> path_spec segs False"
    using relative_path_parse_sound[of t "RelativePath t"] by auto
next
  assume "\<exists>segs. t = path_string segs False \<and> path_spec segs False"
  then obtain segs where t: "t = path_string segs False" "path_spec segs False" by blast
  then have "\<not> is_directory (RelativePath t)"
    using suffix_path_string[of segs False] by (simp add: is_directory_def path_spec_def)
  with t relative_path_parse_complete[OF t(2)] show
    "relative_path_parse t = Ok (RelativePath t) \<and> \<not> is_directory (RelativePath t)" by simp
qed

lemma layer_new_iff:
  "(\<exists>t obj. descriptor_title d = Some t \<and> validate_descriptor d = Ok ()
      \<and> visible_object_new t (d_digest d) (d_media_type d) (d_size d) = Ok obj \<and> P obj)
   \<longleftrightarrow> layer_ok d \<and> P (layer_object d)"
proof
  assume "\<exists>t obj. descriptor_title d = Some t \<and> validate_descriptor d = Ok ()
      \<and> visible_object_new t (d_digest d) (d_media_type d) (d_size d) = Ok obj \<and> P obj"
  then obtain t obj where t: "descriptor_title d = Some t" "validate_descriptor d = Ok ()"
    "visible_object_new t (d_digest d) (d_media_type d) (d_size d) = Ok obj" "P obj" by blast
  then have "relative_path_parse t = Ok (RelativePath t) \<and> \<not> is_directory (RelativePath t)"
    "obj = layer_object d" by (simp_all add: visible_object_new_Ok layer_object_def)
  with t file_title_iff[of t] show "layer_ok d \<and> P (layer_object d)" by (auto simp: layer_ok_def)
next
  assume r: "layer_ok d \<and> P (layer_object d)"
  then obtain t where t: "descriptor_title d = Some t" "validate_descriptor d = Ok ()"
    "relative_path_parse t = Ok (RelativePath t) \<and> \<not> is_directory (RelativePath t)"
    unfolding layer_ok_def using file_title_iff by blast
  then have "visible_object_new t (d_digest d) (d_media_type d) (d_size d) = Ok (layer_object d)"
    by (simp add: visible_object_new_Ok layer_object_def)
  with r t show "\<exists>t obj. descriptor_title d = Some t \<and> validate_descriptor d = Ok ()
      \<and> visible_object_new t (d_digest d) (d_media_type d) (d_size d) = Ok obj \<and> P obj" by blast
qed

lemma project_layers_Ok:
  "project_layers idx ds = Ok idx' \<longleftrightarrow> list_all layer_ok (filter is_autoindex_visible ds)
     \<and> insert_all idx (map layer_object (filter is_autoindex_visible ds)) = Ok idx'"
proof (induction ds arbitrary: idx)
  case (Cons d ds)
  show ?case
  proof (cases "is_autoindex_visible d")
    case True
    let ?rest = "list_all layer_ok (filter is_autoindex_visible ds)"
    let ?objs = "map layer_object (filter is_autoindex_visible ds)"
    have "project_layers idx (d # ds) = Ok idx' \<longleftrightarrow>
        (\<exists>t obj. descriptor_title d = Some t \<and> validate_descriptor d = Ok ()
          \<and> visible_object_new t (d_digest d) (d_media_type d) (d_size d) = Ok obj
          \<and> (\<exists>i. index_insert idx obj = Ok i \<and> project_layers i ds = Ok idx'))"
      using True by auto
    also have "\<dots> \<longleftrightarrow> layer_ok d \<and> (\<exists>i. index_insert idx (layer_object d) = Ok i
        \<and> ?rest \<and> insert_all i ?objs = Ok idx')"
      unfolding layer_new_iff Cons.IH ..
    finally show ?thesis using True by auto
  next
    case False
    with Cons show ?thesis by simp
  qed
qed simp

lemma layer_object_file: "layer_ok d \<Longrightarrow> file_path (vo_path (layer_object d))"
  using file_title_iff by (auto simp: layer_ok_def file_path_def layer_object_def)

lemma parse_autoindex_manifest_Ok:
  assumes "de bytes = Some m"
  shows "is_ok (parse_autoindex_manifest de bytes) \<longleftrightarrow> manifest_ok m"
    and "parse_autoindex_manifest de bytes = Ok s \<Longrightarrow> index_wf (as_index s)
      \<and> set (index_objects (as_index s)) = layer_object ` set (visible_layers m)
      \<and> as_crud_compatible s = crud_compatible m"
proof -
  let ?objs = "map layer_object (visible_layers m)"
  have ok: "parse_autoindex_manifest de bytes = Ok s \<longleftrightarrow> validate_standard_manifest m = Ok ()
      \<and> list_all layer_ok (visible_layers m) \<and> insert_all index_default ?objs = Ok (as_index s)
      \<and> as_crud_compatible s = crud_compatible m" for s
    using assms by (cases s) (auto simp: parse_autoindex_manifest_def project_layers_Ok visible_layers_def)
  have files: "list_all layer_ok (visible_layers m) \<Longrightarrow> \<forall>obj \<in> set ?objs. file_path (vo_path obj)"
    using layer_object_file by (auto simp: list_all_iff)
  show "is_ok (parse_autoindex_manifest de bytes) \<longleftrightarrow> manifest_ok m"
  proof
    assume "is_ok (parse_autoindex_manifest de bytes)"
    then obtain s where "parse_autoindex_manifest de bytes = Ok s" by (auto simp: is_ok_iff)
    with ok[of s] files insert_all_default_Ok[of ?objs] show "manifest_ok m"
      by (simp add: manifest_ok_def)
  next
    assume m: "manifest_ok m"
    with files insert_all_default_Ok[of ?objs] obtain i where "insert_all index_default ?objs = Ok i"
      by (auto simp: manifest_ok_def is_ok_iff)
    with m ok[of "\<lparr>as_index = i, as_crud_compatible = crud_compatible m\<rparr>"]
    show "is_ok (parse_autoindex_manifest de bytes)" by (simp add: manifest_ok_def)
  qed
  show "index_wf (as_index s) \<and> set (index_objects (as_index s)) = layer_object ` set (visible_layers m)
      \<and> as_crud_compatible s = crud_compatible m"
    if "parse_autoindex_manifest de bytes = Ok s"
    using that ok[of s] files insert_all_result[OF index_wf_default, of ?objs "as_index s"] by simp
qed

lemma layer_order_irrelevant:
  assumes b: "de bytes = Some m" and b': "de bytes' = Some (m\<lparr>m_layers := ls\<rparr>)"
    and perm: "mset ls = mset (m_layers m)"
  shows "map_option as_index (case parse_autoindex_manifest de bytes of Inr s \<Rightarrow> Some s | Inl _ \<Rightarrow> None)
    = map_option as_index (case parse_autoindex_manifest de bytes' of Inr s \<Rightarrow> Some s | Inl _ \<Rightarrow> None)"
proof -
  let ?m = "m\<lparr>m_layers := ls\<rparr>"
  have ms: "mset (visible_layers ?m) = mset (visible_layers m)"
    using perm by (simp add: visible_layers_def mset_filter)
  then have sets: "set (visible_layers ?m) = set (visible_layers m)" by (rule mset_eq_setD)
  have sep: "mset (map layer_object (visible_layers ?m)) = mset (map layer_object (visible_layers m))"
    using ms by simp
  have ok: "manifest_ok ?m \<longleftrightarrow> manifest_ok m"
    using sets mutually_separate_perm[OF _ sep] mutually_separate_perm[OF _ sep[symmetric]]
    unfolding manifest_ok_def list_all_iff validate_standard_manifest_def by auto
  show ?thesis
  proof (cases "manifest_ok m")
    case True
    then obtain s s' where s: "parse_autoindex_manifest de bytes = Ok s"
      and s': "parse_autoindex_manifest de bytes' = Ok s'"
      using parse_autoindex_manifest_Ok(1)[where de = de and bytes = bytes, OF b] parse_autoindex_manifest_Ok(1)[where de = de and bytes = bytes', OF b'] ok
      by (auto simp: is_ok_iff)
    have "as_index s = as_index s'"
      using parse_autoindex_manifest_Ok(2)[where de = de and bytes = bytes, OF b s] parse_autoindex_manifest_Ok(2)[where de = de and bytes = bytes', OF b' s'] sets
      by (intro index_ext) simp_all
    with s s' show ?thesis by simp
  next
    case False
    then have "\<not> is_ok (parse_autoindex_manifest de bytes)" "\<not> is_ok (parse_autoindex_manifest de bytes')"
      using parse_autoindex_manifest_Ok(1)[where de = de and bytes = bytes, OF b] parse_autoindex_manifest_Ok(1)[where de = de and bytes = bytes', OF b'] ok by simp_all
    then show ?thesis by (auto simp: is_ok_iff split: sum.splits)
  qed
qed

subsection \<open>Properties\<close>

text \<open>A manifest with two visible layers and a hidden one.\<close>

definition sample_layer :: "string \<Rightarrow> bool \<Rightarrow> descriptor" where
  "sample_layer title visible =
     \<lparr>d_media_type = ''text/html'', d_digest = ''sha256:'' @ replicate 64 (CHR ''1''), d_size = 3,
      d_annotations = (if visible then [(VISIBILITY_ANNOTATION, ''true'')] else [])
        @ [(TITLE_ANNOTATION, title)], d_extra = []\<rparr>"

definition sample_manifest :: manifest where
  "sample_manifest = \<lparr>m_schema_version = 2, m_media_type = MANIFEST_MEDIA_TYPE, m_annotations = [],
     m_config = descriptor_new EMPTY_CONFIG_MEDIA_TYPE EMPTY_CONFIG_DIGEST 2,
     m_layers = [sample_layer ''pypi/b'' True, sample_layer ''x'' False, sample_layer ''a'' True],
     m_extra = []\<rparr>"

lemma sample_visible: "visible_layers sample_manifest = [sample_layer ''pypi/b'' True, sample_layer ''a'' True]"
  by (simp add: visible_layers_def sample_manifest_def is_autoindex_visible_def sample_layer_def
      bt_get_def VISIBILITY_ANNOTATION_def TITLE_ANNOTATION_def)

lemma sample_layer_title: "descriptor_title (sample_layer t True) = Some t"
  by (simp add: descriptor_title_def sample_layer_def bt_get_def VISIBILITY_ANNOTATION_def TITLE_ANNOTATION_def)

lemma sample_layer_valid: "validate_descriptor (sample_layer t True) = Ok ()"
  by (simp add: validate_descriptor_def oci_valid_digest_def sample_layer_def MAX_ARTIFACT_BYTES_def
      trim_str_def is_whitespace_def is_ascii_def is_ascii_hexdigit_def is_ascii_digit_def
      is_ascii_uppercase_def list_all_iff list_ex_iff)

lemma sample_manifest_ok: "manifest_ok sample_manifest"
proof -
  have "validate_standard_manifest sample_manifest = Ok ()"
    by (simp add: validate_standard_manifest_def sample_manifest_def validate_descriptor_def
        oci_valid_digest_def descriptor_new_def EMPTY_CONFIG_DIGEST_def EMPTY_CONFIG_MEDIA_TYPE_def
        MAX_ARTIFACT_BYTES_def trim_str_def is_whitespace_def is_ascii_def is_ascii_hexdigit_def
        is_ascii_digit_def is_ascii_uppercase_def)
  moreover have "path_string [''pypi'', ''b''] False = ''pypi/b''" "path_spec [''pypi'', ''b''] False"
    "path_string [''a''] False = ''a''" "path_spec [''a''] False" by code_simp+
  then have "list_all layer_ok (visible_layers sample_manifest)"
    by (auto simp: sample_visible layer_ok_def sample_layer_title sample_layer_valid) metis+
  moreover have "\<not> prefix (components (RelativePath ''pypi/b'')) (components (RelativePath ''a''))"
    "\<not> prefix (components (RelativePath ''a'')) (components (RelativePath ''pypi/b''))" by code_simp+
  then have "mutually_separate (map layer_object (visible_layers sample_manifest))"
    by (simp add: sample_visible mutually_separate_def layer_object_def sample_layer_title
        separate_def parallel_def)
  ultimately show ?thesis by (simp add: manifest_ok_def)
qed

text \<open>C19. A manifest whose visible layers all have a title is projected exactly when it is a standard image
  manifest with a valid config, every visible layer is a valid descriptor with a safe file title,
  and no visible title is another's path or ancestor; the index is then a well-formed tree that holds
  one object per visible layer, with the layer's title, digest, type and size, and nothing of the
  hidden layers. A visible layer without a title is left out of this statement: the comment of
  \<open>parse_autoindex_manifest\<close> says that such a layer is ignored, and the code rejects its manifest
  (\<open>untitled_layer_rejected\<close>).\<close>

theorem autoindex_projection_exact:
  assumes "de bytes = Some m" "\<forall>d \<in> set (visible_layers m). descriptor_title d \<noteq> None"
  shows "(is_ok (parse_autoindex_manifest de bytes) \<longleftrightarrow> manifest_ok m)
    \<and> (\<forall>s. parse_autoindex_manifest de bytes = Ok s \<longrightarrow> index_wf (as_index s)
        \<and> set (index_objects (as_index s)) = layer_object ` set (visible_layers m))"
  using parse_autoindex_manifest_Ok[where de = de and bytes = bytes, OF assms(1)] by blast

theorem autoindex_projection_exact_witness:
  "\<exists>s. parse_autoindex_manifest (\<lambda>_. Some sample_manifest) [] = Ok s
     \<and> set (index_objects (as_index s)) = {layer_object (sample_layer ''pypi/b'' True),
          layer_object (sample_layer ''a'' True)}"
proof -
  have "\<forall>d \<in> set (visible_layers sample_manifest). descriptor_title d \<noteq> None"
    by (simp add: sample_visible sample_layer_title)
  from autoindex_projection_exact[of "\<lambda>_. Some sample_manifest" "[]" sample_manifest, OF refl this]
  show ?thesis using sample_manifest_ok sample_visible by (auto simp: is_ok_iff)
qed

text \<open>What the code does with a visible layer that has no title: it rejects the manifest.\<close>

lemma untitled_layer_rejected:
  assumes "de bytes = Some m" "d \<in> set (visible_layers m)" "descriptor_title d = None"
  shows "\<not> is_ok (parse_autoindex_manifest de bytes)"
  using parse_autoindex_manifest_Ok(1)[where de = de and bytes = bytes, OF assms(1)] assms(2,3)
  by (auto simp: manifest_ok_def layer_ok_def list_all_iff)

text \<open>The order of the layers does not matter: two manifests whose layers are permutations of
  each other are both rejected, or have the same index.\<close>

lemma autoindex_layer_order_irrelevant:
  assumes "de bytes = Some m" "de bytes' = Some (m\<lparr>m_layers := ls\<rparr>)" "mset ls = mset (m_layers m)"
  shows "map_option as_index (case parse_autoindex_manifest de bytes of Inr s \<Rightarrow> Some s | Inl _ \<Rightarrow> None)
    = map_option as_index (case parse_autoindex_manifest de bytes' of Inr s \<Rightarrow> Some s | Inl _ \<Rightarrow> None)"
  by (rule layer_order_irrelevant[OF assms])

lemma autoindex_layer_order_irrelevant_witness:
  "map_option as_index (case parse_autoindex_manifest (\<lambda>b. if b = [] then Some sample_manifest
        else Some (sample_manifest\<lparr>m_layers := rev (m_layers sample_manifest)\<rparr>)) [] of Inr s \<Rightarrow> Some s | Inl _ \<Rightarrow> None)
    = map_option as_index (case parse_autoindex_manifest (\<lambda>b. if b = [] then Some sample_manifest
        else Some (sample_manifest\<lparr>m_layers := rev (m_layers sample_manifest)\<rparr>)) ''x'' of Inr s \<Rightarrow> Some s | Inl _ \<Rightarrow> None)"
  by (rule autoindex_layer_order_irrelevant[where m = sample_manifest and ls = "rev (m_layers sample_manifest)"])
    simp_all

end
