(* ===== verification/Auth.thy ===== *)
theory Auth
  imports Http Ordered_Map
begin

text \<open>
  \<open>src/auth.rs\<close>: bearer challenges and the token cache. The challenge parser walks a byte
  cursor over the field value; every loop is a recursion whose measure is what is left of the
  value. The standard base64 encoder of the credentials is the argument \<open>enc\<close>. Instants and
  durations are naturals in nanoseconds, and the clock is an argument.
\<close>

subsection \<open>Credentials\<close>

definition MAX_CHALLENGE_BYTES :: nat where "MAX_CHALLENGE_BYTES = 8 * 1024"
definition MAX_TOKEN_BYTES :: nat where "MAX_TOKEN_BYTES = 8 * 1024"

record token_credentials =
  tc_username :: string
  tc_password :: string

definition token_credentials_new :: "string \<Rightarrow> string \<Rightarrow> token_credentials option" where
  "token_credentials_new username password =
     (if username = [] \<or> password = [] \<or> length username > 1024 \<or> length password > 4096
         \<or> list_ex is_ascii_control username \<or> list_ex is_ascii_control password
      then None else Some \<lparr>tc_username = username, tc_password = password\<rparr>)"

definition basic_authorization :: "(string \<Rightarrow> string) \<Rightarrow> token_credentials \<Rightarrow> string option" where
  "basic_authorization enc c =
     header_value_from (''Basic '' @ enc (tc_username c @ '':'' @ tc_password c))"

definition bearer_authorization :: "string \<Rightarrow> string option" where
  "bearer_authorization token =
     (if token = [] \<or> length token > MAX_TOKEN_BYTES \<or> list_ex is_ascii_control token then None
      else header_value_from (''Bearer '' @ token))"

subsection \<open>Scanning\<close>

definition byte_at :: "string \<Rightarrow> nat \<Rightarrow> char option" where
  "byte_at bytes cursor = (if cursor < length bytes then Some (bytes ! cursor) else None)"

definition is_ows :: "char \<Rightarrow> bool" where
  "is_ows c \<longleftrightarrow> c = CHR '' '' \<or> c = HTAB"

definition is_tchar :: "char \<Rightarrow> bool" where
  "is_tchar c \<longleftrightarrow> is_ascii_alphanumeric c \<or> c \<in> set (''!#$%&*+-.^_|~'' @ [SQUOTE, CHR 0x60])"

function skip_ows :: "string \<Rightarrow> nat \<Rightarrow> nat" where
  "skip_ows bytes cursor =
     (case byte_at bytes cursor of
        Some c \<Rightarrow> if is_ows c then skip_ows bytes (cursor + 1) else cursor
      | None \<Rightarrow> cursor)"
  by pat_completeness auto
termination
  by (relation "measure (\<lambda>(bytes, cursor). length bytes - cursor)")
    (auto simp: byte_at_def split: if_splits)

declare skip_ows.simps [simp del]

lemma skip_ows_ge: "cursor \<le> skip_ows bytes cursor"
  by (induction bytes cursor rule: skip_ows.induct) (subst skip_ows.simps, auto split: option.splits)

function skip_ows_and_commas :: "string \<Rightarrow> nat \<Rightarrow> nat" where
  "skip_ows_and_commas bytes cursor =
     (let cursor = skip_ows bytes cursor in
      if byte_at bytes cursor = Some (CHR '','') then skip_ows_and_commas bytes (cursor + 1) else cursor)"
  by pat_completeness auto
termination
proof (relation "measure (\<lambda>(bytes, cursor). length bytes - cursor)")
  fix bytes :: string and cursor x
  assume "x = skip_ows bytes cursor" "byte_at bytes x = Some (CHR '','')"
  then show "((bytes, x + 1), bytes, cursor) \<in> measure (\<lambda>(bytes, cursor). length bytes - cursor)"
    using skip_ows_ge[of cursor bytes] by (auto simp: byte_at_def split: if_splits)
qed simp

declare skip_ows_and_commas.simps [simp del]

lemma skip_ows_and_commas_ge: "cursor \<le> skip_ows_and_commas bytes cursor"
proof (induction bytes cursor rule: skip_ows_and_commas.induct)
  case (1 bytes cursor)
  then show ?case
    using skip_ows_ge[of cursor bytes] by (subst skip_ows_and_commas.simps) (auto simp: Let_def)
qed

function skip_tchars :: "string \<Rightarrow> nat \<Rightarrow> nat" where
  "skip_tchars bytes cursor =
     (case byte_at bytes cursor of
        Some c \<Rightarrow> if is_tchar c then skip_tchars bytes (cursor + 1) else cursor
      | None \<Rightarrow> cursor)"
  by pat_completeness auto
termination
  by (relation "measure (\<lambda>(bytes, cursor). length bytes - cursor)")
    (auto simp: byte_at_def split: if_splits)

declare skip_tchars.simps [simp del]

text \<open>\<open>parse_token\<close> returns the token and the cursor after it.\<close>

definition parse_token :: "string \<Rightarrow> nat \<Rightarrow> (string \<times> nat) option" where
  "parse_token bytes start =
     (let cursor = skip_tchars bytes start;
          token = take (cursor - start) (drop start bytes)
      in if start < cursor then (if is_utf8 token then Some (token, cursor) else None) else None)"

lemma parse_token_gt: "parse_token bytes c = Some (t, d) \<Longrightarrow> c < d"
  by (auto simp: parse_token_def Let_def split: if_splits)

text \<open>\<open>byte as char\<close>, pushed on a UTF-8 string.\<close>

definition push_char :: "char \<Rightarrow> string" where
  "push_char b =
     (if is_ascii b then [b] else [char_of (192 + byte_val b div 64 :: nat), char_of (128 + byte_val b mod 64 :: nat)])"

function quoted_loop :: "string \<Rightarrow> nat \<Rightarrow> string \<Rightarrow> (string \<times> nat) option" where
  "quoted_loop bytes cursor result =
     (case byte_at bytes cursor of
        None \<Rightarrow> None
      | Some byte \<Rightarrow>
          if byte = DQUOTE then Some (result, cursor + 1)
          else if byte = BACKSLASH then
            (case byte_at bytes (cursor + 1) of
               None \<Rightarrow> None
             | Some escaped \<Rightarrow>
                 if is_ascii_control escaped then None
                 else quoted_loop bytes (cursor + 2) (result @ push_char escaped))
          else if is_ascii_control byte then None
          else quoted_loop bytes (cursor + 1) (result @ push_char byte))"
  by pat_completeness auto
termination
  by (relation "measure (\<lambda>(bytes, cursor, result). length bytes - cursor)")
    (auto simp: byte_at_def split: if_splits)

declare quoted_loop.simps [simp del]

definition parse_quoted_string :: "string \<Rightarrow> nat \<Rightarrow> (string \<times> nat) option" where
  "parse_quoted_string bytes cursor =
     (if byte_at bytes cursor \<noteq> Some DQUOTE then None else quoted_loop bytes (cursor + 1) [])"

lemma quoted_loop_gt: "quoted_loop bytes c r = Some (s, d) \<Longrightarrow> c < d"
proof (induction bytes c r rule: quoted_loop.induct)
  case (1 bytes c r)
  from 1(3) show ?case
    by (subst (asm) quoted_loop.simps)
      (auto dest: 1(1,2) split: option.splits if_splits)
qed

lemma parse_quoted_string_gt: "parse_quoted_string bytes c = Some (s, d) \<Longrightarrow> c < d"
  by (auto simp: parse_quoted_string_def dest: quoted_loop_gt split: if_splits)

function skip_challenge :: "string \<Rightarrow> nat \<Rightarrow> bool \<Rightarrow> bool \<Rightarrow> nat" where
  "skip_challenge bytes cursor quoted escaped =
     (case byte_at bytes cursor of
        None \<Rightarrow> cursor
      | Some byte \<Rightarrow>
          if quoted then
            (if escaped then skip_challenge bytes (cursor + 1) quoted False
             else if byte = BACKSLASH then skip_challenge bytes (cursor + 1) quoted True
             else if byte = DQUOTE then skip_challenge bytes (cursor + 1) False escaped
             else skip_challenge bytes (cursor + 1) quoted escaped)
          else if byte = DQUOTE then skip_challenge bytes (cursor + 1) True escaped
          else if byte = CHR '','' then cursor + 1
          else skip_challenge bytes (cursor + 1) quoted escaped)"
  by pat_completeness auto
termination
  by (relation "measure (\<lambda>(bytes, cursor, quoted, escaped). length bytes - cursor)")
    (auto simp: byte_at_def split: if_splits)

declare skip_challenge.simps [simp del]

lemma skip_challenge_ge: "cursor \<le> skip_challenge bytes cursor quoted escaped"
proof (induction bytes cursor quoted escaped rule: skip_challenge.induct)
  case (1 bytes cursor quoted escaped)
  show ?case
    by (subst skip_challenge.simps) (auto split: option.splits dest: 1)
qed

subsection \<open>The parameters of a Bearer challenge\<close>

text \<open>One round of the inner loop: a key and its value, and the cursor after the white space
  that follows.\<close>

definition bearer_parameter :: "string \<Rightarrow> nat \<Rightarrow> (string \<times> string \<times> nat) option" where
  "bearer_parameter bytes cursor =
     (case parse_token bytes (skip_ows bytes cursor) of
        None \<Rightarrow> None
      | Some (key, cursor) \<Rightarrow>
          let cursor = skip_ows bytes cursor in
          if byte_at bytes cursor \<noteq> Some (CHR ''='') then None
          else
            let cursor = skip_ows bytes (cursor + 1) in
            (case (if byte_at bytes cursor = Some DQUOTE then parse_quoted_string bytes cursor
                   else parse_token bytes cursor) of
               None \<Rightarrow> None
             | Some (parameter, cursor) \<Rightarrow> Some (key, parameter, skip_ows bytes cursor)))"

lemma bearer_parameter_gt:
  assumes "bearer_parameter bytes c = Some (k, v, d)"
  shows "c < d"
proof -
  let ?c = "skip_ows bytes c"
  obtain c1 where key: "parse_token bytes ?c = Some (k, c1)"
    using assms by (auto simp: bearer_parameter_def Let_def split: option.splits if_splits)
  let ?c2 = "skip_ows bytes (skip_ows bytes c1 + 1)"
  obtain e where val: "(if byte_at bytes ?c2 = Some DQUOTE then parse_quoted_string bytes ?c2
      else parse_token bytes ?c2) = Some (v, e)" and d: "d = skip_ows bytes e"
    using assms key by (auto simp: bearer_parameter_def Let_def split: option.splits if_splits)
  have "?c2 < e" using val by (auto dest: parse_quoted_string_gt parse_token_gt split: if_splits)
  moreover have "c \<le> ?c" "?c < c1" "c1 \<le> skip_ows bytes c1" "skip_ows bytes c1 + 1 \<le> ?c2" "e \<le> d"
    using key parse_token_gt by (auto simp: skip_ows_ge d)
  ultimately show ?thesis by linarith
qed

function bearer_loop :: "string \<Rightarrow> nat \<Rightarrow> (string, string) btree \<Rightarrow> (string, string) btree option" where
  "bearer_loop bytes cursor parameters =
     (case bearer_parameter bytes cursor of
        None \<Rightarrow> None
      | Some (key, parameter, cursor) \<Rightarrow>
          if bt_contains_key parameters (map to_ascii_lowercase key) then None
          else
            let parameters = bt_insert (map to_ascii_lowercase key) parameter parameters in
            if byte_at bytes cursor \<noteq> Some (CHR '','') then Some parameters
            else
              (case parse_token bytes (skip_ows bytes (cursor + 1)) of
                 None \<Rightarrow> None
               | Some (_, lookahead) \<Rightarrow>
                   if byte_at bytes (skip_ows bytes lookahead) \<noteq> Some (CHR ''='') then Some parameters
                   else bearer_loop bytes (cursor + 1) parameters))"
  by pat_completeness auto
termination
proof (relation "measure (\<lambda>(bytes, cursor, parameters). length bytes - cursor)")
  fix bytes :: string and cursor :: nat and parameters key
    and x :: "string \<times> string \<times> nat" and y parameter d
  assume "bearer_parameter bytes cursor = Some x" "(key, y) = x" "(parameter, d) = y"
    "\<not> byte_at bytes d \<noteq> Some (CHR '','')"
  then have "cursor < d" "d < length bytes"
    using bearer_parameter_gt by (auto simp: byte_at_def split: if_splits)
  then show "((bytes, d + 1, p), bytes, cursor, parameters)
      \<in> measure (\<lambda>(bytes, cursor, parameters). length bytes - cursor)" for p :: "(string, string) btree"
    by simp
qed simp

declare bearer_loop.simps [simp del]

function bearer_scan :: "string \<Rightarrow> nat \<Rightarrow> (string, string) btree option" where
  "bearer_scan bytes cursor =
     (if cursor < length bytes then
        (case parse_token bytes (skip_ows_and_commas bytes cursor) of
           None \<Rightarrow> None
         | Some (scheme, cursor) \<Rightarrow>
             let cursor = skip_ows bytes cursor in
             if \<not> eq_ignore_ascii_case scheme ''Bearer''
             then bearer_scan bytes (skip_challenge bytes cursor False False)
             else bearer_loop bytes cursor [])
      else None)"
  by pat_completeness auto
termination
proof (relation "measure (\<lambda>(bytes, cursor). length bytes - cursor)")
  fix bytes :: string and cursor :: nat and x scheme c1 c2
  assume h: "cursor < length bytes" "parse_token bytes (skip_ows_and_commas bytes cursor) = Some x"
    "(scheme, c1) = x" "c2 = skip_ows bytes c1"
  have "cursor \<le> skip_ows_and_commas bytes cursor" by (rule skip_ows_and_commas_ge)
  also have "\<dots> < c1" using h parse_token_gt by blast
  also have "\<dots> \<le> c2" using h skip_ows_ge by blast
  also have "\<dots> \<le> skip_challenge bytes c2 False False" by (rule skip_challenge_ge)
  finally show "((bytes, skip_challenge bytes c2 False False), bytes, cursor)
      \<in> measure (\<lambda>(bytes, cursor). length bytes - cursor)"
    using h by auto
qed simp

declare bearer_scan.simps [simp del]

definition bearer_parameters :: "string \<Rightarrow> (string, string) btree option" where
  "bearer_parameters value = bearer_scan value 0"

subsection \<open>Challenges\<close>

record bearer_challenge =
  bc_realm :: string
  bc_service :: string

definition service_is_safe :: "string \<Rightarrow> bool" where
  "service_is_safe value \<longleftrightarrow> value \<noteq> [] \<and> length value \<le> 256
     \<and> list_all (\<lambda>byte. is_ascii_alphanumeric byte \<or> byte \<in> set ''.-_'') value"

text \<open>The body of the loop over the fields: a usable challenge, or \<open>None\<close> to continue.\<close>

definition usable_challenge :: "string \<Rightarrow> string \<Rightarrow> bearer_challenge option" where
  "usable_challenge origin value =
     (if length value > MAX_CHALLENGE_BYTES then None
      else (case bearer_parameters value of
        None \<Rightarrow> None
      | Some parameters \<Rightarrow>
          (case (bt_get parameters ''realm'', bt_get parameters ''service'') of
             (Some realm, Some service) \<Rightarrow>
               (case strip_prefix origin realm of
                  None \<Rightarrow> None
                | Some path \<Rightarrow>
                    if \<not> starts_with path ''/'' \<or> contains_any path [CHR ''?'', CHR ''#'', BACKSLASH]
                       \<or> list_ex is_ascii_control path \<or> \<not> service_is_safe service
                    then None
                    else Some \<lparr>bc_realm = realm, bc_service = service\<rparr>)
           | _ \<Rightarrow> None)))"

fun find_bearer_challenge :: "string list \<Rightarrow> string \<Rightarrow> bearer_challenge option" where
  "find_bearer_challenge [] origin = None"
| "find_bearer_challenge (value # values) origin =
     (case header_to_str value of
        None \<Rightarrow> None
      | Some value \<Rightarrow>
          (case usable_challenge origin value of
             Some challenge \<Rightarrow> Some challenge
           | None \<Rightarrow> find_bearer_challenge values origin))"

subsection \<open>The scanner on the rest of the value\<close>

text \<open>What a cursor sees is \<open>drop cursor bytes\<close>; each scanning function is described by it.\<close>

lemma drop_step: "drop c bytes = w @ r \<Longrightarrow> drop (c + length w) bytes = r"
  by (metis add.commute append_eq_conv_conj drop_drop)

lemma byte_at_drop: "byte_at bytes c = (case drop c bytes of [] \<Rightarrow> None | x # _ \<Rightarrow> Some x)"
  by (auto simp: byte_at_def hd_drop_conv_nth[symmetric] split: list.splits) 

definition stops :: "(char \<Rightarrow> bool) \<Rightarrow> string \<Rightarrow> bool" where
  "stops P r \<longleftrightarrow> (case r of [] \<Rightarrow> True | c # _ \<Rightarrow> \<not> P c)"

lemma stops_simps [simp]: "stops P []" "stops P (c # r) \<longleftrightarrow> \<not> P c"
  by (simp_all add: stops_def)

lemma skip_ows_drop:
  "drop c bytes = w @ r \<Longrightarrow> list_all is_ows w \<Longrightarrow> stops is_ows r \<Longrightarrow> skip_ows bytes c = c + length w"
proof (induction w arbitrary: c)
  case Nil
  then show ?case by (subst skip_ows.simps) (auto simp: byte_at_drop split: list.splits)
next
  case (Cons x w)
  have "drop (c + 1) bytes = w @ r" using drop_step[of c bytes "[x]"] Cons.prems(1) by simp
  with Cons.IH[of "c + 1"] Cons.prems show ?case
    by (subst skip_ows.simps) (auto simp: byte_at_drop)
qed

lemma skip_tchars_drop:
  "drop c bytes = w @ r \<Longrightarrow> list_all is_tchar w \<Longrightarrow> stops is_tchar r \<Longrightarrow> skip_tchars bytes c = c + length w"
proof (induction w arbitrary: c)
  case Nil
  then show ?case by (subst skip_tchars.simps) (auto simp: byte_at_drop split: list.splits)
next
  case (Cons x w)
  have "drop (c + 1) bytes = w @ r" using drop_step[of c bytes "[x]"] Cons.prems(1) by simp
  with Cons.IH[of "c + 1"] Cons.prems show ?case
    by (subst skip_tchars.simps) (auto simp: byte_at_drop)
qed

lemma tchar_ascii: "is_tchar c \<Longrightarrow> is_ascii c"
  by (auto simp: is_tchar_def byte_defs)

lemma tchar_not_ows: "is_tchar c \<Longrightarrow> \<not> is_ows c"
  by (auto simp: is_tchar_def is_ows_def byte_defs)

lemma parse_token_drop:
  assumes "drop c bytes = t @ r" "t \<noteq> []" "list_all is_tchar t" "stops is_tchar r"
  shows "parse_token bytes c = Some (t, c + length t)"
proof -
  have "is_utf8 t" using assms(3) tchar_ascii by (intro ascii_is_utf8) (auto simp: list_all_iff)
  then show ?thesis
    using skip_tchars_drop[OF assms(1,3,4)] assms(1,2) by (simp add: parse_token_def Let_def)
qed

definition escape_quoted :: "string \<Rightarrow> string" where
  "escape_quoted v = concat (map (\<lambda>c. if c = DQUOTE \<or> c = BACKSLASH then [BACKSLASH, c] else [c]) v)"

definition quote :: "string \<Rightarrow> string" where
  "quote v = DQUOTE # escape_quoted v @ [DQUOTE]"

definition text_byte :: "char \<Rightarrow> bool" where
  "text_byte c \<longleftrightarrow> is_ascii c \<and> \<not> is_ascii_control c"

lemma quoted_loop_drop:
  "drop c bytes = escape_quoted v @ DQUOTE # r \<Longrightarrow> list_all text_byte v \<Longrightarrow>
     quoted_loop bytes c acc = Some (acc @ v, c + length (escape_quoted v) + 1)"
proof (induction v arbitrary: c acc)
  case Nil
  then show ?case by (subst quoted_loop.simps) (simp add: byte_at_drop escape_quoted_def)
next
  case (Cons x v)
  have plain: "text_byte x" "list_all text_byte v" using Cons.prems(2) by simp_all
  then have push: "push_char x = [x]" "\<not> is_ascii_control x" by (simp_all add: push_char_def text_byte_def)
  show ?case
  proof (cases "x = DQUOTE \<or> x = BACKSLASH")
    case True
    then have d: "drop c bytes = [BACKSLASH, x] @ escape_quoted v @ DQUOTE # r"
      using Cons.prems(1) by (auto simp: escape_quoted_def)
    then have d2: "drop (c + 2) bytes = escape_quoted v @ DQUOTE # r"
      using drop_step[of c bytes "[BACKSLASH, x]"] by simp
    have d1: "drop (c + 1) bytes = x # escape_quoted v @ DQUOTE # r"
      using drop_step[of c bytes "[BACKSLASH]"] d by simp
    have "quoted_loop bytes c acc = quoted_loop bytes (c + 2) (acc @ [x])"
      using d d1 push by (subst quoted_loop.simps) (simp add: byte_at_drop)
    with Cons.IH[OF d2 plain(2)] True show ?thesis by (auto simp: escape_quoted_def)
  next
    case False
    then have d: "drop c bytes = [x] @ escape_quoted v @ DQUOTE # r"
      using Cons.prems(1) by (simp add: escape_quoted_def)
    then have d1: "drop (c + 1) bytes = escape_quoted v @ DQUOTE # r"
      using drop_step[of c bytes "[x]"] by simp
    have "quoted_loop bytes c acc = quoted_loop bytes (c + 1) (acc @ [x])"
      using d push False by (subst quoted_loop.simps) (simp add: byte_at_drop)
    with Cons.IH[OF d1 plain(2)] False show ?thesis by (auto simp: escape_quoted_def)
  qed
qed

lemma parse_quoted_string_drop:
  assumes "drop c bytes = quote v @ r" "list_all text_byte v"
  shows "parse_quoted_string bytes c = Some (v, c + length (quote v))"
proof -
  have "drop (c + 1) bytes = escape_quoted v @ DQUOTE # r"
    using drop_step[of c bytes "[DQUOTE]"] assms(1) by (simp add: quote_def)
  from quoted_loop_drop[OF this assms(2)] show ?thesis
    using assms(1) by (simp add: parse_quoted_string_def byte_at_drop quote_def)
qed

text \<open>The canonical writing of a list of parameters.\<close>

definition render_parameter :: "string \<times> string \<Rightarrow> string" where
  "render_parameter p = fst p @ ''='' @ quote (snd p)"

definition render_parameters :: "(string \<times> string) list \<Rightarrow> string" where
  "render_parameters ps = join_with (CHR '','') (map render_parameter ps)"

definition is_token :: "string \<Rightarrow> bool" where
  "is_token t \<longleftrightarrow> t \<noteq> [] \<and> list_all is_tchar t"

lemma stops_token: "is_token t \<Longrightarrow> stops is_ows (t @ r)"
  using tchar_not_ows by (cases t) (auto simp: is_token_def)

lemma bearer_parameter_drop:
  assumes d: "drop c bytes = render_parameter (k, v) @ r" and "is_token k" "list_all text_byte v"
    and r: "stops is_ows r"
  shows "bearer_parameter bytes c = Some (k, v, c + length (render_parameter (k, v)))"
proof -
  have d0: "drop c bytes = [] @ k @ ''='' @ quote v @ r" using d by (simp add: render_parameter_def)
  have ows0: "skip_ows bytes c = c"
    using skip_ows_drop[OF d0] stops_token[OF assms(2)] by simp
  have eq: "\<not> is_tchar (CHR ''='')" "\<not> is_ows (CHR ''='')" "\<not> is_ows DQUOTE"
    by (auto simp: is_tchar_def is_ows_def byte_defs)
  have key: "parse_token bytes c = Some (k, c + length k)"
    using parse_token_drop[of c bytes k "''='' @ quote v @ r"] d0 assms(2) eq by (simp add: is_token_def)
  have d1: "drop (c + length k) bytes = [] @ ''='' @ quote v @ r"
    using drop_step[of c bytes k] d0 by simp
  have ows1: "skip_ows bytes (c + length k) = c + length k"
    using skip_ows_drop[OF d1] eq by simp
  have d2: "drop (c + length k + 1) bytes = [] @ quote v @ r"
    using drop_step[of "c + length k" bytes "''=''"] d1 by simp
  have ows2: "skip_ows bytes (c + length k + 1) = c + length k + 1"
    using skip_ows_drop[OF d2] eq by (simp add: quote_def)
  have val: "parse_quoted_string bytes (c + length k + 1) = Some (v, c + length k + 1 + length (quote v))"
    using parse_quoted_string_drop[OF _ assms(3)] d2 by simp
  have d3: "drop (c + length k + 1 + length (quote v)) bytes = [] @ r"
    using drop_step[of "c + length k + 1" bytes "quote v"] d2 by simp
  have ows3: "skip_ows bytes (c + length k + 1 + length (quote v)) = c + length k + 1 + length (quote v)"
    using skip_ows_drop[OF d3] r by simp
  have "byte_at bytes (c + length k) = Some (CHR ''='')" "byte_at bytes (c + length k + 1) = Some DQUOTE"
    using d1 d2 by (simp_all add: byte_at_drop quote_def)
  with ows0 key ows1 ows2 val ows3 show ?thesis
    by (simp add: bearer_parameter_def Let_def render_parameter_def)
qed

definition lower_keys :: "(string \<times> string) list \<Rightarrow> (string \<times> string) list" where
  "lower_keys ps = map (\<lambda>p. (map to_ascii_lowercase (fst p), snd p)) ps"

lemma bearer_loop_drop:
  assumes "drop c bytes = render_parameters ps" "ps \<noteq> []"
    and "\<forall>(k, v) \<in> set ps. is_token k \<and> list_all text_byte v"
    and "distinct (map fst (lower_keys ps))" "\<forall>k \<in> fst ` set (lower_keys ps). \<not> bt_contains_key m k"
    and "bt_wf m"
  shows "bearer_loop bytes c m = Some (foldl (\<lambda>m (k, v). bt_insert k v m) m (lower_keys ps))"
  using assms
proof (induction ps arbitrary: c m)
  case (Cons p ps)
  obtain k v where p: "p = (k, v)" by (cases p)
  let ?k = "map to_ascii_lowercase k" and ?n = "length (render_parameter (k, v))"
  have kv: "is_token k" "list_all text_byte v" using Cons.prems(3) p by auto
  have fresh: "\<not> bt_contains_key m ?k" using Cons.prems(5) by (simp add: p lower_keys_def)
  have comma: "\<not> is_ows (CHR '','')" by (simp add: is_ows_def)
  show ?case
  proof (cases "ps = []")
    case True
    then have d: "drop c bytes = render_parameter (k, v) @ []"
      using Cons.prems(1) by (simp add: render_parameters_def p)
    have "byte_at bytes (c + ?n) = None"
      using drop_step[OF d] by (simp add: byte_at_drop)
    with bearer_parameter_drop[OF d kv] fresh True show ?thesis
      by (subst bearer_loop.simps) (simp add: p lower_keys_def)
  next
    case False
    then have d: "drop c bytes = render_parameter (k, v) @ '','' @ render_parameters ps"
      using Cons.prems(1) by (simp add: render_parameters_def p join_with_Cons)
    have d1: "drop (c + ?n) bytes = '','' @ render_parameters ps" by (rule drop_step[OF d])
    have d2: "drop (c + ?n + 1) bytes = render_parameters ps"
      using drop_step[of "c + ?n" bytes "'',''"] d1 by simp
    obtain k' v' ps' where ps: "ps = (k', v') # ps'" using False by (cases ps) auto
    then have k': "is_token k'" using Cons.prems(3) by auto
    obtain r' where r: "render_parameters ps = k' @ ''='' @ r'"
      using prefix_hd_join[of "map render_parameter ps" "CHR '',''"]
      by (auto simp: render_parameters_def ps render_parameter_def prefix_def)
    have eq: "\<not> is_tchar (CHR ''='')" "\<not> is_ows (CHR ''='')"
      by (auto simp: is_tchar_def is_ows_def byte_defs)
    have "drop (c + ?n + 1) bytes = [] @ k' @ ''='' @ r'" using d2 r by simp
    then have ows: "skip_ows bytes (c + ?n + 1) = c + ?n + 1"
      using skip_ows_drop[of _ _ "[]"] stops_token[OF k'] by fastforce
    have look: "parse_token bytes (c + ?n + 1) = Some (k', c + ?n + 1 + length k')"
      using parse_token_drop[of _ _ k' "''='' @ r'"] d2 r k' eq by (simp add: is_token_def)
    have d3: "drop (c + ?n + 1 + length k') bytes = [] @ ''='' @ r'"
      using drop_step[of "c + ?n + 1" bytes k'] d2 r by simp
    have ows': "skip_ows bytes (c + ?n + 1 + length k') = c + ?n + 1 + length k'"
      using skip_ows_drop[OF d3] eq by simp
    have eqb: "byte_at bytes (c + ?n + 1 + length k') = Some (CHR ''='')"
      using d3 by (simp add: byte_at_drop)
    have "bearer_loop bytes c m = bearer_loop bytes (c + ?n + 1) (bt_insert ?k v m)"
      using bearer_parameter_drop[OF d kv] comma fresh d1 ows look ows' eqb
      by (subst bearer_loop.simps) (simp add: byte_at_drop[of bytes "c + ?n"] Let_def)
    also have "\<dots> = Some (foldl (\<lambda>m (k, v). bt_insert k v m) (bt_insert ?k v m) (lower_keys ps))"
    proof (rule Cons.IH[OF d2 False])
      show "\<forall>k \<in> fst ` set (lower_keys ps). \<not> bt_contains_key (bt_insert ?k v m) k"
      proof
        fix x assume x: "x \<in> fst ` set (lower_keys ps)"
        have "?k \<notin> fst ` set (lower_keys ps)"
          using Cons.prems(4) unfolding p lower_keys_def by (simp add: image_image)
        with x have "x \<noteq> ?k" by blast
        moreover have "\<not> bt_contains_key m x" using Cons.prems(5) x unfolding p lower_keys_def by auto
        ultimately show "\<not> bt_contains_key (bt_insert ?k v m) x"
          using Cons.prems(6) by (simp add: bt_contains_key_def bt_simps)
      qed
    qed (use Cons.prems in \<open>auto simp: p lower_keys_def bt_simps\<close>)
    finally show ?thesis by (simp add: p lower_keys_def)
  qed
qed simp

lemma foldl_bt_insert:
  "bt_wf m \<Longrightarrow> distinct (map fst ps) \<Longrightarrow>
     bt_wf (foldl (\<lambda>m (k, v). bt_insert k v m) m ps)
     \<and> bt_get (foldl (\<lambda>m (k, v). bt_insert k v m) m ps) = bt_get m ++ map_of ps"
proof (induction ps arbitrary: m)
  case (Cons p ps)
  obtain k v where p: "p = (k, v)" by (cases p)
  have none: "map_of ps k = None" using Cons.prems(2) by (simp add: p map_of_eq_None_iff)
  have get: "bt_get (bt_insert k v m) = (bt_get m)(k \<mapsto> v)" using Cons.prems(1) by (rule bt.lookup_insert)
  have "(bt_get m)(k \<mapsto> v) ++ map_of ps = bt_get m ++ map_of (p # ps)"
  proof (rule ext)
    fix x show "((bt_get m)(k \<mapsto> v) ++ map_of ps) x = (bt_get m ++ map_of (p # ps)) x"
      using none by (cases "x = k") (auto simp: p map_add_def split: option.splits)
  qed
  moreover have "foldl (\<lambda>m (k, v). bt_insert k v m) m (p # ps)
      = foldl (\<lambda>m (k, v). bt_insert k v m) (bt_insert k v m) ps" by (simp add: p)
  moreover have "bt_wf (bt_insert k v m)" using Cons.prems(1) by (rule bt.wf_insert)
  moreover have "distinct (map fst ps)" using Cons.prems(2) by simp
  ultimately show ?case using Cons.IH[of "bt_insert k v m", unfolded get] by (simp only:)
qed simp

lemma stops_parameters:
  assumes "ps \<noteq> []" "\<forall>(k, v) \<in> set ps. is_token k \<and> list_all text_byte v"
  shows "stops is_ows (render_parameters ps)"
proof -
  obtain k v ps' where ps: "ps = (k, v) # ps'" using assms(1) by (cases ps) auto
  obtain r' where "render_parameters ps = k @ ''='' @ r'"
    using prefix_hd_join[of "map render_parameter ps" "CHR '',''"]
    by (auto simp: render_parameters_def ps render_parameter_def prefix_def)
  with assms(2) stops_token[of k] show ?thesis by (simp add: ps)
qed

lemma bearer_parameters_render:
  assumes ps: "ps \<noteq> []" "\<forall>(k, v) \<in> set ps. is_token k \<and> list_all text_byte v"
    "distinct (map fst (lower_keys ps))"
  shows "bearer_parameters (''Bearer '' @ render_parameters ps)
    = Some (foldl (\<lambda>m (k, v). bt_insert k v m) [] (lower_keys ps))"
proof -
  let ?s = "''Bearer '' @ render_parameters ps"
  have d0: "drop 0 ?s = [] @ ''Bearer'' @ '' '' @ render_parameters ps" by simp
  have ows: "is_ows (CHR '' '')" "\<not> is_ows (CHR ''B'')" by (simp_all add: is_ows_def)
  have tch: "list_all is_tchar ''Bearer''" "\<not> is_tchar (CHR '' '')"
    by (simp_all add: is_tchar_def byte_defs)
  have "skip_ows ?s 0 = 0" using skip_ows_drop[OF d0] ows by simp
  then have skip: "skip_ows_and_commas ?s 0 = 0"
    by (subst skip_ows_and_commas.simps) (simp add: byte_at_drop)
  have scheme: "parse_token ?s 0 = Some (''Bearer'', 6)"
    using parse_token_drop[of 0 ?s "''Bearer''" "'' '' @ render_parameters ps"] tch by simp
  have d6: "drop 6 ?s = '' '' @ render_parameters ps" by simp
  have blank: "skip_ows ?s 6 = 7"
    using skip_ows_drop[OF d6] ows stops_parameters[OF ps(1,2)] by simp
  have d7: "drop 7 ?s = render_parameters ps" by simp
  have "bearer_loop ?s 7 [] = Some (foldl (\<lambda>m (k, v). bt_insert k v m) [] (lower_keys ps))"
    by (rule bearer_loop_drop[OF d7 ps]) (simp_all add: bt_contains_key_def bt_simps)
  moreover have "bearer_scan ?s 0 = bearer_loop ?s 7 []"
    using skip scheme blank by (subst bearer_scan.simps) (simp add: eq_ignore_ascii_case_def Let_def)
  ultimately show ?thesis by (simp add: bearer_parameters_def)
qed

subsection \<open>The token cache\<close>

definition secs :: "nat \<Rightarrow> nat" where "secs n = n * 1000000000"

definition CACHE_CAPACITY :: nat where "CACHE_CAPACITY = 16"
definition CACHE_TTL :: nat where "CACHE_TTL = secs (15 * 60)"
definition EXPIRY_SKEW :: nat where "EXPIRY_SKEW = secs 30"

record cached_token =
  ct_authorization :: string
  ct_expires_at :: nat

record token_cache =
  entries :: "(string, cached_token) btree"

definition token_cache_default :: token_cache where
  "token_cache_default = \<lparr>entries = []\<rparr>"

definition discard_expired :: "nat \<Rightarrow> token_cache \<Rightarrow> token_cache" where
  "discard_expired now cache =
     cache\<lparr>entries := bt_retain (\<lambda>entry. ct_expires_at entry > now) (entries cache)\<rparr>"

definition token_cache_get :: "nat \<Rightarrow> token_cache \<Rightarrow> string \<Rightarrow> string option \<times> token_cache" where
  "token_cache_get now cache repository =
     (let cache = discard_expired now cache
      in (map_option ct_authorization (bt_get (entries cache) repository), cache))"

definition token_cache_remove :: "token_cache \<Rightarrow> string \<Rightarrow> token_cache" where
  "token_cache_remove cache repository = cache\<lparr>entries := bt_remove repository (entries cache)\<rparr>"

definition token_cache_insert ::
    "nat \<Rightarrow> token_cache \<Rightarrow> string \<Rightarrow> string \<Rightarrow> nat option \<Rightarrow> token_cache" where
  "token_cache_insert now cache repository authorization expires_in =
     (let lifetime = min (case expires_in of Some s \<Rightarrow> secs s | None \<Rightarrow> secs 60) CACHE_TTL in
      if lifetime < EXPIRY_SKEW then cache
      else
        let lifetime = lifetime - EXPIRY_SKEW;
            kept = (if length (entries cache) \<ge> CACHE_CAPACITY
                       \<and> \<not> bt_contains_key (entries cache) repository
                    then bt_pop_first (entries cache) else entries cache)
        in cache\<lparr>entries := bt_insert repository
             \<lparr>ct_authorization = authorization, ct_expires_at = now + lifetime\<rparr> kept\<rparr>)"

text \<open>
  The histories of a cache: the clock does not run backwards, and every insert leaves an event
  with the repository, the authorization and the time.
\<close>

inductive cache_run :: "token_cache \<Rightarrow> nat \<Rightarrow> (string \<times> string \<times> nat) list \<Rightarrow> bool" where
  start: "cache_run token_cache_default t []"
| get: "cache_run c t h \<Longrightarrow> t \<le> t' \<Longrightarrow> cache_run (snd (token_cache_get t' c repository)) t' h"
| remove: "cache_run c t h \<Longrightarrow> t \<le> t' \<Longrightarrow> cache_run (token_cache_remove c repository) t' h"
| insert: "cache_run c t h \<Longrightarrow> t \<le> t' \<Longrightarrow>
    cache_run (token_cache_insert t' c repository authorization expires_in) t'
      ((repository, authorization, t') # h)"

definition MAX_LIFETIME :: nat where "MAX_LIFETIME = CACHE_TTL - EXPIRY_SKEW"

definition cache_ok :: "token_cache \<Rightarrow> nat \<Rightarrow> (string \<times> string \<times> nat) list \<Rightarrow> bool" where
  "cache_ok c t h \<longleftrightarrow> bt_wf (entries c) \<and> length (entries c) \<le> CACHE_CAPACITY
     \<and> (\<forall>r e. bt_get (entries c) r = Some e \<longrightarrow>
          (\<exists>t0. (r, ct_authorization e, t0) \<in> set h \<and> t0 \<le> t \<and> ct_expires_at e \<le> t0 + MAX_LIFETIME))"

lemma length_bt_insert:
  "bt_wf m \<Longrightarrow> length (bt_insert k v m) = (if bt_contains_key m k then length m else Suc (length m))"
proof -
  assume wf: "bt_wf m"
  have "length (bt_insert k v m) = card (insert k (dom (bt_get m)))"
    using bt.length_entries[OF bt.wf_insert[OF wf], of k v] wf by (simp add: bt.lookup_insert)
  then show ?thesis
    using bt.length_entries[OF wf] bt.finite_dom[OF wf]
    by (auto simp: bt_contains_key_def card_insert_if dom_def)
qed

lemma bt_get_pop_first: 
  assumes "bt_wf m" "bt_get (bt_pop_first m) r = Some e"
  shows "bt_get m r = Some e"
proof -
  have "(r, e) \<in> set (bt_pop_first m)"
    using bt.set_entries[OF bt_wf_pop_first[OF assms(1)]] assms(2) by simp
  then have "(r, e) \<in> set m" by (cases m) (auto simp: bt_pop_first_def)
  then show ?thesis using bt.set_entries[OF assms(1)] by simp
qed

lemma cache_ok_sub:
  assumes ok: "cache_ok c t h" and wf: "bt_wf (entries c')" and len: "length (entries c') \<le> CACHE_CAPACITY"
    and sub: "\<And>r e. bt_get (entries c') r = Some e \<Longrightarrow> bt_get (entries c) r = Some e" and "t \<le> t'"
  shows "cache_ok c' t' h"
  unfolding cache_ok_def
proof (intro conjI allI impI wf len)
  fix r e assume "bt_get (entries c') r = Some e"
  from sub[OF this] ok obtain t0 where "(r, ct_authorization e, t0) \<in> set h" "t0 \<le> t"
    "ct_expires_at e \<le> t0 + MAX_LIFETIME" unfolding cache_ok_def by blast
  with \<open>t \<le> t'\<close> show "\<exists>t0. (r, ct_authorization e, t0) \<in> set h \<and> t0 \<le> t'
      \<and> ct_expires_at e \<le> t0 + MAX_LIFETIME" by (intro exI[of _ t0]) simp
qed

lemma cache_ok_weaken: "cache_ok c t h \<Longrightarrow> t \<le> t' \<Longrightarrow> set h \<subseteq> set h' \<Longrightarrow> cache_ok c t' h'"
  unfolding cache_ok_def by (meson dual_order.trans subsetD)

lemma cache_ok_get:
  assumes "cache_ok c t h" "t \<le> t'"
  shows "cache_ok (snd (token_cache_get t' c repository)) t' h"
proof (rule cache_ok_sub[OF assms(1) _ _ _ assms(2)])
  have wf: "bt_wf (entries c)" and len: "length (entries c) \<le> CACHE_CAPACITY"
    using assms by (simp_all add: cache_ok_def)
  let ?c = "snd (token_cache_get t' c repository)"
  have e: "entries ?c = bt_retain (\<lambda>entry. ct_expires_at entry > t') (entries c)"
    by (simp add: token_cache_get_def discard_expired_def Let_def)
  show "bt_wf (entries ?c)" by (simp add: e bt_wf_retain wf)
  show "length (entries ?c) \<le> CACHE_CAPACITY"
    using len by (simp add: e bt_retain_def le_trans[OF length_filter_le])
  show "bt_get (entries ?c) r = Some x \<Longrightarrow> bt_get (entries c) r = Some x" for r x
    by (simp add: e bt_get_retain[OF wf] split: option.splits if_splits)
qed

lemma cache_ok_remove:
  assumes "cache_ok c t h" "t \<le> t'"
  shows "cache_ok (token_cache_remove c repository) t' h"
proof (rule cache_ok_sub[OF assms(1) _ _ _ assms(2)])
  have wf: "bt_wf (entries c)" and len: "length (entries c) \<le> CACHE_CAPACITY"
    using assms by (simp_all add: cache_ok_def)
  show "bt_wf (entries (token_cache_remove c repository))"
    by (simp add: token_cache_remove_def bt_simps wf)
  show "length (entries (token_cache_remove c repository)) \<le> CACHE_CAPACITY"
    using len by (simp add: token_cache_remove_def bt_remove_def le_trans[OF length_filter_le])
  show "bt_get (entries (token_cache_remove c repository)) r = Some x \<Longrightarrow> bt_get (entries c) r = Some x" for r x
    using wf by (simp add: token_cache_remove_def bt_simps split: if_splits)
qed

lemma token_cache_insert_kept:
  fixes repository :: string and e :: cached_token
  assumes wf: "bt_wf (entries c)" and len: "length (entries c) \<le> CACHE_CAPACITY"
  defines "kept \<equiv> if length (entries c) \<ge> CACHE_CAPACITY \<and> \<not> bt_contains_key (entries c) repository
    then bt_pop_first (entries c) else entries c"
  shows "bt_wf kept" "length (bt_insert repository e kept) \<le> CACHE_CAPACITY"
    "\<And>r x. bt_get kept r = Some x \<Longrightarrow> bt_get (entries c) r = Some x"
proof -
  show wf': "bt_wf kept" by (simp add: kept_def wf bt_wf_pop_first)
  show "\<And>r x. bt_get kept r = Some x \<Longrightarrow> bt_get (entries c) r = Some x"
    using bt_get_pop_first[OF wf] by (simp add: kept_def split: if_splits)
  show "length (bt_insert repository e kept) \<le> CACHE_CAPACITY"
    using len unfolding length_bt_insert[OF wf'] 
    by (auto simp: kept_def bt_pop_first_def CACHE_CAPACITY_def)
qed

lemma cache_ok_insert:
  assumes ok: "cache_ok c t h" and "t \<le> t'"
  shows "cache_ok (token_cache_insert t' c repository authorization expires_in) t'
    ((repository, authorization, t') # h)"
proof -
  let ?h = "(repository, authorization, t') # h"
  define lifetime where "lifetime = min (case expires_in of Some s \<Rightarrow> secs s | None \<Rightarrow> secs 60) CACHE_TTL"
  have ok': "cache_ok c t' ?h" by (rule cache_ok_weaken[OF ok \<open>t \<le> t'\<close>]) auto
  show ?thesis
  proof (cases "lifetime < EXPIRY_SKEW")
    case True
    then show ?thesis using ok' by (simp add: token_cache_insert_def lifetime_def)
  next
    case False
    define e where "e = \<lparr>ct_authorization = authorization, ct_expires_at = t' + (lifetime - EXPIRY_SKEW)\<rparr>"
    define kept where "kept = (if length (entries c) \<ge> CACHE_CAPACITY \<and> \<not> bt_contains_key (entries c) repository
      then bt_pop_first (entries c) else entries c)"
    have c': "entries (token_cache_insert t' c repository authorization expires_in) = bt_insert repository e kept"
      using False by (simp add: token_cache_insert_def lifetime_def e_def kept_def Let_def)
    have base: "bt_wf (entries c)" "length (entries c) \<le> CACHE_CAPACITY" using ok by (simp_all add: cache_ok_def)
    note kept = token_cache_insert_kept[OF base, of repository, folded kept_def]
    have "ct_expires_at e \<le> t' + MAX_LIFETIME"
      by (simp add: e_def lifetime_def MAX_LIFETIME_def diff_le_mono)
    then have new: "\<exists>t0. (repository, ct_authorization e, t0) \<in> set ?h \<and> t0 \<le> t' \<and> ct_expires_at e \<le> t0 + MAX_LIFETIME"
      by (intro exI[of _ t']) (simp add: e_def)
    show ?thesis
      unfolding cache_ok_def c'
    proof (intro conjI allI impI)
      fix r x assume x: "bt_get (bt_insert repository e kept) r = Some x"
      show "\<exists>t0. (r, ct_authorization x, t0) \<in> set ?h \<and> t0 \<le> t' \<and> ct_expires_at x \<le> t0 + MAX_LIFETIME"
      proof (cases "r = repository")
        case True
        with x new show ?thesis by (simp add: bt.lookup_insert[OF kept(1)])
      next
        case False
        with x have "bt_get (entries c) r = Some x"
          using kept(3) by (simp add: bt.lookup_insert[OF kept(1)])
        with ok' show ?thesis unfolding cache_ok_def by blast
      qed
    qed (use kept in \<open>simp_all add: bt_simps\<close>)
  qed
qed

lemma cache_run_ok: "cache_run c t h \<Longrightarrow> cache_ok c t h"
proof (induction rule: cache_run.induct)
  case (start t)
  show ?case by (simp add: cache_ok_def token_cache_default_def bt_simps)
qed (auto intro: cache_ok_get cache_ok_remove cache_ok_insert)

lemma token_cache_get_fst:
  assumes "bt_wf (entries c)"
  shows "fst (token_cache_get t c r) = (case bt_get (entries c) r of
    None \<Rightarrow> None | Some e \<Rightarrow> if t < ct_expires_at e then Some (ct_authorization e) else None)"
  using assms by (simp add: token_cache_get_def discard_expired_def Let_def bt_get_retain split: option.splits)

subsection \<open>Properties\<close>

text \<open>C37. The challenge parser reads back every challenge written with quoted strings: for
  parameters with token names, pairwise different up to case, and any printable ASCII values
  (quotes and backslashes escaped), it returns exactly the map from the lowercase names to the
  values.\<close>

theorem bearer_parameters_roundtrip:
  assumes "ps \<noteq> []" "\<forall>(k, v) \<in> set ps. is_token k \<and> list_all text_byte v"
    "distinct (map fst (lower_keys ps))"
  shows "\<exists>m. bearer_parameters (''Bearer '' @ render_parameters ps) = Some m
    \<and> bt_wf m \<and> bt_get m = map_of (lower_keys ps)"
  using bearer_parameters_render[OF assms] foldl_bt_insert[OF bt.wf_empty assms(3)]
  by (simp add: bt_simps)

theorem bearer_parameters_roundtrip_witness:
  "\<exists>m. bearer_parameters (''Bearer '' @ render_parameters
        [(''Realm'', ''https://ghcr.io/token''), (''service'', ''a'' @ [DQUOTE, BACKSLASH])]) = Some m
    \<and> bt_wf m \<and> bt_get m = map_of
        [(''realm'', ''https://ghcr.io/token''), (''service'', ''a'' @ [DQUOTE, BACKSLASH])]"
proof -
  let ?ps = "[(''Realm'', ''https://ghcr.io/token''), (''service'', ''a'' @ [DQUOTE, BACKSLASH])]"
  have ok: "\<forall>(k, v) \<in> set ?ps. is_token k \<and> list_all text_byte v" by code_simp
  have lower: "lower_keys ?ps = [(''realm'', ''https://ghcr.io/token''), (''service'', ''a'' @ [DQUOTE, BACKSLASH])]"
    by code_simp
  then have "distinct (map fst (lower_keys ?ps))" by simp
  from bearer_parameters_roundtrip[OF _ ok this] lower show ?thesis by (metis list.distinct(1))
qed

text \<open>C16. Credentials stay at the configured origin: a challenge that is used names a token
  endpoint whose text is the configured origin followed by an absolute path without query,
  fragment, backslash or control byte, a service name of safe characters, and comes from a field
  of the response of at most 8 KiB.\<close>

theorem bearer_challenge_pinned:
  assumes "find_bearer_challenge received origin = Some c"
  shows "\<exists>path value. bc_realm c = origin @ path \<and> prefix ''/'' path
    \<and> set path \<inter> {CHR ''?'', CHR ''#'', BACKSLASH} = {} \<and> \<not> list_ex is_ascii_control path
    \<and> service_is_safe (bc_service c)
    \<and> value \<in> set received \<and> length value \<le> MAX_CHALLENGE_BYTES"
  using assms
proof (induction received origin rule: find_bearer_challenge.induct)
  case (2 v vs origin)
  then have str: "header_to_str v = Some v" by (auto simp: header_to_str_def split: if_splits)
  show ?case
  proof (cases "usable_challenge origin v")
    case None
    with 2 str show ?thesis by auto
  next
    case (Some d)
    with 2(2) str have "usable_challenge origin v = Some c" by simp
    then have "\<exists>path. bc_realm c = origin @ path \<and> prefix ''/'' path
        \<and> \<not> contains_any path [CHR ''?'', CHR ''#'', BACKSLASH] \<and> \<not> list_ex is_ascii_control path
        \<and> service_is_safe (bc_service c)" "length v \<le> MAX_CHALLENGE_BYTES"
      unfolding usable_challenge_def by (auto split: if_splits option.splits)
    then show ?thesis by (auto simp: contains_any_iff)
  qed
qed simp

theorem bearer_challenge_pinned_witness:
  "find_bearer_challenge
     [''Basic realm=other, Bearer realm='' @ quote ''https://ghcr.io/token'' @ '',service=ghcr.io'']
     ''https://ghcr.io''
   = Some \<lparr>bc_realm = ''https://ghcr.io/token'', bc_service = ''ghcr.io''\<rparr>
   \<and> service_is_safe ''ghcr.io''"
proof -
  have run: "find_bearer_challenge
      [''Basic realm=other, Bearer realm='' @ quote ''https://ghcr.io/token'' @ '',service=ghcr.io'']
      ''https://ghcr.io''
    = Some \<lparr>bc_realm = ''https://ghcr.io/token'', bc_service = ''ghcr.io''\<rparr>"
    by code_simp
  then show ?thesis using bearer_challenge_pinned[OF run] by simp
qed

text \<open>C17. The token cache is bounded, fresh and isolated: in every history of gets, inserts and
  removals with a clock that does not run backwards it holds at most 16 tokens, and a token that
  it returns for a repository was inserted for that very repository less than 870 seconds ago.\<close>

theorem token_cache_safe:
  assumes "cache_run c now h" "now \<le> t"
  shows "length (entries c) \<le> 16
    \<and> (\<forall>r a. fst (token_cache_get t c r) = Some a \<longrightarrow>
         (\<exists>t0. (r, a, t0) \<in> set h \<and> t0 \<le> now \<and> t < t0 + secs 870))"
proof -
  have ok: "cache_ok c now h" by (rule cache_run_ok[OF assms(1)])
  then have wf: "bt_wf (entries c)" by (simp add: cache_ok_def)
  have life: "MAX_LIFETIME = secs 870"
    by (simp add: MAX_LIFETIME_def CACHE_TTL_def EXPIRY_SKEW_def secs_def)
  show ?thesis
  proof (intro conjI allI impI)
    show "length (entries c) \<le> 16" using ok by (simp add: cache_ok_def CACHE_CAPACITY_def)
  next
    fix r a assume "fst (token_cache_get t c r) = Some a"
    then obtain e where e: "bt_get (entries c) r = Some e" "t < ct_expires_at e" "a = ct_authorization e"
      by (auto simp: token_cache_get_fst[OF wf] split: option.splits if_splits)
    then obtain t0 where "(r, ct_authorization e, t0) \<in> set h" "t0 \<le> now" "ct_expires_at e \<le> t0 + MAX_LIFETIME"
      using ok unfolding cache_ok_def by blast
    with e life show "\<exists>t0. (r, a, t0) \<in> set h \<and> t0 \<le> now \<and> t < t0 + secs 870"
      by (intro exI[of _ t0]) simp
  qed
qed

theorem token_cache_safe_witness:
  "length (entries (token_cache_insert 5 token_cache_default ''acme/demo'' ''Bearer x'' (Some 300))) \<le> 16"
proof -
  have "cache_run (token_cache_insert 5 token_cache_default ''acme/demo'' ''Bearer x'' (Some 300)) 5
      [(''acme/demo'', ''Bearer x'', 5)]"
    by (rule cache_run.insert[OF cache_run.start[of 0]]) simp
  from token_cache_safe[OF this, of 5] show ?thesis by simp
qed

text \<open>A stored token is found until its expiry: after an insert with a lifetime of \<open>s\<close> seconds
  (60 when none is given, at most 900) the repository's token is returned exactly during the
  first \<open>s - 30\<close> seconds, and a token that lives less than 30 seconds is not stored at all.\<close>

lemma token_cache_insert_get:
  assumes "cache_run c now h" "now \<le> t0"
    and "s = min (case expires_in of None \<Rightarrow> 60 | Some s \<Rightarrow> s) 900"
  shows "if s < 30 then token_cache_insert t0 c r a expires_in = c
    else fst (token_cache_get t (token_cache_insert t0 c r a expires_in) r)
      = (if t < t0 + secs (s - 30) then Some a else None)"
proof -
  have ok: "cache_ok c now h" by (rule cache_run_ok[OF assms(1)])
  have base: "bt_wf (entries c)" "length (entries c) \<le> CACHE_CAPACITY" using ok by (simp_all add: cache_ok_def)
  have min: "min (case expires_in of Some s \<Rightarrow> secs s | None \<Rightarrow> secs 60) CACHE_TTL = secs s"
    unfolding assms(3) by (auto simp: secs_def CACHE_TTL_def min_def split: option.splits)
  have skew: "secs s < EXPIRY_SKEW \<longleftrightarrow> s < 30" "secs s - EXPIRY_SKEW = secs (s - 30)"
    by (simp_all add: EXPIRY_SKEW_def secs_def diff_mult_distrib)
  show ?thesis
  proof (cases "s < 30")
    case True
    then show ?thesis using min skew by (simp add: token_cache_insert_def)
  next
    case False
    define kept where "kept = (if length (entries c) \<ge> CACHE_CAPACITY \<and> \<not> bt_contains_key (entries c) r
      then bt_pop_first (entries c) else entries c)"
    define e where "e = \<lparr>ct_authorization = a, ct_expires_at = t0 + secs (s - 30)\<rparr>"
    have c': "entries (token_cache_insert t0 c r a expires_in) = bt_insert r e kept"
      using False unfolding token_cache_insert_def min Let_def by (simp add: skew e_def kept_def)
    have wf: "bt_wf kept" using token_cache_insert_kept(1)[OF base, of r] by (simp add: kept_def)
    then have "bt_wf (entries (token_cache_insert t0 c r a expires_in))" by (simp add: c' bt_simps)
    with wf False show ?thesis
      by (simp add: token_cache_get_fst c' bt.lookup_insert) (simp add: e_def)
  qed
qed

lemma token_cache_insert_get_witness:
  "fst (token_cache_get (secs 250) (token_cache_insert 0 token_cache_default ''acme/demo'' ''Bearer x'' (Some 300))
      ''acme/demo'') = Some ''Bearer x''"
  using token_cache_insert_get[OF cache_run.start[of 0], of 0 300 "Some 300" "''acme/demo''" "''Bearer x''" "secs 250"]
  by (simp add: secs_def)

text \<open>A token becomes a header only when it is non-empty, at most 8 KiB and free of control
  bytes, and then the value is the token after \<open>Bearer\<close>: no token can break out of its field.\<close>

lemma bearer_authorization_exact:
  "bearer_authorization token = Some value \<longleftrightarrow>
     value = ''Bearer '' @ token \<and> token \<noteq> [] \<and> length token \<le> 8192
     \<and> \<not> list_ex is_ascii_control token"
proof (cases "list_ex is_ascii_control token")
  case False
  then have "header_value_from (''Bearer '' @ token) = Some (''Bearer '' @ token)"
    by (auto simp: header_value_from_def list_all_iff list_ex_iff is_ascii_control_def not_less)
  with False show ?thesis by (auto simp: bearer_authorization_def MAX_TOKEN_BYTES_def not_less)
qed (simp add: bearer_authorization_def)

end
