(* ===== verification/Effects.thy ===== *)
theory Effects
  imports Oci Auth
begin

text \<open>
  The asynchronous code of \<open>src/oci.rs\<close> and \<open>src/proxy.rs\<close> as interaction trees. A value of
  \<open>'a io\<close> is a task that either has returned or stops at its next await point: a request sent to
  the upstream, or one operation on the shared token cache (the mutex is taken for that operation
  alone). Continuations are functions of what the environment answers, so one tree holds every
  behaviour of the task. \<open>advance\<close> follows a tree along a history of events; \<open>run_io\<close> executes it
  in a world with a cache, a clock and an upstream; \<open>step\<close> interleaves tasks over one cache.
\<close>

subsection \<open>Requests, answers and tasks\<close>

text \<open>A request as it leaves the proxy. \<open>out_uri\<close> is the text the URI was parsed from. A body is the
  list of its chunks, \<open>None\<close> for a transport error; \<open>up_stalls\<close> marks a body that does not end
  before the deadline.\<close>

record outgoing =
  out_method :: string
  out_uri :: string
  out_headers :: header_map
  out_body :: "string option list"

record upstream =
  up_status :: nat
  up_headers :: header_map
  up_body :: "string option list"
  up_stalls :: bool

datatype outcome = Elapsed | Unreachable | Answered upstream

datatype 'a io =
    Return 'a
  | Send outgoing "outcome \<Rightarrow> 'a io"
  | Cache_get string "string option \<Rightarrow> 'a io"
  | Cache_remove string "'a io"
  | Cache_insert string string "nat option" "'a io"

primrec bind_io :: "'a io \<Rightarrow> ('a \<Rightarrow> 'b io) \<Rightarrow> 'b io" where
  "bind_io (Return a) f = f a"
| "bind_io (Send r k) f = Send r (\<lambda>answer. bind_io (k answer) f)"
| "bind_io (Cache_get repository k) f = Cache_get repository (\<lambda>found. bind_io (k found) f)"
| "bind_io (Cache_remove repository p) f = Cache_remove repository (bind_io p f)"
| "bind_io (Cache_insert repository token expires_in p) f =
     Cache_insert repository token expires_in (bind_io p f)"

text \<open>Sequencing with \<open>.await?\<close>, and lifting a plain result.\<close>

definition try_io :: "('e + 'a) io \<Rightarrow> ('a \<Rightarrow> ('e + 'b) io) \<Rightarrow> ('e + 'b) io" where
  "try_io p f = bind_io p (\<lambda>r. case r of Inl e \<Rightarrow> Return (Inl e) | Inr a \<Rightarrow> f a)"

abbreviation lift_io :: "'e + 'a \<Rightarrow> ('a \<Rightarrow> ('e + 'b) io) \<Rightarrow> ('e + 'b) io" where
  "lift_io r f \<equiv> try_io (Return r) f"

lemma try_io_Return [simp]:
  "try_io (Return (Inl e)) f = Return (Inl e)" "try_io (Return (Inr a)) f = f a"
  by (simp_all add: try_io_def)

lemma bind_io_assoc: "bind_io (bind_io p f) g = bind_io p (\<lambda>a. bind_io (f a) g)"
  by (induction p) simp_all

lemma bind_io_Return: "bind_io p Return = p"
  by (induction p) simp_all

subsection \<open>Histories\<close>

datatype event =
    Sent outgoing outcome
  | Looked_up string "string option"
  | Removed string
  | Inserted string string "nat option"

inductive advance :: "'a io \<Rightarrow> event list \<Rightarrow> 'a io \<Rightarrow> bool" where
  stay: "advance p [] p"
| send: "advance (k answer) tr q \<Longrightarrow> advance (Send r k) (Sent r answer # tr) q"
| look: "advance (k found) tr q \<Longrightarrow> advance (Cache_get repository k) (Looked_up repository found # tr) q"
| drop: "advance p tr q \<Longrightarrow> advance (Cache_remove repository p) (Removed repository # tr) q"
| store: "advance p tr q \<Longrightarrow>
    advance (Cache_insert repository token expires_in p) (Inserted repository token expires_in # tr) q"

text \<open>A complete history of a task and its result.\<close>

abbreviation exec :: "'a io \<Rightarrow> event list \<Rightarrow> 'a \<Rightarrow> bool" where
  "exec p tr a \<equiv> advance p tr (Return a)"

inductive_simps advance_Nil [simp]: "advance p [] q"
inductive_simps advance_Return [simp]: "advance (Return a) tr q"
inductive_simps exec_Send: "advance (Send r k) tr (Return a)"
inductive_simps exec_Cache_get: "advance (Cache_get repository k) tr (Return a)"
inductive_simps exec_Cache_remove: "advance (Cache_remove repository p) tr (Return a)"
inductive_simps exec_Cache_insert: "advance (Cache_insert repository token expires_in p) tr (Return a)"
inductive_simps advance_Send_Cons: "advance (Send r k) (e # tr) q"
inductive_simps advance_Cache_get_Cons: "advance (Cache_get repository k) (e # tr) q"
inductive_simps advance_Cache_remove_Cons: "advance (Cache_remove repository p) (e # tr) q"
inductive_simps advance_Cache_insert_Cons: "advance (Cache_insert repository token expires_in p) (e # tr) q"

lemmas exec_simps = exec_Send exec_Cache_get exec_Cache_remove exec_Cache_insert
lemmas advance_Cons = advance_Send_Cons advance_Cache_get_Cons advance_Cache_remove_Cons advance_Cache_insert_Cons

lemma exec_bind:
  "exec (bind_io p f) tr b \<longleftrightarrow> (\<exists>t1 t2 a. tr = t1 @ t2 \<and> exec p t1 a \<and> exec (f a) t2 b)"
proof (induction p arbitrary: tr)
  case (Return a)
  show ?case by (auto intro: advance.intros)
next
  case (Send r k)
  have IH: "exec (bind_io (k x) f) tr b \<longleftrightarrow> (\<exists>t1 t2 a. tr = t1 @ t2 \<and> exec (k x) t1 a \<and> exec (f a) t2 b)" for x tr
    using Send by blast
  show ?case
    by (auto simp: exec_simps IH) (metis append_Cons)+
next
  case (Cache_get repository k)
  have IH: "exec (bind_io (k x) f) tr b \<longleftrightarrow> (\<exists>t1 t2 a. tr = t1 @ t2 \<and> exec (k x) t1 a \<and> exec (f a) t2 b)" for x tr
    using Cache_get by blast
  show ?case
    by (auto simp: exec_simps IH) (metis append_Cons)+
next
  case (Cache_remove repository p)
  then show ?case by (auto simp: exec_simps) (metis append_Cons)+
next
  case (Cache_insert repository token expires_in p)
  then show ?case by (auto simp: exec_simps) (metis append_Cons)+
qed

lemma exec_bindI: "exec p t1 a \<Longrightarrow> exec (f a) t2 b \<Longrightarrow> exec (bind_io p f) (t1 @ t2) b"
  unfolding exec_bind by blast

lemma exec_tryI: "exec p t1 (Inr a) \<Longrightarrow> exec (f a) t2 b \<Longrightarrow> exec (try_io p f) (t1 @ t2) b"
  unfolding try_io_def by (rule exec_bindI[where a = "Inr a"]) simp_all

lemma exec_try:
  "exec (try_io p f) tr b \<longleftrightarrow>
     (\<exists>e. exec p tr (Inl e) \<and> b = Inl e)
     \<or> (\<exists>t1 t2 a. tr = t1 @ t2 \<and> exec p t1 (Inr a) \<and> exec (f a) t2 b)"
proof
  assume "exec (try_io p f) tr b"
  then obtain t1 t2 r where *: "tr = t1 @ t2" "exec p t1 r"
    "exec (case r of Inl e \<Rightarrow> Return (Inl e) | Inr a \<Rightarrow> f a) t2 b"
    unfolding try_io_def exec_bind by blast
  then show "(\<exists>e. exec p tr (Inl e) \<and> b = Inl e)
     \<or> (\<exists>t1 t2 a. tr = t1 @ t2 \<and> exec p t1 (Inr a) \<and> exec (f a) t2 b)"
    by (cases r) auto
next
  assume "(\<exists>e. exec p tr (Inl e) \<and> b = Inl e)
     \<or> (\<exists>t1 t2 a. tr = t1 @ t2 \<and> exec p t1 (Inr a) \<and> exec (f a) t2 b)"
  then show "exec (try_io p f) tr b"
  proof (elim disjE exE conjE)
    fix e assume "exec p tr (Inl e)" "b = Inl e"
    then show ?thesis unfolding try_io_def exec_bind
      by (intro exI[of _ tr] exI[of _ "[]"] exI[of _ "Inl e"]) simp
  next
    fix t1 t2 a assume "tr = t1 @ t2" "exec p t1 (Inr a)" "exec (f a) t2 b"
    then show ?thesis unfolding try_io_def exec_bind
      by (intro exI[of _ t1] exI[of _ t2] exI[of _ "Inr a"]) simp
  qed
qed

lemma advance_append:
  "advance p t1 q \<Longrightarrow> advance q t2 r \<Longrightarrow> advance p (t1 @ t2) r"
  by (induction p t1 q rule: advance.induct) (auto intro: advance.intros)

text \<open>Every task ends, whatever the environment answers.\<close>

lemma ends: "\<exists>tr a. exec q tr a"
proof (induction q)
  case (Send r k)
  then obtain tr a where "exec (k Elapsed) tr a" by blast
  then show ?case by (blast intro: advance.intros)
next
  case (Cache_get repository k)
  then obtain tr a where "exec (k None) tr a" by blast
  then show ?case by (blast intro: advance.intros)
qed (blast intro: advance.intros)+

text \<open>What a task has sent, and what it wrote to the cache.\<close>

fun sent_of :: "event \<Rightarrow> outgoing list" where
  "sent_of (Sent r answer) = [r]"
| "sent_of _ = []"

definition requests :: "event list \<Rightarrow> outgoing list" where
  "requests tr = concat (map sent_of tr)"

lemma requests_simps [simp]:
  "requests [] = []" "requests (Sent r answer # tr) = r # requests tr"
  "requests (Looked_up repository found # tr) = requests tr"
  "requests (Removed repository # tr) = requests tr"
  "requests (Inserted repository token expires_in # tr) = requests tr"
  "requests (t1 @ t2) = requests t1 @ requests t2"
  by (simp_all add: requests_def)

subsection \<open>Policies on histories\<close>

text \<open>\<open>always P past p\<close>: after the history \<open>past\<close>, every event of the task \<open>p\<close> is allowed by \<open>P\<close>
  in view of what came before it.\<close>

primrec always :: "(event list \<Rightarrow> event \<Rightarrow> bool) \<Rightarrow> 'a io \<Rightarrow> event list \<Rightarrow> bool" where
  "always P (Return a) = (\<lambda>past. True)"
| "always P (Send r k) = (\<lambda>past. \<forall>x. P past (Sent r x) \<and> always P (k x) (past @ [Sent r x]))"
| "always P (Cache_get repository k) = (\<lambda>past.
     \<forall>x. P past (Looked_up repository x) \<and> always P (k x) (past @ [Looked_up repository x]))"
| "always P (Cache_remove repository p) = (\<lambda>past.
     P past (Removed repository) \<and> always P p (past @ [Removed repository]))"
| "always P (Cache_insert repository token expires_in p) = (\<lambda>past.
     P past (Inserted repository token expires_in)
     \<and> always P p (past @ [Inserted repository token expires_in]))"

definition obeys :: "(event list \<Rightarrow> event \<Rightarrow> bool) \<Rightarrow> 'a io \<Rightarrow> bool" where
  "obeys P p \<longleftrightarrow> (\<forall>past. always P p past)"

lemma always_bind:
  "always P p past \<Longrightarrow> (\<And>past a. always P (f a) past) \<Longrightarrow> always P (bind_io p f) past"
  by (induction p arbitrary: past) simp_all

lemma obeys_bind: "obeys P p \<Longrightarrow> (\<And>a. obeys P (f a)) \<Longrightarrow> obeys P (bind_io p f)"
  unfolding obeys_def by (blast intro: always_bind)

lemma obeys_Return [simp]: "obeys P (Return a)"
  by (simp add: obeys_def)

lemma obeys_try:
  assumes "obeys P p" "\<And>a. obeys P (f a)"
  shows "obeys P (try_io p f)"
  unfolding try_io_def using assms by (intro obeys_bind) (auto split: sum.split)

lemma obeys_lift:
  assumes "\<And>a. r = Inr a \<Longrightarrow> obeys P (f a)"
  shows "obeys P (lift_io r f)"
  using assms by (cases r) simp_all

lemma always_weaken:
  "always P p past \<Longrightarrow> (\<And>past e. P past e \<Longrightarrow> Q past e) \<Longrightarrow> always Q p past"
  by (induction p arbitrary: past) simp_all

lemma obeys_weaken: "obeys P p \<Longrightarrow> (\<And>past e. P past e \<Longrightarrow> Q past e) \<Longrightarrow> obeys Q p"
  unfolding obeys_def using always_weaken[of P p _ Q] by blast

text \<open>A history complies when each of its events is allowed in view of those before it.\<close>

definition complies :: "(event list \<Rightarrow> event \<Rightarrow> bool) \<Rightarrow> event list \<Rightarrow> event list \<Rightarrow> bool" where
  "complies P past tr \<longleftrightarrow> (\<forall>t1 e t2. tr = t1 @ e # t2 \<longrightarrow> P (past @ t1) e)"

lemma complies_Nil [simp]: "complies P past []"
  by (simp add: complies_def)

lemma complies_Cons: "complies P past (e # tr) \<longleftrightarrow> P past e \<and> complies P (past @ [e]) tr"
proof
  assume c: "complies P past (e # tr)"
  then have "P past e" unfolding complies_def by fastforce
  moreover have "P (past @ [e] @ t1) x" if "tr = t1 @ x # t2" for t1 x t2
    using c that unfolding complies_def by (metis append_Cons append_Nil)
  ultimately show "P past e \<and> complies P (past @ [e]) tr" by (simp add: complies_def)
next
  assume c: "P past e \<and> complies P (past @ [e]) tr"
  show "complies P past (e # tr)" unfolding complies_def
  proof (intro allI impI)
    fix t1 x t2 assume "e # tr = t1 @ x # t2"
    then show "P (past @ t1) x"
      using c by (cases t1) (auto simp: complies_def)
  qed
qed

lemma always_advance:
  "advance p tr q \<Longrightarrow> always P p past \<Longrightarrow> complies P past tr \<and> always P q (past @ tr)"
proof (induction p tr q arbitrary: past rule: advance.induct)
  case (send k x tr q r)
  from send.IH[of "past @ [Sent r x]"] send.prems show ?case by (simp add: complies_Cons)
next
  case (look k x tr q repository)
  from look.IH[of "past @ [Looked_up repository x]"] look.prems show ?case by (simp add: complies_Cons)
next
  case (drop p tr q repository)
  from drop.IH[of "past @ [Removed repository]"] drop.prems show ?case by (simp add: complies_Cons)
next
  case (store p tr q repository token expires_in)
  from store.IH[of "past @ [Inserted repository token expires_in]"] store.prems
  show ?case by (simp add: complies_Cons)
qed simp

lemma obeys_complies: "obeys P p \<Longrightarrow> advance p tr q \<Longrightarrow> complies P [] tr"
  using always_advance[of p tr q P "[]"] by (simp add: obeys_def)

lemma complies_requests:
  assumes "complies P past tr" "q \<in> set (requests tr)"
  shows "\<exists>t1 x. P (past @ t1) (Sent q x)"
  using assms
proof (induction tr arbitrary: past)
  case (Cons e tr)
  show ?case
  proof (cases "q \<in> set (requests tr)")
    case True
    with Cons.IH[of "past @ [e]"] Cons.prems(1) show ?thesis
      unfolding complies_Cons by (metis append.assoc)
  next
    case False
    then obtain x where "e = Sent q x"
      using Cons.prems(2) by (cases e) auto
    with Cons.prems(1) show ?thesis by (metis append.right_neutral complies_Cons)
  qed
qed simp

text \<open>\<open>within n p\<close>: the task stops at most \<open>n\<close> more times; \<open>sends n p\<close>: it sends at most \<open>n\<close>
  more requests.\<close>

primrec within :: "'a io \<Rightarrow> nat \<Rightarrow> bool" where
  "within (Return a) = (\<lambda>n. True)"
| "within (Send r k) = (\<lambda>n. 0 < n \<and> (\<forall>x. within (k x) (n - 1)))"
| "within (Cache_get repository k) = (\<lambda>n. 0 < n \<and> (\<forall>x. within (k x) (n - 1)))"
| "within (Cache_remove repository p) = (\<lambda>n. 0 < n \<and> within p (n - 1))"
| "within (Cache_insert repository token expires_in p) = (\<lambda>n. 0 < n \<and> within p (n - 1))"

primrec sends :: "'a io \<Rightarrow> nat \<Rightarrow> bool" where
  "sends (Return a) = (\<lambda>n. True)"
| "sends (Send r k) = (\<lambda>n. 0 < n \<and> (\<forall>x. sends (k x) (n - 1)))"
| "sends (Cache_get repository k) = (\<lambda>n. \<forall>x. sends (k x) n)"
| "sends (Cache_remove repository p) = sends p"
| "sends (Cache_insert repository token expires_in p) = sends p"

lemma within_mono: "within p m \<Longrightarrow> m \<le> n \<Longrightarrow> within p n"
proof (induction p arbitrary: m n)
  case (Send r k) then show ?case by (auto intro: Send.IH[OF rangeI, of _ "m - 1"])
next
  case (Cache_get repository k) then show ?case by (auto intro: Cache_get.IH[OF rangeI, of _ "m - 1"])
next
  case (Cache_remove repository p) then show ?case by (auto intro: Cache_remove.IH[of "m - 1"])
next
  case (Cache_insert repository token expires_in p) then show ?case by (auto intro: Cache_insert.IH[of "m - 1"])
qed simp

lemma sends_mono: "sends p m \<Longrightarrow> m \<le> n \<Longrightarrow> sends p n"
proof (induction p arbitrary: m n)
  case (Send r k) then show ?case by (auto intro: Send.IH[OF rangeI, of _ "m - 1"])
next
  case (Cache_get repository k) then show ?case by (auto intro: Cache_get.IH[OF rangeI])
qed auto

lemma within_bind: "within p m \<Longrightarrow> (\<And>a. within (f a) n) \<Longrightarrow> within (bind_io p f) (m + n)"
proof (induction p arbitrary: m)
  case (Return a)
  then show ?case using within_mono[of "f a" n "m + n"] by simp
next
  case (Send r k)
  then show ?case by (cases m) auto
next
  case (Cache_get repository k)
  then show ?case by (cases m) auto
next
  case (Cache_remove repository p)
  then show ?case by (cases m) auto
next
  case (Cache_insert repository token expires_in p)
  then show ?case by (cases m) auto
qed

lemma sends_bind: "sends p m \<Longrightarrow> (\<And>a. sends (f a) n) \<Longrightarrow> sends (bind_io p f) (m + n)"
proof (induction p arbitrary: m)
  case (Return a)
  then show ?case using sends_mono[of "f a" n "m + n"] by simp
next
  case (Send r k)
  then show ?case by (cases m) auto
qed auto

lemma within_try: "within p m \<Longrightarrow> (\<And>a. within (f a) n) \<Longrightarrow> within (try_io p f) (m + n)"
  unfolding try_io_def by (rule within_bind) (auto split: sum.split)

lemma sends_try: "sends p m \<Longrightarrow> (\<And>a. sends (f a) n) \<Longrightarrow> sends (try_io p f) (m + n)"
  unfolding try_io_def by (rule sends_bind) (auto split: sum.split)

lemma within_lift: "(\<And>a. within (f a) n) \<Longrightarrow> within (lift_io r f) n"
  by (cases r) simp_all

lemma sends_lift: "(\<And>a. sends (f a) n) \<Longrightarrow> sends (lift_io r f) n"
  by (cases r) simp_all

lemma within_advance: "advance p tr q \<Longrightarrow> within p n \<Longrightarrow> length tr \<le> n \<and> within q (n - length tr)"
proof (induction p tr q arbitrary: n rule: advance.induct)
  case (send k x tr q r)
  then show ?case using send.IH[of "n - 1"] by (cases n) auto
next
  case (look k x tr q repository)
  then show ?case using look.IH[of "n - 1"] by (cases n) auto
next
  case (drop p tr q repository)
  then show ?case using drop.IH[of "n - 1"] by (cases n) auto
next
  case (store p tr q repository token expires_in)
  then show ?case using store.IH[of "n - 1"] by (cases n) auto
qed simp

lemma sends_advance: "advance p tr q \<Longrightarrow> sends p n \<Longrightarrow> length (requests tr) \<le> n"
proof (induction p tr q arbitrary: n rule: advance.induct)
  case (send k x tr q r)
  then show ?case using send.IH[of "n - 1"] by (cases n) auto
qed auto

subsection \<open>Running a task in a world\<close>

text \<open>The upstream answers from the requests it has seen; the clock ticks at every operation.\<close>

record world =
  w_upstream :: "outgoing list \<Rightarrow> outgoing \<Rightarrow> outcome"
  w_clock :: nat
  w_cache :: token_cache
  w_history :: "event list"

definition log_event :: "world \<Rightarrow> event \<Rightarrow> world" where
  "log_event w e = w\<lparr>w_clock := Suc (w_clock w), w_history := w_history w @ [e]\<rparr>"

primrec run_io :: "'a io \<Rightarrow> world \<Rightarrow> 'a \<times> world" where
  "run_io (Return a) = (\<lambda>w. (a, w))"
| "run_io (Send r k) = (\<lambda>w.
     let answer = w_upstream w (requests (w_history w)) r
     in run_io (k answer) (log_event w (Sent r answer)))"
| "run_io (Cache_get repository k) = (\<lambda>w.
     let (found, cache) = token_cache_get (w_clock w) (w_cache w) repository
     in run_io (k found) (log_event (w\<lparr>w_cache := cache\<rparr>) (Looked_up repository found)))"
| "run_io (Cache_remove repository p) = (\<lambda>w.
     run_io p (log_event (w\<lparr>w_cache := token_cache_remove (w_cache w) repository\<rparr>) (Removed repository)))"
| "run_io (Cache_insert repository token expires_in p) = (\<lambda>w.
     run_io p (log_event
       (w\<lparr>w_cache := token_cache_insert (w_clock w) (w_cache w) repository token expires_in\<rparr>)
       (Inserted repository token expires_in)))"

lemma run_io_exec:
  "\<exists>tr. w_history (snd (run_io p w)) = w_history w @ tr \<and> exec p tr (fst (run_io p w))"
proof (induction p arbitrary: w)
  case (Send r k)
  let ?a = "w_upstream w (requests (w_history w)) r"
  obtain tr where "w_history (snd (run_io (k ?a) (log_event w (Sent r ?a))))
      = w_history (log_event w (Sent r ?a)) @ tr"
    "exec (k ?a) tr (fst (run_io (k ?a) (log_event w (Sent r ?a))))" using Send by blast
  then show ?case by (intro exI[of _ "Sent r ?a # tr"]) (simp add: log_event_def Let_def exec_simps)
next
  case (Cache_get repository k)
  obtain found cache where g: "token_cache_get (w_clock w) (w_cache w) repository = (found, cache)" by fastforce
  let ?w = "log_event (w\<lparr>w_cache := cache\<rparr>) (Looked_up repository found)"
  obtain tr where "w_history (snd (run_io (k found) ?w)) = w_history ?w @ tr"
    "exec (k found) tr (fst (run_io (k found) ?w))" using Cache_get by blast
  then show ?case
    by (intro exI[of _ "Looked_up repository found # tr"]) (simp add: log_event_def g exec_simps)
next
  case (Cache_remove repository p)
  let ?w = "log_event (w\<lparr>w_cache := token_cache_remove (w_cache w) repository\<rparr>) (Removed repository)"
  obtain tr where "w_history (snd (run_io p ?w)) = w_history ?w @ tr" "exec p tr (fst (run_io p ?w))"
    using Cache_remove by blast
  then show ?case by (intro exI[of _ "Removed repository # tr"]) (simp add: log_event_def exec_simps)
next
  case (Cache_insert repository token expires_in p)
  let ?w = "log_event (w\<lparr>w_cache := token_cache_insert (w_clock w) (w_cache w) repository token expires_in\<rparr>)
    (Inserted repository token expires_in)"
  obtain tr where "w_history (snd (run_io p ?w)) = w_history ?w @ tr" "exec p tr (fst (run_io p ?w))"
    using Cache_insert by blast
  then show ?case
    by (intro exI[of _ "Inserted repository token expires_in # tr"]) (simp add: log_event_def exec_simps)
qed simp

end
