(* ===== verification/Oci_Client.thy ===== *)
theory Oci_Client
  imports Effects
begin

text \<open>
  The pure parts of \<open>OciClient\<close> in \<open>src/oci.rs\<close>: the classification of upstream responses, the
  declared length, the query of an upload location and the rewriting of \<open>Location\<close>. What comes
  from other crates is the record \<open>library\<close>: the URI parser, the base64 encoder, SHA-256 as
  lowercase hex, the JSON parser of \<open>serde_json\<close> and the base64url codec of route locators.
\<close>

subsection \<open>Libraries and the client\<close>

record uri =
  u_scheme :: "string option"
  u_authority :: "string option"
  u_path_and_query :: "(string \<times> string option) option"

record token_response =
  tr_token :: "string option"
  tr_access_token :: "string option"
  tr_expires_in :: "nat option"

record library =
  lib_uri :: "string \<Rightarrow> uri option"
  lib_base64 :: "string \<Rightarrow> string"
  lib_sha256 :: "string \<Rightarrow> string"
  lib_json :: "string \<Rightarrow> json option"
  lib_base64url :: "string \<Rightarrow> string"
  lib_base64url_decode :: "string \<Rightarrow> string option"

text \<open>The fields of a token response have defaults, and other members are skipped.\<close>

definition token_response_new ::
    "string option option \<Rightarrow> string option option \<Rightarrow> nat option option \<Rightarrow> token_response option" where
  "token_response_new token access_token expires_in =
     Option.bind token (\<lambda>token. Option.bind access_token (\<lambda>access_token.
       map_option (\<lambda>expires_in. \<lparr>tr_token = token, tr_access_token = access_token, tr_expires_in = expires_in\<rparr>) expires_in))"

fun token_response_of_json :: "json \<Rightarrow> token_response option" where
  "token_response_of_json (JObj ms) =
     token_response_new (defaulted None (as_option as_string) ''token'' ms)
       (defaulted None (as_option as_string) ''access_token'' ms) (defaulted None (as_option as_u64) ''expires_in'' ms)"
| "token_response_of_json (JArr vs) =
     (if length vs > 3 then None
      else token_response_new (element None (as_option as_string) vs 0) (element None (as_option as_string) vs 1)
        (element None (as_option as_u64) vs 2))"
| "token_response_of_json _ = None"

definition lib_token_json :: "library \<Rightarrow> string \<Rightarrow> token_response option" where
  "lib_token_json lib = from_slice (lib_json lib) token_response_of_json"

definition lib_manifest_json :: "library \<Rightarrow> string \<Rightarrow> manifest option" where
  "lib_manifest_json lib = from_slice (lib_json lib) manifest_of_json"

definition lib_config_json :: "library \<Rightarrow> string \<Rightarrow> layout_config option" where
  "lib_config_json lib = from_slice (lib_json lib) layout_config_of_json"

definition lib_route_map_json :: "library \<Rightarrow> string \<Rightarrow> route_map option" where
  "lib_route_map_json lib = from_slice (lib_json lib) route_map_of_json"

record client =
  cl_origin :: string
  cl_credentials :: "token_credentials option"

definition has_token_broker :: "client \<Rightarrow> bool" where
  "has_token_broker c \<longleftrightarrow> cl_credentials c \<noteq> None"

text \<open>\<open>path_and_query.as_str()\<close>.\<close>

definition path_and_query_str :: "string \<times> string option \<Rightarrow> string" where
  "path_and_query_str pq = fst pq @ (case snd pq of None \<Rightarrow> [] | Some query \<Rightarrow> ''?'' @ query)"

subsection \<open>Responses\<close>

definition is_server_error :: "nat \<Rightarrow> bool" where
  "is_server_error status \<longleftrightarrow> 500 \<le> status \<and> status < 600"

definition classify_response :: "upstream \<Rightarrow> oci_error + unit" where
  "classify_response response =
     (if up_status response = 200 then Ok ()
      else
        let retry_after = header_get (up_headers response) ''retry-after'';
            challenges = header_get_all (up_headers response) ''www-authenticate'' in
        Err (if up_status response = 404 then OciNotFound
             else if up_status response = 401 then OciUnauthorized challenges
             else if up_status response = 403 then OciForbidden
             else if up_status response = 429 then OciRateLimited retry_after
             else if is_server_error (up_status response)
             then OciServer (up_status response = 503) retry_after
             else OciUpstream))"

lemma classify_response_Ok [simp]: "classify_response r = Inr u \<longleftrightarrow> up_status r = 200"
  by (simp add: classify_response_def Let_def)

lemma classify_401: "up_status r = 401 \<Longrightarrow>
    classify_response r = Inl (OciUnauthorized (header_get_all (up_headers r) ''www-authenticate''))"
  by (simp add: classify_response_def Let_def)

definition content_length :: "header_map \<Rightarrow> nat \<Rightarrow> nat option" where
  "content_length headers maximum =
     Option.bind (header_get headers ''content-length'') (\<lambda>v.
     Option.bind (header_to_str v) (\<lambda>v.
     Option.bind (parse_u64 v) (\<lambda>n. if n \<le> maximum then Some n else None)))"

definition check_response_length :: "upstream \<Rightarrow> nat \<Rightarrow> oci_error + nat" where
  "check_response_length response maximum =
     ok_or InvalidDescriptor (content_length (up_headers response) maximum)"

subsection \<open>Queries whose keys occur once\<close>

definition key_value :: "(string \<Rightarrow> string \<Rightarrow> bool) \<Rightarrow> string \<Rightarrow> bool" where
  "key_value P part \<longleftrightarrow> (case split_once (CHR ''='') part of None \<Rightarrow> False | Some (k, v) \<Rightarrow> P k v)"

definition key_of :: "string \<Rightarrow> string" where
  "key_of part = (case split_once (CHR ''='') part of None \<Rightarrow> [] | Some (k, v) \<Rightarrow> k)"

definition once_each :: "(string \<Rightarrow> string \<Rightarrow> bool) \<Rightarrow> string list \<Rightarrow> bool" where
  "once_each P parts \<longleftrightarrow> list_all (key_value P) parts \<and> distinct (map key_of parts)"

fun upload_query_loop :: "bool \<Rightarrow> bool \<Rightarrow> string list \<Rightarrow> bool" where
  "upload_query_loop state_seen digest_seen [] = (state_seen \<or> digest_seen)"
| "upload_query_loop state_seen digest_seen (part # parts) =
     (case split_once (CHR ''='') part of
        None \<Rightarrow> False
      | Some (key, value) \<Rightarrow>
          if key = ''_state'' \<and> \<not> state_seen \<and> value \<noteq> []
             \<and> \<not> list_ex (\<lambda>byte. is_ascii_control byte \<or> byte = CHR ''#'') value
          then upload_query_loop True digest_seen parts
          else if key = ''digest'' \<and> \<not> digest_seen \<and> is_ok (oci_valid_digest value)
          then upload_query_loop state_seen True parts
          else False)"

definition valid_upload_query :: "string \<Rightarrow> bool" where
  "valid_upload_query query =
     (if query = [] then False else upload_query_loop False False (split_on (CHR ''&'') query))"

definition upload_key_ok :: "string \<Rightarrow> string \<Rightarrow> bool" where
  "upload_key_ok key value \<longleftrightarrow>
     key = ''_state'' \<and> value \<noteq> []
       \<and> \<not> list_ex (\<lambda>byte. is_ascii_control byte \<or> byte = CHR ''#'') value
     \<or> key = ''digest'' \<and> is_ok (oci_valid_digest value)"

lemma upload_key_ok_simps:
  "upload_key_ok ''_state'' v \<longleftrightarrow>
     v \<noteq> [] \<and> \<not> list_ex (\<lambda>byte. is_ascii_control byte \<or> byte = CHR ''#'') v"
  "upload_key_ok ''digest'' v \<longleftrightarrow> is_ok (oci_valid_digest v)"
  "k \<noteq> ''_state'' \<Longrightarrow> k \<noteq> ''digest'' \<Longrightarrow> \<not> upload_key_ok k v"
  by (simp_all add: upload_key_ok_def)

lemma upload_query_loop_iff:
  "upload_query_loop st dg parts \<longleftrightarrow>
     once_each upload_key_ok parts \<and> (st \<longrightarrow> ''_state'' \<notin> key_of ` set parts)
     \<and> (dg \<longrightarrow> ''digest'' \<notin> key_of ` set parts) \<and> (st \<or> dg \<or> parts \<noteq> [])"
proof (induction st dg parts rule: upload_query_loop.induct)
  case (2 st dg part parts)
  show ?case
  proof (cases "split_once (CHR ''='') part")
    case None
    then show ?thesis by (simp add: once_each_def key_value_def)
  next
    case (Some kv)
    obtain k v where kv: "kv = (k, v)" by (cases kv)
    have key: "key_of part = k" and kval: "key_value P part \<longleftrightarrow> P k v" for P
      using Some kv by (simp_all add: key_of_def key_value_def)
    have split: "once_each upload_key_ok (part # parts) \<longleftrightarrow>
        upload_key_ok k v \<and> k \<notin> key_of ` set parts \<and> once_each upload_key_ok parts"
      by (auto simp: once_each_def key kval)
    consider "k = ''_state''" | "k = ''digest''" | "k \<noteq> ''_state''" "k \<noteq> ''digest''" by blast
    then show ?thesis
    proof cases
      case 1
      then have "upload_query_loop st dg (part # parts) \<longleftrightarrow>
          \<not> st \<and> upload_key_ok k v \<and> upload_query_loop True dg parts"
        using Some kv by (simp add: upload_key_ok_simps)
      moreover have "\<not> st \<and> upload_key_ok k v \<Longrightarrow> upload_query_loop True dg parts \<longleftrightarrow>
          once_each upload_key_ok parts \<and> k \<notin> key_of ` set parts
          \<and> (dg \<longrightarrow> ''digest'' \<notin> key_of ` set parts)"
        using "2.IH"(1)[OF Some kv[symmetric]] 1 by (simp add: upload_key_ok_simps)
      ultimately show ?thesis using 1 split by (auto simp: key)
    next
      case 2
      then have "upload_query_loop st dg (part # parts) \<longleftrightarrow>
          \<not> dg \<and> upload_key_ok k v \<and> upload_query_loop st True parts"
        using Some kv by (simp add: upload_key_ok_simps)
      moreover have "\<not> dg \<and> upload_key_ok k v \<Longrightarrow> upload_query_loop st True parts \<longleftrightarrow>
          once_each upload_key_ok parts \<and> k \<notin> key_of ` set parts
          \<and> (st \<longrightarrow> ''_state'' \<notin> key_of ` set parts)"
        using "2.IH"(2)[OF Some kv[symmetric]] 2 by (auto simp: upload_key_ok_simps)
      ultimately show ?thesis using 2 split by (auto simp: key)
    next
      case 3
      then have "\<not> upload_query_loop st dg (part # parts)" "\<not> upload_key_ok k v"
        using Some kv by (simp_all add: upload_key_ok_simps)
      then show ?thesis using split by blast
    qed
  qed
qed (simp add: once_each_def)

lemma valid_upload_query_iff:
  "valid_upload_query query \<longleftrightarrow> once_each upload_key_ok (split_on (CHR ''&'') query)"
proof (cases "query = []")
  case True
  then show ?thesis by (simp add: valid_upload_query_def once_each_def key_value_def)
next
  case False
  then show ?thesis by (simp add: valid_upload_query_def upload_query_loop_iff)
qed

subsection \<open>The location of an upload\<close>

definition unsafe_upload_id :: "string \<Rightarrow> bool" where
  "unsafe_upload_id upload_id \<longleftrightarrow> upload_id = [] \<or> upload_id = ''.'' \<or> upload_id = ''..''
     \<or> contains_any upload_id [SLASH] \<or> \<not> list_all is_ascii upload_id
     \<or> list_ex (\<lambda>byte. \<not> (is_ascii_alphanumeric byte \<or> byte \<in> set ''._-'')) upload_id"

definition upload_prefix :: "string \<Rightarrow> string" where
  "upload_prefix repository = ''/v2/'' @ repository @ ''/blobs/uploads/''"

definition blob_prefix :: "string \<Rightarrow> string" where
  "blob_prefix repository = ''/v2/'' @ repository @ ''/blobs/''"

definition check_location_target :: "string \<Rightarrow> string \<Rightarrow> string option \<Rightarrow> oci_error + unit" where
  "check_location_target repository path query =
     (case strip_prefix (upload_prefix repository) path of
        Some upload_id \<Rightarrow>
          if unsafe_upload_id upload_id
             \<or> (case query of Some q \<Rightarrow> \<not> valid_upload_query q | None \<Rightarrow> False)
          then Err InvalidDescriptor else Ok ()
      | None \<Rightarrow>
          (case strip_prefix (blob_prefix repository) path of
             Some digest \<Rightarrow>
               if query \<noteq> None \<or> \<not> is_ok (oci_valid_digest digest) then Err InvalidDescriptor else Ok ()
           | None \<Rightarrow> Err InvalidDescriptor))"

text \<open>Authorities are compared without regard to case, as the \<open>PartialEq\<close> of \<open>http::uri::Authority\<close> does.\<close>

definition same_authority :: "string option \<Rightarrow> string option \<Rightarrow> bool" where
  "same_authority a b \<longleftrightarrow>
     (case (a, b) of (Some a, Some b) \<Rightarrow> eq_ignore_ascii_case a b | (None, None) \<Rightarrow> True | _ \<Rightarrow> False)"

definition rewrite_distribution_location ::
    "(string \<Rightarrow> uri option) \<Rightarrow> string \<Rightarrow> string \<Rightarrow> string \<Rightarrow> oci_error + string" where
  "rewrite_distribution_location uri_of origin location repository =
     and_then (ok_or InvalidDescriptor (header_to_str location)) (\<lambda>location.
     and_then (ok_or InvalidDescriptor (uri_of location)) (\<lambda>uri.
     and_then
       (case u_scheme uri of
          Some scheme \<Rightarrow>
            and_then (ok_or Configuration (uri_of origin)) (\<lambda>origin.
              if Some scheme \<noteq> u_scheme origin \<or> \<not> same_authority (u_authority uri) (u_authority origin)
              then Err InvalidDescriptor else Ok ())
        | None \<Rightarrow> if u_authority uri \<noteq> None then Err InvalidDescriptor else Ok ()) (\<lambda>_.
     and_then (ok_or InvalidDescriptor (u_path_and_query uri)) (\<lambda>path_and_query.
     and_then (check_location_target repository (fst path_and_query) (snd path_and_query)) (\<lambda>_.
     ok_or InvalidDescriptor (header_value_from (path_and_query_str path_and_query)))))))"

text \<open>The locations the rewriting lets through, as the client sees them.\<close>

definition safe_upload_id :: "string \<Rightarrow> bool" where
  "safe_upload_id upload_id \<longleftrightarrow> upload_id \<noteq> [] \<and> upload_id \<notin> {''.'', ''..''}
     \<and> list_all (\<lambda>byte. is_ascii_alphanumeric byte \<or> byte \<in> set ''._-'') upload_id"

inductive local_target :: "string \<Rightarrow> string \<Rightarrow> string option \<Rightarrow> bool" for repository where
  upload: "safe_upload_id upload_id \<Longrightarrow>
    local_target repository (upload_prefix repository @ upload_id) None"
| upload_query: "safe_upload_id upload_id \<Longrightarrow> once_each upload_key_ok (split_on (CHR ''&'') query) \<Longrightarrow>
    local_target repository (upload_prefix repository @ upload_id) (Some query)"
| blob: "valid_digest digest \<Longrightarrow>
    local_target repository (blob_prefix repository @ digest) None"

inductive_cases local_targetE: "local_target repository path query"

lemma unsafe_upload_id_iff: "unsafe_upload_id s \<longleftrightarrow> \<not> safe_upload_id s"
proof -
  have "is_ascii_alphanumeric c \<or> c \<in> set ''._-'' \<Longrightarrow> is_ascii c \<and> c \<noteq> SLASH" for c
    by (auto simp: byte_defs)
  then show ?thesis
    unfolding unsafe_upload_id_def safe_upload_id_def contains_any_iff list_all_iff list_ex_iff by auto
qed

lemma oci_valid_digest_is_ok: "is_ok (oci_valid_digest v) \<longleftrightarrow> valid_digest v"
proof (cases "strip_prefix ''sha256:'' v")
  case None
  then show ?thesis by (simp add: oci_valid_digest_def valid_digest_def)
next
  case (Some hex)
  have "list_all (\<lambda>b. P b \<and> \<not> Q b) hex \<longleftrightarrow> list_all P hex \<and> \<not> list_ex Q hex" for P Q
    by (induction hex) auto
  then show ?thesis
    unfolding oci_valid_digest_def valid_digest_def Some option.case by simp
qed

lemma oci_valid_digest_Ok: "oci_valid_digest v = Inr d \<longleftrightarrow> valid_digest v \<and> d = v"
proof (cases "oci_valid_digest v")
  case (Inl e)
  then show ?thesis using oci_valid_digest_is_ok[of v] by simp
next
  case (Inr a)
  have "a = v"
  proof (cases "strip_prefix ''sha256:'' v")
    case None
    with Inr show ?thesis unfolding oci_valid_digest_def None option.case by simp
  next
    case (Some hex)
    from Inr show ?thesis unfolding oci_valid_digest_def Some option.case by (simp split: if_split_asm)
  qed
  then show ?thesis using oci_valid_digest_is_ok[of v] Inr by auto
qed

lemma check_location_target_iff:
  "check_location_target repository path query = Ok () \<longleftrightarrow> local_target repository path query"
proof (cases "strip_prefix (upload_prefix repository) path")
  case (Some upload_id)
  then have path: "path = upload_prefix repository @ upload_id"
    by (simp only: strip_prefix_Some_iff)
  have not_blob: "\<not> valid_digest (''uploads/'' @ upload_id)"
    by (simp add: valid_digest_def)
  show ?thesis
  proof
    assume "check_location_target repository path query = Ok ()"
    then have "safe_upload_id upload_id" "query = None \<or> (\<exists>q. query = Some q \<and> valid_upload_query q)"
      using Some by (auto simp: check_location_target_def unsafe_upload_id_iff split: if_splits option.splits)
    then show "local_target repository path query"
      unfolding path by (auto simp: valid_upload_query_iff intro: local_target.intros)
  next
    assume "local_target repository path query"
    then show "check_location_target repository path query = Ok ()"
    proof (cases rule: local_target.cases)
      case (blob digest)
      with path have "digest = ''uploads/'' @ upload_id" by (simp add: upload_prefix_def blob_prefix_def)
      with blob not_blob show ?thesis by simp
    qed (use Some path in \<open>simp_all add: check_location_target_def unsafe_upload_id_iff valid_upload_query_iff\<close>)
  qed
next
  case None
  then have no: "path \<noteq> upload_prefix repository @ u" for u
    by (metis strip_prefix_append option.distinct(1))
  show ?thesis
  proof
    assume "check_location_target repository path query = Ok ()"
    then obtain digest where "strip_prefix (blob_prefix repository) path = Some digest"
      "query = None" "valid_digest digest"
      using None by (auto simp: check_location_target_def oci_valid_digest_is_ok split: if_splits option.splits)
    then show "local_target repository path query"
      by (auto intro: local_target.intros)
  next
    assume "local_target repository path query"
    then show "check_location_target repository path query = Ok ()"
    proof (cases rule: local_target.cases)
      case (blob digest)
      then have "strip_prefix (blob_prefix repository) path = Some digest" by simp
      with blob None show ?thesis by (simp add: check_location_target_def oci_valid_digest_is_ok)
    qed (use no in simp_all)
  qed
qed

end
