(* ===== verification/Blob_Stream.thy ===== *)
theory Blob_Stream
  imports Oci
begin

text \<open>
  \<open>verified_body\<close> of \<open>src/oci.rs\<close>: a blob is passed on chunk by chunk while its size and
  digest are checked. The incoming body is the list of its data chunks, \<open>None\<close> for a transport
  error; the result is the list of items the client-side body yields. The state shared by the
  two closures is the record \<open>verifier\<close>, with the bytes fed to the hasher.
\<close>

record verifier =
  v_hashed :: string
  v_size :: nat
  v_failed :: bool

definition verifier_new :: verifier where
  "verifier_new = \<lparr>v_hashed = [], v_size = 0, v_failed = False\<rparr>"

definition scan_item :: "nat \<Rightarrow> verifier \<Rightarrow> string option \<Rightarrow> verifier \<times> (oci_error + string)" where
  "scan_item expected_size v item =
     (case item of
        Some bytes \<Rightarrow>
          let next_size = saturating_add (v_size v) (length bytes) in
          if v_failed v \<or> next_size > expected_size
          then (v\<lparr>v_failed := True\<rparr>, Err InvalidDescriptor)
          else (v\<lparr>v_hashed := v_hashed v @ bytes, v_size := next_size\<rparr>, Ok bytes)
      | None \<Rightarrow> (v\<lparr>v_failed := True\<rparr>, Err Transport))"

definition final_check :: "(string \<Rightarrow> string) \<Rightarrow> descriptor \<Rightarrow> verifier \<Rightarrow> (oci_error + string) list" where
  "final_check sha d v =
     (if v_failed v \<or> v_size v \<noteq> d_size d then [Err InvalidDescriptor]
      else if ''sha256:'' @ sha (v_hashed v) \<noteq> d_digest d then [Err InvalidDescriptor]
      else [])"

fun scan_stream ::
    "(string \<Rightarrow> string) \<Rightarrow> descriptor \<Rightarrow> verifier \<Rightarrow> string option list \<Rightarrow> (oci_error + string) list" where
  "scan_stream sha d v [] = final_check sha d v"
| "scan_stream sha d v (item # items) =
     (let (v, out) = scan_item (d_size d) v item in out # scan_stream sha d v items)"

definition verified_body ::
    "(string \<Rightarrow> string) \<Rightarrow> string option list \<Rightarrow> descriptor \<Rightarrow> (oci_error + string) list" where
  "verified_body sha body d = scan_stream sha d verifier_new body"

subsection \<open>What the client sees\<close>

text \<open>A reader takes data until the first error.\<close>

fun delivered :: "(oci_error + string) list \<Rightarrow> string" where
  "delivered [] = []"
| "delivered (Inr bytes # items) = bytes @ delivered items"
| "delivered (Inl _ # items) = []"

definition complete :: "(oci_error + string) list \<Rightarrow> bool" where
  "complete items \<longleftrightarrow> list_all is_ok items"

text \<open>The contract: the chunks are the described content.\<close>

definition matches :: "(string \<Rightarrow> string) \<Rightarrow> descriptor \<Rightarrow> string option list \<Rightarrow> bool" where
  "matches sha d body \<longleftrightarrow> list_all (\<lambda>item. item \<noteq> None) body
     \<and> length (concat (map the body)) = d_size d
     \<and> ''sha256:'' @ sha (concat (map the body)) = d_digest d"

definition clean :: "verifier \<Rightarrow> bool" where
  "clean v \<longleftrightarrow> \<not> v_failed v \<and> v_size v = length (v_hashed v)"

lemma scan_item_Some:
  assumes "clean v" "d_size d \<le> MAX_ARTIFACT_BYTES" "v_size v \<le> d_size d"
  shows "scan_item (d_size d) v (Some bytes) =
    (if length (v_hashed v @ bytes) \<le> d_size d
     then (v\<lparr>v_hashed := v_hashed v @ bytes, v_size := length (v_hashed v @ bytes)\<rparr>, Ok bytes)
     else (v\<lparr>v_failed := True\<rparr>, Err InvalidDescriptor))"
proof -
  have "saturating_add (v_size v) (length bytes) > d_size d \<longleftrightarrow> length (v_hashed v @ bytes) > d_size d"
    using assms by (simp add: saturating_add_def clean_def MAX_ARTIFACT_BYTES_def min_def)
  moreover have "length (v_hashed v @ bytes) \<le> d_size d \<Longrightarrow>
      saturating_add (v_size v) (length bytes) = length (v_hashed v @ bytes)"
    using assms by (simp add: saturating_add_def clean_def MAX_ARTIFACT_BYTES_def min_def)
  ultimately show ?thesis using assms(1) by (simp add: scan_item_def clean_def Let_def)
qed

lemma scan_stream_complete:
  assumes "clean v" "d_size d \<le> MAX_ARTIFACT_BYTES" "v_size v \<le> d_size d"
  shows "complete (scan_stream sha d v body) \<longleftrightarrow>
    list_all (\<lambda>item. item \<noteq> None) body
    \<and> length (v_hashed v @ concat (map the body)) = d_size d
    \<and> ''sha256:'' @ sha (v_hashed v @ concat (map the body)) = d_digest d"
  using assms
proof (induction body arbitrary: v)
  case Nil
  then show ?case by (simp add: final_check_def complete_def clean_def)
next
  case (Cons item body)
  show ?case
  proof (cases item)
    case None
    then show ?thesis by (simp add: scan_item_def complete_def)
  next
    case (Some bytes)
    show ?thesis
    proof (cases "length (v_hashed v @ bytes) \<le> d_size d")
      case True
      let ?v = "v\<lparr>v_hashed := v_hashed v @ bytes, v_size := length (v_hashed v @ bytes)\<rparr>"
      have "complete (scan_stream sha d v (item # body)) \<longleftrightarrow> complete (scan_stream sha d ?v body)"
        using scan_item_Some[OF Cons.prems, of bytes] True Some by (simp add: complete_def)
      moreover have "clean ?v" "v_size ?v \<le> d_size d" using Cons.prems True by (simp_all add: clean_def)
      ultimately show ?thesis using Cons.IH[of ?v] Cons.prems(2) Some by simp
    next
      case False
      then show ?thesis
        using scan_item_Some[OF Cons.prems, of bytes] Some by (simp add: complete_def)
    qed
  qed
qed

lemma scan_stream_delivered:
  assumes "clean v" "d_size d \<le> MAX_ARTIFACT_BYTES" "v_size v \<le> d_size d"
  shows "length (v_hashed v @ delivered (scan_stream sha d v body)) \<le> d_size d
    \<and> prefix (delivered (scan_stream sha d v body)) (concat (map the (takeWhile (\<lambda>item. item \<noteq> None) body)))"
  using assms
proof (induction body arbitrary: v)
  case Nil
  then show ?case by (simp add: final_check_def clean_def)
next
  case (Cons item body)
  show ?case
  proof (cases item)
    case None
    with Cons.prems show ?thesis by (simp add: scan_item_def clean_def)
  next
    case (Some bytes)
    show ?thesis
    proof (cases "length (v_hashed v @ bytes) \<le> d_size d")
      case True
      let ?v = "v\<lparr>v_hashed := v_hashed v @ bytes, v_size := length (v_hashed v @ bytes)\<rparr>"
      have "delivered (scan_stream sha d v (item # body)) = bytes @ delivered (scan_stream sha d ?v body)"
        using scan_item_Some[OF Cons.prems, of bytes] True Some by simp
      moreover have "clean ?v" "v_size ?v \<le> d_size d" using Cons.prems True by (simp_all add: clean_def)
      ultimately show ?thesis using Cons.IH[of ?v] Cons.prems(2) Some by simp
    next
      case False
      then show ?thesis
        using scan_item_Some[OF Cons.prems, of bytes] Some Cons.prems by (simp add: clean_def)
    qed
  qed
qed

lemma scan_stream_items:
  assumes "complete (scan_stream sha d v body)"
  shows "scan_stream sha d v body = map (\<lambda>item. Ok (the item)) body"
  using assms
proof (induction body arbitrary: v)
  case Nil
  then show ?case by (auto simp: final_check_def complete_def split: if_splits)
next
  case (Cons item body)
  obtain w out where step: "scan_item (d_size d) v item = (w, out)" by fastforce
  have "is_ok out" using Cons.prems step by (simp add: complete_def)
  then have "out = Ok (the item)"
    using step by (cases item) (auto simp: scan_item_def Let_def split: if_splits)
  with Cons step show ?case by (simp add: complete_def)
qed

lemma verifier_new_clean: "clean verifier_new" "v_size verifier_new = 0" "v_hashed verifier_new = []"
  by (simp_all add: clean_def verifier_new_def)

lemma verified_body_complete:
  "d_size d \<le> MAX_ARTIFACT_BYTES \<Longrightarrow> complete (verified_body sha body d) \<longleftrightarrow> matches sha d body"
  using scan_stream_complete[OF verifier_new_clean(1), of d sha body] verifier_new_clean
  by (simp add: verified_body_def matches_def)

lemma verified_body_delivered:
  "d_size d \<le> MAX_ARTIFACT_BYTES \<Longrightarrow> length (delivered (verified_body sha body d)) \<le> d_size d"
  using scan_stream_delivered[OF verifier_new_clean(1), of d sha body] verifier_new_clean
  by (simp add: verified_body_def)

text \<open>A reader that reaches the end without an error has the described content.\<close>

definition described :: "(string \<Rightarrow> string) \<Rightarrow> string \<Rightarrow> nat \<Rightarrow> (oci_error + string) list \<Rightarrow> bool" where
  "described sha digest sz items \<longleftrightarrow> length (delivered items) \<le> sz
     \<and> (complete items \<longrightarrow> length (delivered items) = sz \<and> ''sha256:'' @ sha (delivered items) = digest)"

lemma delivered_map: "delivered (map (\<lambda>item. Inr (the item)) body) = concat (map the body)"
  by (induction body) simp_all

lemma verified_body_described:
  assumes "d_size d \<le> MAX_ARTIFACT_BYTES"
  shows "described sha (d_digest d) (d_size d) (verified_body sha body d)"
proof -
  have "length (delivered (verified_body sha body d)) = d_size d
      \<and> ''sha256:'' @ sha (delivered (verified_body sha body d)) = d_digest d"
    if c: "complete (verified_body sha body d)"
  proof -
    have "verified_body sha body d = map (\<lambda>item. Ok (the item)) body"
      using scan_stream_items c unfolding verified_body_def by blast
    then have "delivered (verified_body sha body d) = concat (map the body)" by (simp add: delivered_map)
    moreover have "matches sha d body" using verified_body_complete[OF assms] c by simp
    ultimately show ?thesis by (simp add: matches_def)
  qed
  with verified_body_delivered[OF assms] show ?thesis by (simp add: described_def)
qed

subsection \<open>Properties\<close>

text \<open>C18. A blob is delivered completely exactly when it is the described content: the client-side
  body yields no error if and only if no chunk failed, the bytes have the advertised size and
  their SHA-256 digest is the descriptor's; then the chunks are passed on unchanged. Whatever the
  upstream sends, what a reader has seen before an error is a prefix of it and never longer than
  the advertised size.\<close>

theorem verified_body_integrity:
  assumes "d_size d \<le> MAX_ARTIFACT_BYTES"
  shows "(complete (verified_body sha body d) \<longleftrightarrow> matches sha d body)
    \<and> (verified_body sha body d = map (\<lambda>item. Ok (the item)) body \<longleftrightarrow> matches sha d body)
    \<and> length (delivered (verified_body sha body d)) \<le> d_size d
    \<and> prefix (delivered (verified_body sha body d)) (concat (map the (takeWhile (\<lambda>item. item \<noteq> None) body)))"
proof -
  note new = verifier_new_clean
  have iff: "complete (verified_body sha body d) \<longleftrightarrow> matches sha d body"
    by (rule verified_body_complete[OF assms])
  moreover have "complete (map (\<lambda>item. Inr (the item)) body :: (oci_error + string) list)"
    by (simp add: complete_def list_all_iff)
  then have "verified_body sha body d = map (\<lambda>item. Ok (the item)) body \<longleftrightarrow> matches sha d body"
    using iff scan_stream_items[of sha d verifier_new body] unfolding verified_body_def by metis
  ultimately show ?thesis
    using scan_stream_delivered[OF new(1) assms, of sha body] new by (simp add: verified_body_def)
qed

definition sample_sha :: "string \<Rightarrow> string" where
  "sample_sha bytes = replicate 64 (if length bytes = 3 then CHR ''a'' else CHR ''b'')"

theorem verified_body_integrity_witness:
  "matches sample_sha (descriptor_new ''text/html'' (''sha256:'' @ replicate 64 (CHR ''a'')) 3)
     [Some ''ab'', Some ''c'']
   \<and> \<not> complete (verified_body sample_sha [Some ''ab'', Some ''cd'']
        (descriptor_new ''text/html'' (''sha256:'' @ replicate 64 (CHR ''a'')) 3))"
proof -
  let ?d = "descriptor_new ''text/html'' (''sha256:'' @ replicate 64 (CHR ''a'')) 3"
  have size: "d_size ?d \<le> MAX_ARTIFACT_BYTES" by (simp add: descriptor_new_def MAX_ARTIFACT_BYTES_def)
  have "matches sample_sha ?d [Some ''ab'', Some ''c'']" "\<not> matches sample_sha ?d [Some ''ab'', Some ''cd'']"
    by (simp_all add: matches_def sample_sha_def descriptor_new_def)
  then show ?thesis using verified_body_integrity[OF size, of sample_sha] by blast
qed

end
