(* ===== verification/Oci_Requests.thy ===== *)
theory Oci_Requests
  imports Oci_Client Blob_Stream
begin

text \<open>
  The asynchronous operations of \<open>OciClient\<close> in \<open>src/oci.rs\<close>, as interaction trees: sending a
  request, the authorized read with its token exchange, and the reads and writes built on it.
\<close>

subsection \<open>Sending\<close>

definition answer_of :: "outcome \<Rightarrow> oci_error + upstream" where
  "answer_of answer = (case answer of Elapsed \<Rightarrow> Err OciTimeout | Unreachable \<Rightarrow> Err Transport
     | Answered response \<Rightarrow> Ok response)"

definition request_headers :: "string \<Rightarrow> string option \<Rightarrow> header_map" where
  "request_headers accept authorization =
     (''accept'', accept) # (case authorization of None \<Rightarrow> [] | Some v \<Rightarrow> [(''authorization'', v)])"

definition send_request :: "string \<Rightarrow> string \<Rightarrow> string \<Rightarrow> string option \<Rightarrow> (oci_error + upstream) io" where
  "send_request method uri accept authorization =
     lift_io (ok_or Configuration (header_value_from accept)) (\<lambda>accept.
       Send \<lparr>out_method = method, out_uri = uri,
              out_headers = request_headers accept authorization, out_body = []\<rparr>
         (\<lambda>answer. Return (answer_of answer)))"

text \<open>\<open>Limited::new(body, limit).collect()\<close> under the deadline.\<close>

datatype collected = Timed_out | Failed | Collected string

fun collect_loop :: "nat \<Rightarrow> bool \<Rightarrow> string \<Rightarrow> string option list \<Rightarrow> collected" where
  "collect_loop remaining stalls acc [] = (if stalls then Timed_out else Collected acc)"
| "collect_loop remaining stalls acc (None # items) = Failed"
| "collect_loop remaining stalls acc (Some chunk # items) =
     (if length chunk > remaining then Failed
      else collect_loop (remaining - length chunk) stalls (acc @ chunk) items)"

definition collect_limited :: "nat \<Rightarrow> upstream \<Rightarrow> collected" where
  "collect_limited limit response = collect_loop limit (up_stalls response) [] (up_body response)"

lemma collect_loop_Collected:
  "collect_loop n stalls acc items = Collected bytes \<longleftrightarrow>
     \<not> stalls \<and> list_all (\<lambda>item. item \<noteq> None) items \<and> bytes = acc @ concat (map the items)
     \<and> length (concat (map the items)) \<le> n"
proof (induction n stalls acc items rule: collect_loop.induct)
  case (3 n stalls acc chunk items)
  then show ?case by (cases "length chunk > n") auto
qed auto

lemma collect_limited_Collected:
  "collect_limited limit response = Collected bytes \<longleftrightarrow>
     \<not> up_stalls response \<and> list_all (\<lambda>item. item \<noteq> None) (up_body response)
     \<and> bytes = concat (map the (up_body response)) \<and> length bytes \<le> limit"
  by (auto simp: collect_limited_def collect_loop_Collected)

subsection \<open>The authorized read\<close>

definition token_uri :: "bearer_challenge \<Rightarrow> string \<Rightarrow> string" where
  "token_uri challenge repository =
     bc_realm challenge @ ''?service='' @ bc_service challenge @ ''&scope=repository:''
     @ repository @ '':pull''"

definition token_of :: "library \<Rightarrow> upstream \<Rightarrow> (string \<times> nat option) option" where
  "token_of lib response =
     (if up_status response \<noteq> 200 then None
      else (case collect_limited (64 * 1024) response of
        Collected bytes \<Rightarrow>
          Option.bind (lib_token_json lib bytes) (\<lambda>token.
          Option.bind (case tr_token token of Some t \<Rightarrow> Some t | None \<Rightarrow> tr_access_token token) (\<lambda>t.
          map_option (\<lambda>authorization. (authorization, tr_expires_in token)) (bearer_authorization t)))
      | _ \<Rightarrow> None))"

definition exchange_token ::
    "library \<Rightarrow> client \<Rightarrow> bearer_challenge \<Rightarrow> string \<Rightarrow> ((string \<times> nat option) option) io" where
  "exchange_token lib c challenge repository =
     (case Option.bind (cl_credentials c) (basic_authorization (lib_base64 lib)) of
        None \<Rightarrow> Return None
      | Some authorization \<Rightarrow>
          (case lib_uri lib (token_uri challenge repository) of
             None \<Rightarrow> Return None
           | Some _ \<Rightarrow>
               bind_io (send_request ''GET'' (token_uri challenge repository) ''application/json'' (Some authorization))
                 (\<lambda>r. case r of Inl _ \<Rightarrow> Return None | Inr response \<Rightarrow> Return (token_of lib response))))"

definition expect_err :: "oci_error + unit \<Rightarrow> oci_error" where
  "expect_err r = (case r of Inl e \<Rightarrow> e | Inr _ \<Rightarrow> undefined)"

definition checked :: "upstream \<Rightarrow> (oci_error + upstream) io" where
  "checked response = Return (and_then (classify_response response) (\<lambda>_. Ok response))"

definition upstream_uri :: "client \<Rightarrow> string \<Rightarrow> string \<Rightarrow> string" where
  "upstream_uri c repository path = cl_origin c @ ''/v2/'' @ repository @ path"

text \<open>The part after an unauthorized answer to a read with the broker's credentials.\<close>

definition retry_with_token ::
    "library \<Rightarrow> client \<Rightarrow> string \<Rightarrow> string \<Rightarrow> string \<Rightarrow> string \<Rightarrow> upstream \<Rightarrow> (oci_error + upstream) io" where
  "retry_with_token lib c method repository uri accept response =
     (let original_unauthorized = expect_err (classify_response response) in
      case find_bearer_challenge (header_get_all (up_headers response) ''www-authenticate'') (cl_origin c) of
        None \<Rightarrow> Return (Err original_unauthorized)
      | Some challenge \<Rightarrow>
          bind_io (exchange_token lib c challenge repository) (\<lambda>exchanged. case exchanged of
            None \<Rightarrow> Return (Err original_unauthorized)
          | Some (token, expires_in) \<Rightarrow>
              try_io (send_request method uri accept (Some token)) (\<lambda>retry.
                if up_status retry = 401 then Return (Err (expect_err (classify_response retry)))
                else lift_io (classify_response retry) (\<lambda>_.
                  Cache_insert repository token expires_in (Return (Ok retry))))))"

definition request_response_method ::
    "library \<Rightarrow> client \<Rightarrow> string \<Rightarrow> string \<Rightarrow> string \<Rightarrow> string \<Rightarrow> string option \<Rightarrow> (oci_error + upstream) io" where
  "request_response_method lib c method repository path accept authorization =
     (let uri = upstream_uri c repository path in
      lift_io (ok_or Configuration (lib_uri lib uri)) (\<lambda>_.
        if authorization \<noteq> None \<or> cl_credentials c = None
        then try_io (send_request method uri accept authorization) checked
        else Cache_get repository (\<lambda>cached.
          try_io (send_request method uri accept cached) (\<lambda>response.
            if up_status response \<noteq> 401 then checked response
            else
              let continue = retry_with_token lib c method repository uri accept response in
              if cached \<noteq> None then Cache_remove repository continue else continue))))"

definition request_response ::
    "library \<Rightarrow> client \<Rightarrow> string \<Rightarrow> string \<Rightarrow> string \<Rightarrow> string option \<Rightarrow> (oci_error + upstream) io" where
  "request_response lib c repository path accept authorization =
     request_response_method lib c ''GET'' repository path accept authorization"

subsection \<open>Reads\<close>

definition get_json ::
    "library \<Rightarrow> client \<Rightarrow> string \<Rightarrow> string \<Rightarrow> string \<Rightarrow> string option \<Rightarrow> (oci_error + string) io" where
  "get_json lib c repository reference accept authorization =
     try_io (request_response lib c repository (''/manifests/'' @ reference) accept authorization)
       (\<lambda>response. Return (case collect_limited MAX_METADATA_BYTES response of
          Timed_out \<Rightarrow> Err OciTimeout | Failed \<Rightarrow> Err InvalidLayout | Collected bytes \<Rightarrow> Ok bytes))"

definition bad_reference :: "string \<Rightarrow> bool" where
  "bad_reference reference \<longleftrightarrow> reference = [] \<or> length reference > 256 \<or> \<not> list_all is_ascii reference
     \<or> contains_any reference [SLASH, CHR ''?'', CHR ''#'', CHR ''%'', BACKSLASH]"

definition manifest_bytes ::
    "library \<Rightarrow> client \<Rightarrow> string \<Rightarrow> string \<Rightarrow> string option \<Rightarrow> (oci_error + string) io" where
  "manifest_bytes lib c repository reference authorization =
     (if bad_reference reference then Return (Err InvalidDescriptor)
      else get_json lib c repository reference MANIFEST_MEDIA_TYPE authorization)"

definition manifest_head ::
    "library \<Rightarrow> client \<Rightarrow> string \<Rightarrow> string \<Rightarrow> string option \<Rightarrow> (oci_error + header_map) io" where
  "manifest_head lib c repository reference authorization =
     (if bad_reference reference then Return (Err InvalidDescriptor)
      else try_io (request_response_method lib c ''HEAD'' repository (''/manifests/'' @ reference)
          MANIFEST_MEDIA_TYPE authorization)
        (\<lambda>response. Return (and_then (check_response_length response MAX_METADATA_BYTES)
           (\<lambda>_. Ok (up_headers response)))))"

definition blob_head ::
    "library \<Rightarrow> client \<Rightarrow> string \<Rightarrow> string \<Rightarrow> string option \<Rightarrow> (oci_error + header_map) io" where
  "blob_head lib c repository digest authorization =
     lift_io (oci_valid_digest digest) (\<lambda>digest.
     try_io (request_response_method lib c ''HEAD'' repository (''/blobs/'' @ digest)
         ''application/octet-stream'' authorization)
       (\<lambda>response. Return (and_then (check_response_length response MAX_ARTIFACT_BYTES)
          (\<lambda>_. Ok (up_headers response)))))"

text \<open>A blob body is the list of the items the reader sees, from \<open>verified_body\<close>.\<close>

type_synonym blob_body = "(oci_error + string) list"

definition blob_by_digest ::
    "library \<Rightarrow> client \<Rightarrow> string \<Rightarrow> string \<Rightarrow> string option
     \<Rightarrow> (oci_error + (blob_body \<times> nat \<times> string)) io" where
  "blob_by_digest lib c repository digest authorization =
     lift_io (oci_valid_digest digest) (\<lambda>digest.
     try_io (request_response lib c repository (''/blobs/'' @ digest) ''application/octet-stream'' authorization)
       (\<lambda>response.
         lift_io (ok_or InvalidDescriptor (content_length (up_headers response) MAX_ARTIFACT_BYTES)) (\<lambda>sz.
         let media_type = (case Option.bind (header_get (up_headers response) ''content-type'') header_to_str of
               Some v \<Rightarrow> v | None \<Rightarrow> ''application/octet-stream'')
         in Return (Ok (verified_body (lib_sha256 lib) (up_body response)
              (descriptor_new media_type digest sz), sz, media_type)))))"

definition blob ::
    "library \<Rightarrow> client \<Rightarrow> string \<Rightarrow> descriptor \<Rightarrow> string option \<Rightarrow> (oci_error + blob_body) io" where
  "blob lib c repository d authorization =
     lift_io (validate_descriptor d) (\<lambda>_.
     lift_io (oci_valid_digest (d_digest d)) (\<lambda>digest.
     try_io (request_response lib c repository (''/blobs/'' @ digest) (d_media_type d) authorization)
       (\<lambda>response. Return (Ok (verified_body (lib_sha256 lib) (up_body response) d)))))"

definition get_blob_bytes ::
    "library \<Rightarrow> client \<Rightarrow> string \<Rightarrow> descriptor \<Rightarrow> string option \<Rightarrow> (oci_error + string) io" where
  "get_blob_bytes lib c repository d authorization =
     lift_io (validate_descriptor d) (\<lambda>_.
     lift_io (oci_valid_digest (d_digest d)) (\<lambda>digest.
     try_io (request_response lib c repository (''/blobs/'' @ digest) (d_media_type d) authorization)
       (\<lambda>response.
         lift_io (ok_or InvalidDescriptor
             (case checked_add (d_size d) 1 of
                Some n \<Rightarrow> if n \<le> MAX_ARTIFACT_BYTES + 1 then Some n else None | None \<Rightarrow> None)) (\<lambda>limit.
         lift_io (case collect_limited limit response of
             Timed_out \<Rightarrow> Err OciTimeout | Failed \<Rightarrow> Err InvalidDescriptor | Collected bytes \<Rightarrow> Ok bytes) (\<lambda>bytes.
         lift_io (verify_descriptor (lib_sha256 lib) d bytes) (\<lambda>_. Return (Ok bytes)))))))"

definition autoindex_snapshot_io ::
    "library \<Rightarrow> client \<Rightarrow> string \<Rightarrow> string option \<Rightarrow> (oci_error + autoindex_snapshot) io" where
  "autoindex_snapshot_io lib c repository authorization =
     try_io (get_json lib c repository AUTO_INDEX_REFERENCE MANIFEST_MEDIA_TYPE authorization)
       (\<lambda>bytes. Return (parse_autoindex_manifest (lib_manifest_json lib) bytes))"

definition snapshot_io ::
    "library \<Rightarrow> client \<Rightarrow> string \<Rightarrow> string option \<Rightarrow> (oci_error + snapshot) io" where
  "snapshot_io lib c repository authorization =
     try_io (get_json lib c repository LAYOUT_REFERENCE MANIFEST_MEDIA_TYPE authorization) (\<lambda>bytes.
     lift_io (ok_or InvalidLayout (lib_manifest_json lib bytes)) (\<lambda>m.
     lift_io (validate_manifest m) (\<lambda>_.
     try_io (get_blob_bytes lib c repository (m_config m) authorization) (\<lambda>config.
     lift_io (verify_descriptor (lib_sha256 lib) (m_config m) config) (\<lambda>_.
     lift_io (validate_config (lib_config_json lib) config) (\<lambda>_.
     try_io (get_blob_bytes lib c repository (m_layers m ! 0) authorization) (\<lambda>map_bytes.
     lift_io (verify_descriptor (lib_sha256 lib) (m_layers m ! 0) map_bytes) (\<lambda>_.
     Return (parse_route_map (lib_route_map_json lib) map_bytes)))))))))"

subsection \<open>Writes\<close>

definition FORWARDED_HEADERS :: "string list" where
  "FORWARDED_HEADERS = [''accept'', ''content-type'', ''content-length'', ''content-range'', ''if-match'',
     ''if-none-match'', ''if-unmodified-since'', ''if-modified-since'', ''digest'', ''oci-chunk-min-length'']"

definition forwarded_headers :: "header_map \<Rightarrow> string option \<Rightarrow> header_map" where
  "forwarded_headers headers authorization =
     concat (map (\<lambda>name. case header_get headers name of Some v \<Rightarrow> [(name, v)] | None \<Rightarrow> [])
       FORWARDED_HEADERS)
     @ (case authorization of None \<Rightarrow> [] | Some v \<Rightarrow> [(''authorization'', v)])"

definition rewritten_response :: "library \<Rightarrow> client \<Rightarrow> string \<Rightarrow> upstream \<Rightarrow> oci_error + upstream" where
  "rewritten_response lib c repository response =
     (case header_get (up_headers response) ''location'' of
        None \<Rightarrow> Ok response
      | Some location \<Rightarrow>
          and_then (rewrite_distribution_location (lib_uri lib) (cl_origin c) location repository)
            (\<lambda>rewritten. Ok (response\<lparr>up_headers := header_insert (up_headers response) ''location'' rewritten\<rparr>)))"

definition is_success :: "nat \<Rightarrow> bool" where
  "is_success status \<longleftrightarrow> 200 \<le> status \<and> status < 300"

definition forward_distribution ::
    "library \<Rightarrow> client \<Rightarrow> string \<Rightarrow> request \<Rightarrow> string option list \<Rightarrow> string \<Rightarrow> string option
     \<Rightarrow> (oci_error + upstream) io" where
  "forward_distribution lib c path request body repository authorization =
     (let uri = upstream_uri c repository
                  (path @ (case req_query request of None \<Rightarrow> [] | Some query \<Rightarrow> ''?'' @ query)) in
      lift_io (ok_or Configuration (lib_uri lib uri)) (\<lambda>_.
      Send \<lparr>out_method = req_method request, out_uri = uri,
             out_headers = forwarded_headers (req_headers request) authorization, out_body = body\<rparr>
        (\<lambda>answer. lift_io (answer_of answer) (\<lambda>response.
           lift_io (if \<not> is_success (up_status response) then classify_response response else Ok ()) (\<lambda>_.
           Return (rewritten_response lib c repository response))))))"

subsection \<open>What a read may do\<close>

definition read_request :: "string \<Rightarrow> string \<Rightarrow> string \<Rightarrow> string option \<Rightarrow> outgoing" where
  "read_request method uri accept authorization =
     \<lparr>out_method = method, out_uri = uri, out_headers = request_headers accept authorization, out_body = []\<rparr>"

definition carries :: "outgoing \<Rightarrow> string option \<Rightarrow> bool" where
  "carries q v \<longleftrightarrow> header_get_all (out_headers q) ''authorization'' = (case v of None \<Rightarrow> [] | Some x \<Rightarrow> [x])"

lemma carries_read_request [simp]: "carries (read_request method uri accept v) w \<longleftrightarrow> v = w"
  by (cases v; cases w) (auto simp: carries_def read_request_def request_headers_def header_get_all_def)

lemma read_request_simps [simp]:
  "out_method (read_request method uri accept v) = method"
  "out_uri (read_request method uri accept v) = uri"
  by (simp_all add: read_request_def)

lemma send_request_eq:
  "send_request method uri accept v =
     (if header_value_from accept = None then Return (Err Configuration)
      else Send (read_request method uri accept v) (\<lambda>x. Return (answer_of x)))"
  by (simp add: send_request_def read_request_def header_value_from_def)

lemma try_send_request:
  "try_io (send_request method uri accept v) f =
     (if header_value_from accept = None then Return (Err Configuration)
      else Send (read_request method uri accept v) (\<lambda>x. lift_io (answer_of x) f))"
  by (simp add: send_request_eq try_io_def)

lemma always_lift:
  "(\<And>a. r = Inr a \<Longrightarrow> always P (f a) past) \<Longrightarrow> always P (lift_io r f) past"
  by (cases r) simp_all

text \<open>The token endpoints a challenge of the origin can name.\<close>

definition token_endpoint :: "client \<Rightarrow> string \<Rightarrow> string \<Rightarrow> bool" where
  "token_endpoint c repository uri \<longleftrightarrow> (\<exists>path service.
     uri = cl_origin c @ path @ ''?service='' @ service @ ''&scope=repository:'' @ repository @ '':pull''
     \<and> prefix ''/'' path \<and> \<not> contains_any path [CHR ''?'', CHR ''#'', BACKSLASH]
     \<and> \<not> list_ex is_ascii_control path \<and> service_is_safe service)"

text \<open>
  What a request handled for \<open>repository\<close> with the client's method \<open>m\<close> and \<open>authorization\<close> may do, in
  view of what it did before: it reads, or uses the client's own method; it talks to the repository under the origin, with the client's authorization or
  none; with a broker and no authorization of the client it may present the token it has just
  looked up, exchange the broker's credentials at a token endpoint of the origin after a 401,
  present the token it has just been given, and store that token once the upstream has answered
  200 to it.
\<close>

inductive policy ::
    "library \<Rightarrow> client \<Rightarrow> string \<Rightarrow> string \<Rightarrow> string option \<Rightarrow> event list \<Rightarrow> event \<Rightarrow> bool"
  for lib c repository m authorization where
  direct: "out_method q \<in> {''GET'', ''HEAD'', m} \<Longrightarrow> out_uri q = upstream_uri c repository path \<Longrightarrow>
    carries q authorization \<Longrightarrow>
    policy lib c repository m authorization past (Sent q x)"
| look_up: "authorization = None \<Longrightarrow> cl_credentials c \<noteq> None \<Longrightarrow>
    policy lib c repository m authorization past (Looked_up repository found)"
| cached: "authorization = None \<Longrightarrow> out_method q \<in> {''GET'', ''HEAD''} \<Longrightarrow> out_uri q = upstream_uri c repository path \<Longrightarrow> carries q (Some v) \<Longrightarrow>
    policy lib c repository m authorization (past @ [Looked_up repository (Some v)]) (Sent q x)"
| discard: "authorization = None \<Longrightarrow> up_status response = 401 \<Longrightarrow>
    policy lib c repository m authorization
      (past @ [Looked_up repository (Some v), Sent q (Answered response)]) (Removed repository)"
| exchange: "authorization = None \<Longrightarrow> cl_credentials c = Some credentials \<Longrightarrow>
    basic_authorization (lib_base64 lib) credentials = Some b \<Longrightarrow> out_method q = ''GET'' \<Longrightarrow>
    token_endpoint c repository (out_uri q) \<Longrightarrow> carries q (Some b) \<Longrightarrow>
    Sent r (Answered response) \<in> set past \<Longrightarrow> up_status response = 401 \<Longrightarrow>
    policy lib c repository m authorization past (Sent q x)"
| retry: "authorization = None \<Longrightarrow> out_method q \<in> {''GET'', ''HEAD''} \<Longrightarrow> out_uri q = upstream_uri c repository path \<Longrightarrow>
    token_of lib response = Some (token, expires_in) \<Longrightarrow> carries q (Some token) \<Longrightarrow>
    policy lib c repository m authorization (past @ [Sent r (Answered response)]) (Sent q x)"
| store: "authorization = None \<Longrightarrow> out_uri q = upstream_uri c repository path \<Longrightarrow>
    token_of lib response = Some (token, expires_in) \<Longrightarrow> carries q (Some token) \<Longrightarrow>
    up_status accepted = 200 \<Longrightarrow>
    policy lib c repository m authorization (past @ [Sent r (Answered response), Sent q (Answered accepted)])
      (Inserted repository token expires_in)"

lemma challenge_endpoint:
  assumes "find_bearer_challenge received (cl_origin c) = Some challenge"
  shows "token_endpoint c repository (token_uri challenge repository)"
  using assms
proof (induction received "cl_origin c" rule: find_bearer_challenge.induct)
  case (2 v vs)
  show ?case
  proof (cases "header_to_str v")
    case None
    with 2 show ?thesis by simp
  next
    case (Some w)
    show ?thesis
    proof (cases "usable_challenge (cl_origin c) w")
      case None
      with 2 Some show ?thesis by simp
    next
      case (Some d)
      with 2(2) \<open>header_to_str v = Some w\<close> have u: "usable_challenge (cl_origin c) w = Some challenge" by simp
      then obtain path where "bc_realm challenge = cl_origin c @ path" "starts_with path ''/''"
        "\<not> contains_any path [CHR ''?'', CHR ''#'', BACKSLASH]" "\<not> list_ex is_ascii_control path"
        "service_is_safe (bc_service challenge)"
        unfolding usable_challenge_def by (auto split: if_splits option.splits)
      then show ?thesis unfolding token_endpoint_def token_uri_def
        by (intro exI[of _ path] exI[of _ "bc_service challenge"]) simp
    qed
  qed
qed simp

lemma answer_of_Ok [simp]: "answer_of x = Inr response \<longleftrightarrow> x = Answered response"
  by (cases x) (simp_all add: answer_of_def)

lemma answer_of_simps [simp]: "answer_of (Answered r) = Inr r" "answer_of Elapsed = Inl OciTimeout"
    "answer_of Unreachable = Inl Transport"
  by (simp_all add: answer_of_def)

lemma always_exchange:
  assumes sent: "\<And>credentials b q x. cl_credentials c = Some credentials \<Longrightarrow>
      basic_authorization (lib_base64 lib) credentials = Some b \<Longrightarrow>
      q = read_request ''GET'' (token_uri challenge repository) ''application/json'' (Some b) \<Longrightarrow>
      P past (Sent q x)"
    and fail: "\<And>past. always P (f None) past"
    and got: "\<And>q reply te. token_of lib reply = Some te \<Longrightarrow> always P (f (Some te)) (past @ [Sent q (Answered reply)])"
  shows "always P (bind_io (exchange_token lib c challenge repository) f) past"
proof (cases "Option.bind (cl_credentials c) (basic_authorization (lib_base64 lib))")
  case None
  then show ?thesis using fail by (simp add: exchange_token_def)
next
  case (Some b)
  then obtain credentials where cred: "cl_credentials c = Some credentials"
    and b: "basic_authorization (lib_base64 lib) credentials = Some b"
    by (cases "cl_credentials c") auto
  define q where "q = read_request ''GET'' (token_uri challenge repository) ''application/json'' (Some b)"
  have step: "always P (f (case answer_of x of Inl _ \<Rightarrow> None | Inr response \<Rightarrow> token_of lib response)) (past @ [Sent q x])" for x
  proof (cases "answer_of x")
    case (Inr reply)
    then show ?thesis using fail got by (cases "token_of lib reply") auto
  qed (simp add: fail)
  define app where "app = ''application/json''"
  have app: "header_value_from app \<noteq> None" unfolding app_def by code_simp
  have "exchange_token lib c challenge repository =
    (case lib_uri lib (token_uri challenge repository) of None \<Rightarrow> Return None
     | Some _ \<Rightarrow> Send q (\<lambda>x. Return (case answer_of x of Inl _ \<Rightarrow> None | Inr response \<Rightarrow> token_of lib response)))"
    unfolding exchange_token_def Some option.case q_def app_def[symmetric] send_request_eq
    using app by (auto split: option.split sum.split)
  then show ?thesis
    using fail step sent[OF cred b q_def] by (auto split: option.split)
qed

lemma always_retry_with_token:
  assumes auth: "authorization = None" and past: "Sent r (Answered response) \<in> set past"
    and status: "up_status response = 401" and get: "method \<in> {''GET'', ''HEAD''}"
  shows "always (policy lib c repository m authorization)
    (retry_with_token lib c method repository (upstream_uri c repository path) accept response) past"
proof (cases "find_bearer_challenge (header_get_all (up_headers response) ''www-authenticate'') (cl_origin c)")
  case None
  then show ?thesis by (simp add: retry_with_token_def Let_def)
next
  case (Some challenge)
  let ?P = "policy lib c repository m authorization" and ?u = "upstream_uri c repository path"
  have got: "always ?P (try_io (send_request method ?u accept (Some token)) (\<lambda>retry.
      if up_status retry = 401 then Return (Err (expect_err (classify_response retry)))
      else lift_io (classify_response retry) (\<lambda>_.
        Cache_insert repository token expires_in (Return (Ok retry))))) (past @ [Sent q (Answered reply)])"
    if token: "token_of lib reply = Some (token, expires_in)" for q reply token expires_in
  proof -
    let ?q = "read_request method ?u accept (Some token)"
    have sent: "?P (past @ [Sent q (Answered reply)]) (Sent ?q y)" for y
      by (rule policy.retry[OF auth _ _ token, where path = path]) (use get in simp_all)
    have "?P ((past @ [Sent q (Answered reply)]) @ [Sent ?q (Answered ok)]) (Inserted repository token expires_in)"
      if "up_status ok = 200" for ok
      unfolding append_assoc append_Cons append_Nil
      by (rule policy.store[OF auth _ token _ that, where path = path]) simp_all
    with sent show ?thesis
      unfolding try_send_request by (auto intro!: always_lift simp del: append_assoc)
  qed
  have "?P past (Sent (read_request ''GET'' (token_uri challenge repository) accepts (Some b)) x)"
    if "cl_credentials c = Some credentials" "basic_authorization (lib_base64 lib) credentials = Some b"
    for credentials b accepts x
    by (rule policy.exchange[OF auth that _ _ _ past status]) (simp_all add: challenge_endpoint[OF Some])
  then show ?thesis
    unfolding retry_with_token_def Let_def Some option.case
    by (intro always_exchange) (auto intro: got split: option.splits)
qed

lemma obeys_request_response_method:
  assumes get: "method \<in> {''GET'', ''HEAD''}"
  shows "obeys (policy lib c repository m authorization)
     (request_response_method lib c method repository path accept authorization)"
  unfolding obeys_def
proof
  fix past
  let ?P = "policy lib c repository m authorization" and ?u = "upstream_uri c repository path"
  show "always ?P (request_response_method lib c method repository path accept authorization) past"
  proof (cases "authorization \<noteq> None \<or> cl_credentials c = None")
    case True
    have "?P past (Sent (read_request method ?u accept authorization) x)" for x
      by (rule policy.direct[where path = path]) (use get in auto)
    with True show ?thesis
      by (auto simp: request_response_method_def Let_def try_send_request checked_def intro!: always_lift)
  next
    case False
    then have none: "authorization = None" and broker: "cl_credentials c \<noteq> None" by simp_all
    have look: "?P past (Looked_up repository found)" for found
      by (rule policy.look_up[OF none broker])
    have sent: "?P (past @ [Looked_up repository found]) (Sent (read_request method ?u accept found) x)" for found x
    proof (cases found)
      case None
      then show ?thesis using none get by (intro policy.direct[where path = path]) auto
    next
      case (Some v)
      show ?thesis unfolding Some by (rule policy.cached[OF none, where path = path]) (use get in simp_all)
    qed
    have removed: "?P (past @ [Looked_up repository (Some v), Sent q (Answered r)]) (Removed repository)"
      if "up_status r = 401" for v q r by (rule policy.discard[OF none that])
    have fetched: "always ?P (lift_io (answer_of x) (\<lambda>response.
        if up_status response \<noteq> 401 then checked response
        else if found \<noteq> None
          then Cache_remove repository (retry_with_token lib c method repository ?u accept response)
          else retry_with_token lib c method repository ?u accept response))
        (past @ [Looked_up repository found, Sent (read_request method ?u accept found) x])" for found x
    proof (rule always_lift, goal_cases)
      case (1 response)
      then have x: "x = Answered response" by simp
      have retried: "always ?P (retry_with_token lib c method repository ?u accept response)
          (past @ l # Sent q (Answered response) # rest)" if "up_status response = 401" for l q rest
        by (rule always_retry_with_token[OF none, of q response]) (use that get in simp_all)
      show ?case using removed[of response] by (auto simp: checked_def x intro: retried)
    qed
    have "always ?P (try_io (send_request method ?u accept found) (\<lambda>response.
        if up_status response \<noteq> 401 then checked response
        else if found \<noteq> None
          then Cache_remove repository (retry_with_token lib c method repository ?u accept response)
          else retry_with_token lib c method repository ?u accept response))
        (past @ [Looked_up repository found])" for found
      using sent[of found] fetched[of _ found] by (simp add: try_send_request)
    with look False show ?thesis
      unfolding request_response_method_def Let_def by (intro always_lift) auto
  qed
qed


text \<open>The operations built on it keep to the policy.\<close>

lemmas obeys_intros = obeys_try obeys_lift obeys_request_response_method

lemma obeys_get_json: "obeys (policy lib c repository m v) (get_json lib c repository reference accept v)"
  unfolding get_json_def request_response_def by (intro obeys_intros) simp_all

lemma obeys_reads:
  "obeys (policy lib c repository m v) (manifest_bytes lib c repository reference v)"
  "obeys (policy lib c repository m v) (manifest_head lib c repository reference v)"
  "obeys (policy lib c repository m v) (blob_head lib c repository digest v)"
  "obeys (policy lib c repository m v) (blob_by_digest lib c repository digest v)"
  "obeys (policy lib c repository m v) (blob lib c repository d v)"
  "obeys (policy lib c repository m v) (get_blob_bytes lib c repository d v)"
  "obeys (policy lib c repository m v) (autoindex_snapshot_io lib c repository v)"
proof -
  show "obeys (policy lib c repository m v) (manifest_bytes lib c repository reference v)"
    unfolding manifest_bytes_def by (simp add: obeys_get_json)
  show "obeys (policy lib c repository m v) (manifest_head lib c repository reference v)"
    unfolding manifest_head_def by (cases "bad_reference reference") (auto intro!: obeys_intros)
  show "obeys (policy lib c repository m v) (blob_head lib c repository digest v)"
    unfolding blob_head_def by (intro obeys_intros) simp_all
  show "obeys (policy lib c repository m v) (blob_by_digest lib c repository digest v)"
    unfolding blob_by_digest_def request_response_def Let_def by (intro obeys_intros) simp_all
  show "obeys (policy lib c repository m v) (blob lib c repository d v)"
    unfolding blob_def request_response_def by (intro obeys_intros) simp_all
  show "obeys (policy lib c repository m v) (get_blob_bytes lib c repository d v)"
    unfolding get_blob_bytes_def request_response_def by (intro obeys_intros) simp_all
  show "obeys (policy lib c repository m v) (autoindex_snapshot_io lib c repository v)"
    unfolding autoindex_snapshot_io_def by (intro obeys_try obeys_get_json) simp
qed

lemma obeys_snapshot: "obeys (policy lib c repository m v) (snapshot_io lib c repository v)"
  unfolding snapshot_io_def by (intro obeys_try obeys_lift obeys_get_json obeys_reads) simp

lemma obeys_forward_distribution:
  assumes "list_all (\<lambda>name. name \<noteq> ''authorization'') FORWARDED_HEADERS"
  shows "obeys (policy lib c repository (req_method request) v) (forward_distribution lib c path request body repository v)"
proof -
  have none: "header_get_all (concat (map (\<lambda>name. case header_get headers name of Some v \<Rightarrow> [(name, v)] | None \<Rightarrow> []) names))
      ''authorization'' = []" if "list_all (\<lambda>name. name \<noteq> ''authorization'') names" for headers names
    using that by (induction names) (auto simp: header_get_all_def split: option.split)
  have "header_get_all (forwarded_headers headers v) ''authorization'' = (case v of None \<Rightarrow> [] | Some x \<Rightarrow> [x])" for headers
    using none[OF assms, of headers] by (cases v) (simp_all add: forwarded_headers_def header_get_all_def)
  then have "policy lib c repository (req_method request) v past (Sent \<lparr>out_method = req_method request,
      out_uri = upstream_uri c repository path', out_headers = forwarded_headers (req_headers request) v,
      out_body = body\<rparr> x)" for past x path'
    by (intro policy.direct[where path = path']) (simp_all add: carries_def)
  then show ?thesis unfolding forward_distribution_def Let_def
    by (intro obeys_lift) (auto simp: obeys_def intro!: always_lift)
qed

subsection \<open>Bounds\<close>

lemma bounds_exchange: "within (exchange_token lib c challenge repository) 1"
    "sends (exchange_token lib c challenge repository) 1"
  by (auto simp: exchange_token_def send_request_eq split: option.split sum.split)

lemma bounds_send: "within (send_request method uri accept v) 1" "sends (send_request method uri accept v) 1"
  by (simp_all add: send_request_eq)

lemma bounds_retry:
  "within (retry_with_token lib c method repository uri accept response) 3"
  "sends (retry_with_token lib c method repository uri accept response) 2"
proof -
  have "within (try_io (send_request method uri accept (Some token)) (\<lambda>retry.
      if up_status retry = 401 then Return (Err (expect_err (classify_response retry)))
      else lift_io (classify_response retry) (\<lambda>_. Cache_insert repository token expires_in (Return (Ok retry)))))
      (1 + 1)" for token expires_in
    by (intro within_try bounds_send) (auto intro: within_lift)
  moreover have "sends (try_io (send_request method uri accept (Some token)) (\<lambda>retry.
      if up_status retry = 401 then Return (Err (expect_err (classify_response retry)))
      else lift_io (classify_response retry) (\<lambda>_. Cache_insert repository token expires_in (Return (Ok retry)))))
      (1 + 0)" for token expires_in
    by (intro sends_try bounds_send) (auto intro: sends_lift)
  ultimately have w: "within (case exchanged of None \<Rightarrow> Return (Err e)
      | Some (token, expires_in) \<Rightarrow>
          try_io (send_request method uri accept (Some token)) (\<lambda>retry.
            if up_status retry = 401 then Return (Err (expect_err (classify_response retry)))
            else lift_io (classify_response retry) (\<lambda>_.
              Cache_insert repository token expires_in (Return (Ok retry))))) (1 + 1)"
    and s: "sends (case exchanged of None \<Rightarrow> Return (Err e)
      | Some (token, expires_in) \<Rightarrow>
          try_io (send_request method uri accept (Some token)) (\<lambda>retry.
            if up_status retry = 401 then Return (Err (expect_err (classify_response retry)))
            else lift_io (classify_response retry) (\<lambda>_.
              Cache_insert repository token expires_in (Return (Ok retry))))) (1 + 0)"
    for exchanged and e :: oci_error by (simp_all split: option.split prod.split)
  show "within (retry_with_token lib c method repository uri accept response) 3"
    unfolding retry_with_token_def Let_def
    using within_bind[OF bounds_exchange(1) w, of lib c] by (auto simp: numeral_3_eq_3 split: option.split)
  show "sends (retry_with_token lib c method repository uri accept response) 2"
    unfolding retry_with_token_def Let_def
    using sends_bind[OF bounds_exchange(2) s, of lib c] by (auto simp: numeral_2_eq_2 split: option.split)
qed

lemma bounds_request_response_method:
  "within (request_response_method lib c method repository path accept v) 6"
  "sends (request_response_method lib c method repository path accept v) 3"
proof -
  let ?u = "upstream_uri c repository path"
  let ?f = "\<lambda>found response. if up_status response \<noteq> 401 then checked response
        else if found \<noteq> None
          then Cache_remove repository (retry_with_token lib c method repository ?u accept response)
          else retry_with_token lib c method repository ?u accept response"
  have f: "within (?f found response) 4" "sends (?f found response) 2" for found response
    using bounds_retry[of lib c "method" repository ?u accept response]
    by (auto simp: checked_def intro: within_mono)
  have "within (try_io (send_request method ?u accept found) (?f found)) (1 + 4)" for found
    by (intro within_try bounds_send f)
  moreover have "sends (try_io (send_request method ?u accept found) (?f found)) (1 + 2)" for found
    by (intro sends_try bounds_send f)
  moreover have "within (try_io (send_request method ?u accept v) checked) (1 + 0)"
    by (intro within_try bounds_send) (simp add: checked_def)
  moreover have "sends (try_io (send_request method ?u accept v) checked) (1 + 0)"
    by (intro sends_try bounds_send) (simp add: checked_def)
  ultimately show "within (request_response_method lib c method repository path accept v) 6"
    "sends (request_response_method lib c method repository path accept v) 3"
    unfolding request_response_method_def Let_def
    by (auto simp: numeral_3_eq_3 intro!: within_lift sends_lift elim: within_mono sends_mono)
qed

subsection \<open>A read that obtains a token\<close>

lemma json_printable: "header_value_from ''application/json'' \<noteq> None"
  by code_simp

lemma exchange_succeeds:
  assumes b: "Option.bind (cl_credentials c) (basic_authorization (lib_base64 lib)) = Some b"
    and uri: "lib_uri lib (token_uri challenge repository) \<noteq> None"
  shows "exec (exchange_token lib c challenge repository)
    [Sent (read_request ''GET'' (token_uri challenge repository) ''application/json'' (Some b)) (Answered reply)]
    (token_of lib reply)"
  using uri json_printable unfolding exchange_token_def b option.case send_request_eq
  by (auto simp: exec_simps)

lemma retry_succeeds:
  assumes b: "Option.bind (cl_credentials c) (basic_authorization (lib_base64 lib)) = Some b"
    and challenge: "find_bearer_challenge (header_get_all (up_headers response) ''www-authenticate'') (cl_origin c)
      = Some challenge"
    and uri: "lib_uri lib (token_uri challenge repository) \<noteq> None"
    and token: "token_of lib reply = Some (token, expires_in)"
    and accept: "header_value_from accept \<noteq> None" and ok: "up_status ok = 200"
  shows "exec (retry_with_token lib c method repository uri' accept response)
    ([Sent (read_request ''GET'' (token_uri challenge repository) ''application/json'' (Some b)) (Answered reply)]
     @ [Sent (read_request method uri' accept (Some token)) (Answered ok),
        Inserted repository token expires_in]) (Ok ok)"
proof -
  have "exec (try_io (send_request method uri' accept (Some token)) (\<lambda>retry.
      if up_status retry = 401 then Return (Err (expect_err (classify_response retry)))
      else lift_io (classify_response retry) (\<lambda>_. Cache_insert repository token expires_in (Return (Ok retry)))))
      [Sent (read_request method uri' accept (Some token)) (Answered ok), Inserted repository token expires_in] (Ok ok)"
    using accept ok by (auto simp: try_send_request exec_simps classify_response_def)
  then show ?thesis
    unfolding retry_with_token_def Let_def challenge option.case
    by (intro exec_bindI[OF exchange_succeeds[OF b uri]]) (simp add: token)
qed

definition stale :: "string \<Rightarrow> string option \<Rightarrow> event list" where
  "stale repository cached = (if cached = None then [] else [Removed repository])"

lemma broker_read:
  assumes b: "Option.bind (cl_credentials c) (basic_authorization (lib_base64 lib)) = Some b"
    and challenge: "find_bearer_challenge (header_get_all (up_headers response) ''www-authenticate'') (cl_origin c)
      = Some challenge"
    and uri: "lib_uri lib (token_uri challenge repository) \<noteq> None"
    and target: "lib_uri lib (upstream_uri c repository path) \<noteq> None"
    and token: "token_of lib reply = Some (token, expires_in)"
    and accept: "header_value_from accept \<noteq> None" and status: "up_status response = 401" and ok: "up_status ok = 200"
  shows "exec (request_response_method lib c method repository path accept None)
    (Looked_up repository cached
     # Sent (read_request method (upstream_uri c repository path) accept cached) (Answered response)
     # stale repository cached
     @ [Sent (read_request ''GET'' (token_uri challenge repository) ''application/json'' (Some b)) (Answered reply)]
     @ [Sent (read_request method (upstream_uri c repository path) accept (Some token)) (Answered ok),
        Inserted repository token expires_in]) (Ok ok)"
proof -
  note retry = retry_succeeds[OF b challenge uri token accept ok, of "method" "upstream_uri c repository path"]
  have "cl_credentials c \<noteq> None" using b by (cases "cl_credentials c") auto
  with target show ?thesis
    unfolding request_response_method_def Let_def
    using retry status accept
    by (auto simp: exec_simps try_send_request stale_def)
qed


text \<open>A read that is accepted at once, with the given authorization or with a cached token.\<close>

lemma direct_read:
  assumes "authorization \<noteq> None \<or> cl_credentials c = None" "lib_uri lib (upstream_uri c repository path) \<noteq> None"
    "header_value_from accept \<noteq> None" "up_status ok = 200"
  shows "exec (request_response_method lib c method repository path accept authorization)
    [Sent (read_request method (upstream_uri c repository path) accept authorization) (Answered ok)] (Ok ok)"
  using assms unfolding request_response_method_def Let_def
  by (auto simp: exec_simps try_send_request checked_def classify_response_def)

lemma cached_read:
  assumes "cl_credentials c \<noteq> None" "lib_uri lib (upstream_uri c repository path) \<noteq> None"
    "header_value_from accept \<noteq> None" "up_status ok = 200"
  shows "exec (request_response_method lib c method repository path accept None)
    [Looked_up repository cached,
     Sent (read_request method (upstream_uri c repository path) accept cached) (Answered ok)] (Ok ok)"
  using assms unfolding request_response_method_def Let_def
  by (auto simp: exec_simps try_send_request checked_def classify_response_def)

end
