(* ===== verification/Inbound.thy ===== *)
theory Inbound
  imports Http Routing
begin

text \<open>
  \<open>src/inbound.rs\<close>: the admission checks on a request head. The lemmas state each check as a
  condition on the header fields, with the serialized size as a sum and a content length as a
  decimal number.
\<close>

subsection \<open>The code\<close>

record inbound_limits =
  max_target_bytes :: nat
  max_header_count :: nat
  max_header_bytes :: nat
  max_body_bytes :: nat

definition inbound_limits_default :: inbound_limits where
  "inbound_limits_default = \<lparr>max_target_bytes = 8 * 1024, max_header_count = 64,
     max_header_bytes = 16 * 1024, max_body_bytes = 64 * 1024 * 1024\<rparr>"

datatype inbound_error =
    RequestTargetTooLarge | HeaderCountExceeded | HeaderBytesExceeded | InvalidHeader
  | RequestBodyNotAllowed | RequestBodyTooLarge | InvalidContentLength | ConflictingContentLength
  | UnsupportedTransferEncoding | UnsupportedExpectation | UnsupportedUpgrade
  | Route route_error

fun inbound_error_code :: "inbound_error \<Rightarrow> string" where
  "inbound_error_code RequestTargetTooLarge = ''request_target_too_large''"
| "inbound_error_code HeaderCountExceeded = ''header_count_exceeded''"
| "inbound_error_code HeaderBytesExceeded = ''header_bytes_exceeded''"
| "inbound_error_code InvalidHeader = ''invalid_header''"
| "inbound_error_code RequestBodyNotAllowed = ''request_body_not_allowed''"
| "inbound_error_code RequestBodyTooLarge = ''request_body_too_large''"
| "inbound_error_code InvalidContentLength = ''invalid_content_length''"
| "inbound_error_code ConflictingContentLength = ''conflicting_content_length''"
| "inbound_error_code UnsupportedTransferEncoding = ''unsupported_transfer_encoding''"
| "inbound_error_code UnsupportedExpectation = ''unsupported_expectation''"
| "inbound_error_code UnsupportedUpgrade = ''unsupported_upgrade''"
| "inbound_error_code (Route error) = route_error_code error"

definition parse_content_length :: "string \<Rightarrow> inbound_error + nat" where
  "parse_content_length bytes =
     (if bytes = [] \<or> \<not> list_all is_ascii_digit bytes then Err InvalidContentLength
      else ok_or InvalidContentLength (fold_decimal 0 bytes))"

definition contains_forbidden_control :: "string \<Rightarrow> bool" where
  "contains_forbidden_control value = list_ex (\<lambda>byte. is_ascii_control byte \<and> byte \<noteq> HTAB) value"

definition connection_requests_upgrade :: "header_map \<Rightarrow> bool" where
  "connection_requests_upgrade headers =
     list_ex (\<lambda>token. eq_ignore_ascii_case (trim_ascii token) ''upgrade'')
       (concat (map (split_on CHR '','') (header_get_all headers ''connection'')))"

text \<open>The loop of \<open>validate_content_length\<close> with its \<open>declared_length\<close>.\<close>

fun content_length_loop :: "nat option \<Rightarrow> string list \<Rightarrow> inbound_error + nat option" where
  "content_length_loop declared [] = Ok declared"
| "content_length_loop declared (value # values) =
     and_then (parse_content_length value) (\<lambda>len.
       (case declared of
          Some previous \<Rightarrow>
            if previous \<noteq> len then Err ConflictingContentLength
            else content_length_loop declared values
        | None \<Rightarrow> content_length_loop (Some len) values))"

definition validate_content_length :: "header_map \<Rightarrow> bool \<Rightarrow> inbound_error + unit" where
  "validate_content_length headers allow_body =
     and_then (content_length_loop None (header_get_all headers ''content-length'')) (\<lambda>declared.
       if \<not> allow_body \<and> (case declared of Some len \<Rightarrow> len \<noteq> 0 | None \<Rightarrow> False)
       then Err RequestBodyNotAllowed else Ok ())"

text \<open>The loop of \<open>validate_headers_with_body\<close> with its \<open>serialized_bytes\<close>.\<close>

fun header_bytes_loop :: "nat \<Rightarrow> header_map \<Rightarrow> inbound_error + nat" where
  "header_bytes_loop serialized [] = Ok serialized"
| "header_bytes_loop serialized ((name, value) # headers) =
     (if contains_forbidden_control value then Err InvalidHeader
      else and_then
        (ok_or HeaderBytesExceeded
          (Option.bind (checked_add serialized (length name)) (\<lambda>bytes.
           Option.bind (checked_add bytes 2) (\<lambda>bytes.
           Option.bind (checked_add bytes (length value)) (\<lambda>bytes. checked_add bytes 2)))))
        (\<lambda>serialized. header_bytes_loop serialized headers))"

definition validate_headers_with_body ::
    "header_map \<Rightarrow> inbound_limits \<Rightarrow> bool \<Rightarrow> inbound_error + unit" where
  "validate_headers_with_body headers limits allow_body =
     (if length headers > max_header_count limits then Err HeaderCountExceeded
      else and_then (header_bytes_loop 2 headers) (\<lambda>serialized.
        if serialized > max_header_bytes limits then Err HeaderBytesExceeded
        else and_then (validate_content_length headers allow_body) (\<lambda>_.
          if header_contains_key headers ''transfer-encoding'' then Err UnsupportedTransferEncoding
          else if header_contains_key headers ''expect'' then Err UnsupportedExpectation
          else if header_contains_key headers ''upgrade'' \<or> connection_requests_upgrade headers
          then Err UnsupportedUpgrade
          else Ok ())))"

definition validate_headers :: "header_map \<Rightarrow> inbound_limits \<Rightarrow> inbound_error + unit" where
  "validate_headers headers limits = validate_headers_with_body headers limits False"

definition validate_request_head ::
    "(string \<Rightarrow> string) \<Rightarrow> (string \<Rightarrow> string option) \<Rightarrow> string \<Rightarrow> string \<Rightarrow> header_map
     \<Rightarrow> enabled_protocols \<Rightarrow> inbound_limits \<Rightarrow> inbound_error + validated_route" where
  "validate_request_head enc dec method raw_target headers enabled limits =
     (if \<not> (method = ''GET'' \<or> method = ''HEAD'') then Err (Route UnsupportedMethod)
      else if length raw_target > max_target_bytes limits then Err RequestTargetTooLarge
      else and_then (validate_headers headers limits) (\<lambda>_.
        map_err Route (parse_raw_target enc dec method raw_target enabled)))"

definition validate_request ::
    "(string \<Rightarrow> string) \<Rightarrow> (string \<Rightarrow> string option) \<Rightarrow> request \<Rightarrow> enabled_protocols
     \<Rightarrow> inbound_limits \<Rightarrow> inbound_error + validated_route" where
  "validate_request enc dec request enabled limits =
     (if req_scheme request \<noteq> None \<or> req_authority request \<noteq> None then Err (Route InvalidRoute)
      else and_then (ok_or (Route InvalidRoute) (req_path_and_query request)) (\<lambda>raw_target.
        if length raw_target > max_target_bytes limits then Err RequestTargetTooLarge
        else and_then (validate_request_head enc dec (req_method request) raw_target
                         (req_headers request) enabled limits) (\<lambda>route.
          if \<not> req_end_stream request then Err RequestBodyNotAllowed else Ok route)))"

definition validate_distribution_request :: "request \<Rightarrow> inbound_limits \<Rightarrow> inbound_error + string" where
  "validate_distribution_request request limits =
     (if req_scheme request \<noteq> None \<or> req_authority request \<noteq> None then Err (Route InvalidRoute)
      else if req_method request \<notin> {''GET'', ''HEAD'', ''POST'', ''PATCH'', ''PUT'', ''DELETE''}
      then Err (Route UnsupportedMethod)
      else and_then (ok_or (Route InvalidRoute) (req_path_and_query request)) (\<lambda>target.
        if length target > max_target_bytes limits then Err RequestTargetTooLarge
        else
          let allows_body = req_method request \<in> {''POST'', ''PATCH'', ''PUT''} in
          and_then (validate_headers_with_body (req_headers request) limits allows_body) (\<lambda>_.
            if allows_body then
              (case header_get (req_headers request) ''content-length'' of
                 Some value \<Rightarrow>
                   and_then (parse_content_length value) (\<lambda>len.
                     if len > max_body_bytes limits then Err RequestBodyTooLarge else Ok target)
               | None \<Rightarrow>
                   if \<not> req_end_stream request then Err RequestBodyNotAllowed else Ok target)
            else Ok target)))"

definition validate_autoindex_request :: "request \<Rightarrow> inbound_limits \<Rightarrow> inbound_error + string" where
  "validate_autoindex_request request limits =
     (if req_scheme request \<noteq> None \<or> req_authority request \<noteq> None then Err (Route InvalidRoute)
      else if \<not> (req_method request = ''GET'' \<or> req_method request = ''HEAD'')
      then Err (Route UnsupportedMethod)
      else and_then (ok_or (Route InvalidRoute) (req_path_and_query request)) (\<lambda>target.
        if length target > max_target_bytes limits then Err RequestTargetTooLarge
        else and_then (validate_headers (req_headers request) limits) (\<lambda>_.
          if \<not> req_end_stream request then Err RequestBodyNotAllowed else Ok target)))"

subsection \<open>The checks as conditions\<close>

definition content_length_of :: "string \<Rightarrow> nat option" where
  "content_length_of value =
     (if value \<noteq> [] \<and> list_all is_ascii_digit value \<and> decimal_val value < U64_LIMIT
      then Some (decimal_val value) else None)"

definition field_size :: "string \<times> string \<Rightarrow> nat" where
  "field_size field = length (fst field) + length (snd field) + 4"

definition serialized_size :: "header_map \<Rightarrow> nat" where
  "serialized_size headers = 2 + sum_list (map field_size headers)"

text \<open>One known length, or none, for the body.\<close>

definition declares :: "header_map \<Rightarrow> nat option \<Rightarrow> bool" where
  "declares headers n \<longleftrightarrow>
     (case n of
        None \<Rightarrow> header_get_all headers ''content-length'' = []
      | Some k \<Rightarrow> header_get_all headers ''content-length'' \<noteq> []
          \<and> (\<forall>v \<in> set (header_get_all headers ''content-length''). content_length_of v = Some k))"

definition admissible_headers :: "inbound_limits \<Rightarrow> bool \<Rightarrow> header_map \<Rightarrow> bool" where
  "admissible_headers limits allow_body headers \<longleftrightarrow>
     length headers \<le> max_header_count limits
     \<and> (\<forall>(name, value) \<in> set headers. \<forall>c \<in> set value. is_ascii_control c \<longrightarrow> c = HTAB)
     \<and> serialized_size headers \<le> max_header_bytes limits
     \<and> (\<exists>n. declares headers n \<and> (allow_body \<or> n \<in> {None, Some 0}))
     \<and> (\<forall>name \<in> {''transfer-encoding'', ''expect'', ''upgrade''}. header_get_all headers name = [])
     \<and> \<not> connection_requests_upgrade headers"

lemma parse_content_length_eq:
  "parse_content_length v = ok_or InvalidContentLength (content_length_of v)"
  by (auto simp: parse_content_length_def content_length_of_def fold_decimal_0)

lemma field_size_pair [simp]: "field_size (n, v) = length n + length v + 4"
  by (simp add: field_size_def)

lemma header_bytes_loop_Ok:
  "header_bytes_loop n hs = Ok m \<longleftrightarrow>
     (\<forall>(name, value) \<in> set hs. \<not> contains_forbidden_control value)
     \<and> m = n + sum_list (map field_size hs)
     \<and> (hs \<noteq> [] \<longrightarrow> m < U64_LIMIT)"
proof (induction n hs rule: header_bytes_loop.induct)
  case (2 n name v hs)
  let ?k = "n + (length name + length v + 4)"
  have step: "Option.bind (checked_add n (length name)) (\<lambda>bytes.
      Option.bind (checked_add bytes 2) (\<lambda>bytes.
      Option.bind (checked_add bytes (length v)) (\<lambda>bytes. checked_add bytes 2)))
    = (if ?k < U64_LIMIT then Some ?k else None)"
    by (auto simp: checked_add_def)
  show ?case
  proof (cases "\<not> contains_forbidden_control v \<and> ?k < U64_LIMIT")
    case True
    have IH: "header_bytes_loop ?k hs = Ok m \<longleftrightarrow>
       (\<forall>(name, value) \<in> set hs. \<not> contains_forbidden_control value)
       \<and> m = ?k + sum_list (map field_size hs)
       \<and> (hs \<noteq> [] \<longrightarrow> m < U64_LIMIT)"
      using True step by (intro "2.IH") auto
    show ?thesis using True IH unfolding header_bytes_loop.simps step by auto
  next
    case False
    then show ?thesis unfolding header_bytes_loop.simps step by auto
  qed
qed auto

lemma content_length_loop_Ok:
  "content_length_loop declared vs = Ok d \<longleftrightarrow>
     (case declared of
        Some k \<Rightarrow> d = Some k \<and> (\<forall>v \<in> set vs. content_length_of v = Some k)
      | None \<Rightarrow> (case d of None \<Rightarrow> vs = []
          | Some k \<Rightarrow> vs \<noteq> [] \<and> (\<forall>v \<in> set vs. content_length_of v = Some k)))"
proof (induction declared vs rule: content_length_loop.induct)
  case (2 declared v vs)
  show ?case
  proof (cases "content_length_of v")
    case None
    then show ?thesis by (auto simp: parse_content_length_eq split: option.splits)
  next
    case (Some n)
    then have parse: "parse_content_length v = Ok n" by (simp add: parse_content_length_eq)
    show ?thesis
    proof (cases declared)
      case None
      then show ?thesis using 2(1)[OF None] Some parse by (auto split: option.splits)
    next
      case (Some k)
      then show ?thesis using 2(2)[OF Some] \<open>content_length_of v = Some n\<close> parse
        by (auto split: option.splits)
    qed
  qed
qed (auto split: option.splits)

lemma validate_content_length_Ok:
  "validate_content_length headers allow_body = Ok () \<longleftrightarrow>
     (\<exists>n. declares headers n \<and> (allow_body \<or> n \<in> {None, Some 0}))"
  by (auto simp: validate_content_length_def content_length_loop_Ok declares_def split: option.splits)

lemma not_control_iff:
  "\<not> contains_forbidden_control v \<longleftrightarrow> (\<forall>c \<in> set v. is_ascii_control c \<longrightarrow> c = HTAB)"
  by (auto simp: contains_forbidden_control_def list_ex_iff)

lemma validate_headers_Ok:
  assumes "max_header_bytes limits < U64_LIMIT"
  shows "validate_headers_with_body headers limits allow_body = Ok ()
    \<longleftrightarrow> admissible_headers limits allow_body headers"
proof -
  have size: "(\<exists>n. header_bytes_loop 2 headers = Ok n \<and> n \<le> max_header_bytes limits) \<longleftrightarrow>
      (\<forall>(name, value) \<in> set headers. \<not> contains_forbidden_control value)
      \<and> serialized_size headers \<le> max_header_bytes limits"
    using assms unfolding header_bytes_loop_Ok serialized_size_def by auto
  have "validate_headers_with_body headers limits allow_body = Ok () \<longleftrightarrow>
      length headers \<le> max_header_count limits
      \<and> (\<exists>n. header_bytes_loop 2 headers = Ok n \<and> n \<le> max_header_bytes limits)
      \<and> validate_content_length headers allow_body = Ok ()
      \<and> (\<forall>name \<in> {''transfer-encoding'', ''expect'', ''upgrade''}. header_get_all headers name = [])
      \<and> \<not> connection_requests_upgrade headers"
    unfolding validate_headers_with_body_def
    by (simp add: header_contains_key_iff not_less) blast
  then show ?thesis
    unfolding size validate_content_length_Ok admissible_headers_def not_control_iff by blast
qed

subsection \<open>Requests\<close>

definition origin_target :: "request \<Rightarrow> inbound_limits \<Rightarrow> string \<Rightarrow> bool" where
  "origin_target request limits target \<longleftrightarrow> req_scheme request = None \<and> req_authority request = None
     \<and> req_path_and_query request = Some target \<and> length target \<le> max_target_bytes limits"

lemma declares_get:
  "declares headers n \<Longrightarrow> header_get headers ''content-length'' =
     (case n of None \<Rightarrow> None | Some k \<Rightarrow> header_get headers ''content-length'')
   \<and> (\<forall>k v. n = Some k \<longrightarrow> header_get headers ''content-length'' = Some v \<longrightarrow> content_length_of v = Some k)"
  using header_get_in_all[of headers "''content-length''"]
  by (auto simp: declares_def header_get_None_iff split: option.splits)

lemma declares_unique: "declares headers n \<Longrightarrow> declares headers m \<Longrightarrow> n = m"
  by (cases n; cases m) (auto simp: declares_def neq_Nil_conv)

lemma validate_request_Ok:
  assumes "max_header_bytes limits < U64_LIMIT"
  shows "validate_request enc dec request enabled limits = Ok route \<longleftrightarrow>
    (\<exists>target. origin_target request limits target
       \<and> admissible_headers limits False (req_headers request)
       \<and> parse_raw_target enc dec (req_method request) target enabled = Ok route
       \<and> req_end_stream request)"
proof -
  have meth: "parse_raw_target enc dec m t enabled = Ok route \<Longrightarrow> m = ''GET'' \<or> m = ''HEAD''" for m t
    by (simp add: parse_raw_target_def split: if_splits)
  show ?thesis
    unfolding validate_request_def validate_request_head_def validate_headers_def origin_target_def
    using meth validate_headers_Ok[OF assms, of "req_headers request" False]
    by (auto simp: not_less)
qed

lemma validate_distribution_request_Ok:
  assumes "max_header_bytes limits < U64_LIMIT"
  shows "validate_distribution_request request limits = Ok target \<longleftrightarrow>
    origin_target request limits target
    \<and> req_method request \<in> {''GET'', ''HEAD'', ''POST'', ''PATCH'', ''PUT'', ''DELETE''}
    \<and> admissible_headers limits (req_method request \<in> {''POST'', ''PATCH'', ''PUT''}) (req_headers request)
    \<and> (req_method request \<in> {''POST'', ''PATCH'', ''PUT''} \<longrightarrow>
        (\<exists>n. declares (req_headers request) n
           \<and> (case n of None \<Rightarrow> req_end_stream request | Some k \<Rightarrow> k \<le> max_body_bytes limits)))"
proof -
  let ?body = "req_method request \<in> {''POST'', ''PATCH'', ''PUT''}"
  let ?hs = "req_headers request"
  note headers = validate_headers_Ok[OF assms, of ?hs ?body]
  have size: "(case header_get ?hs ''content-length'' of
       Some value \<Rightarrow> and_then (parse_content_length value) (\<lambda>len.
         if len > max_body_bytes limits then Err RequestBodyTooLarge else Ok t)
     | None \<Rightarrow> if \<not> req_end_stream request then Err RequestBodyNotAllowed else Ok t) = Ok target
    \<longleftrightarrow> target = t \<and> (\<exists>n. declares ?hs n
           \<and> (case n of None \<Rightarrow> req_end_stream request | Some k \<Rightarrow> k \<le> max_body_bytes limits))"
    if adm: "admissible_headers limits ?body ?hs" for t
  proof -
    from adm obtain n where n: "declares ?hs n" unfolding admissible_headers_def by blast
    have all: "declares ?hs m \<longleftrightarrow> m = n" for m using n declares_unique by blast
    show ?thesis
    proof (cases n)
      case None
      with n have "header_get ?hs ''content-length'' = None"
        by (simp add: declares_def header_get_None_iff)
      with None show ?thesis unfolding all by auto
    next
      case (Some k)
      with n obtain v where v: "header_get ?hs ''content-length'' = Some v"
        by (cases "header_get ?hs ''content-length''") (auto simp: declares_def header_get_None_iff)
      with n Some have "content_length_of v = Some k" using declares_get by blast
      with v Some show ?thesis unfolding all
        by (auto simp: parse_content_length_eq not_less)
    qed
  qed
  show ?thesis
  proof (cases "origin_target request limits target
      \<and> req_method request \<in> {''GET'', ''HEAD'', ''POST'', ''PATCH'', ''PUT'', ''DELETE''}
      \<and> admissible_headers limits ?body ?hs")
    case True
    then have "validate_headers_with_body ?hs limits ?body = Ok ()" using headers by blast
    with True show ?thesis
      using size[of target]
      by (cases "?body") (simp_all add: validate_distribution_request_def origin_target_def Let_def not_less)
  next
    case False
    have "\<not> validate_distribution_request request limits = Ok target"
    proof
      assume ok: "validate_distribution_request request limits = Ok target"
      define body where "body \<longleftrightarrow> ?body"
      from ok have "origin_target request limits target
          \<and> req_method request \<in> {''GET'', ''HEAD'', ''POST'', ''PATCH'', ''PUT'', ''DELETE''}
          \<and> validate_headers_with_body ?hs limits body = Ok ()"
        unfolding validate_distribution_request_def Let_def body_def[symmetric] origin_target_def
        by (simp split: if_splits option.splits) auto
      with False headers show False unfolding body_def by blast
    qed
    with False show ?thesis by blast
  qed
qed

subsection \<open>Properties\<close>

text \<open>Requests at which the properties are applied.\<close>

definition example_upload :: request where
  "example_upload = \<lparr>req_method = ''PUT'', req_scheme = None, req_authority = None,
     req_path_and_query = Some ''/v2/acme/fixture/manifests/v1'',
     req_path = ''/v2/acme/fixture/manifests/v1'', req_query = None,
     req_headers = [(''host'', ''proxy.example''), (''content-length'', ''12'')],
     req_end_stream = False\<rparr>"

definition example_read :: request where
  "example_read = \<lparr>req_method = ''GET'', req_scheme = None, req_authority = None,
     req_path_and_query = Some ''/r/v1/Zm9v/pypi/simple/demo/'',
     req_path = ''/r/v1/Zm9v/pypi/simple/demo/'', req_query = None,
     req_headers = [(''host'', ''proxy.example''), (''content-length'', ''0'')],
     req_end_stream = True\<rparr>"

text \<open>The definitions that evaluate the checks on a concrete head.\<close>

lemmas inbound_eval = validate_headers_with_body_def validate_content_length_def
  parse_content_length_eq content_length_of_def header_contains_key_def header_get_all_def
  contains_forbidden_control_def connection_requests_upgrade_def checked_add_def
  decimal_val_def digit_val_def byte_defs

text \<open>C40. A content length is read as the decimal number of its digits exactly when it has at least
  one byte, only digits, and a value below 2^64; everything else (signs, spaces, overflow) is
  \<open>InvalidContentLength\<close>.\<close>

theorem parse_content_length_exact:
  "parse_content_length v =
     (if v \<noteq> [] \<and> list_all is_ascii_digit v \<and> decimal_val v < U64_LIMIT
      then Ok (decimal_val v) else Err InvalidContentLength)"
  by (simp add: parse_content_length_eq content_length_of_def)

text \<open>The header check admits exactly the field lists within the count and byte limits (the
  bytes of \<open>name: value\<close> lines and the final line), with no control byte but tab in a value, with
  one consistent content length or none (only zero where no body is allowed), and without
  transfer encoding, expectation or upgrade. Overflow of the byte count cannot admit a request.\<close>

lemma validate_headers_exact:
  assumes "max_header_bytes limits < U64_LIMIT"
  shows "validate_headers_with_body headers limits allow_body = Ok ()
    \<longleftrightarrow> admissible_headers limits allow_body headers"
  by (rule validate_headers_Ok[OF assms])

lemma validate_headers_exact_witness:
  "admissible_headers inbound_limits_default True (req_headers example_upload)
   \<and> \<not> admissible_headers inbound_limits_default False (req_headers example_upload)"
proof -
  have limit: "max_header_bytes inbound_limits_default < U64_LIMIT"
    by (simp add: inbound_limits_default_def)
  have "validate_headers_with_body (req_headers example_upload) inbound_limits_default True = Ok ()"
    "validate_headers_with_body (req_headers example_upload) inbound_limits_default False
      = Err RequestBodyNotAllowed"
    by (simp_all add: inbound_eval inbound_limits_default_def example_upload_def)
  then show ?thesis
    using validate_headers_exact[OF limit, of "req_headers example_upload" True]
      validate_headers_exact[OF limit, of "req_headers example_upload" False] by simp
qed

text \<open>A package request is admitted exactly when it is origin-form, its target is within the
  limit, its headers are admissible without a body, its body is at its end, and its target is a
  canonical route of an enabled protocol. The route returned is the one the target spells.\<close>

lemma validate_request_exact:
  assumes "max_header_bytes limits < U64_LIMIT" "base64_codec enc dec"
  shows "validate_request enc dec request enabled limits = Ok route \<longleftrightarrow>
    origin_target request limits (route_render enc route) \<and> route_wf enabled route
    \<and> req_method request \<in> {''GET'', ''HEAD''}
    \<and> admissible_headers limits False (req_headers request) \<and> req_end_stream request"
  unfolding validate_request_Ok[OF assms(1)] base64_codec.parse_raw_target_iff[OF assms(2)] by blast

lemma validate_request_exact_witness:
  "validate_request b64_encode b64_decode example_read enabled_all inbound_limits_default
    = Ok \<lparr>vr_repository = ValidatedRepository ''foo'', vr_protocol = Pypi,
        vr_protocol_path = CanonicalProtocolPath ''simple/demo/''\<rparr>"
proof -
  let ?r = "\<lparr>vr_repository = ValidatedRepository ''foo'', vr_protocol = Pypi,
    vr_protocol_path = CanonicalProtocolPath ''simple/demo/''\<rparr>"
  have limit: "max_header_bytes inbound_limits_default < U64_LIMIT"
    by (simp add: inbound_limits_default_def)
  have "validated_repository_parse ''foo'' = Ok (ValidatedRepository ''foo'')"
    "parse_protocol_path ''simple/demo/'' = Ok (CanonicalProtocolPath ''simple/demo/'')"
    "\<not> contains_any ''simple/demo/'' [CHR ''?'', CHR ''#'', CHR ''%'', BACKSLASH]"
    by code_simp+
  then have wf: "route_wf enabled_all ?r"
    by (simp add: route_wf_def enabled_set_all validated_repository_parse_eq parse_protocol_path_eq
        split: if_splits)
  have "route_render b64_encode ?r = ''/r/v1/Zm9v/pypi/simple/demo/''"
    by (simp add: route_render_def ROUTE_PREFIX_def b64_char_def b64_alphabet_def)
  moreover have "validate_headers_with_body (req_headers example_read) inbound_limits_default False = Ok ()"
    by (simp add: inbound_eval inbound_limits_default_def example_read_def)
  ultimately show ?thesis
    using validate_request_exact[OF limit rfc4648.base64_codec_axioms, of example_read enabled_all ?r]
      validate_headers_Ok[OF limit] wf
    by (simp add: origin_target_def example_read_def inbound_limits_default_def)
qed

text \<open>C28. A distribution request is admitted exactly when it is origin-form within the limit, has
  one of the six methods and admissible headers, and, where its method carries a body, declares
  one length within the upload limit or has no body at all. No upload of unknown or excessive
  size is forwarded.\<close>

theorem validate_distribution_request_exact:
  assumes "max_header_bytes limits < U64_LIMIT"
  shows "validate_distribution_request request limits = Ok target \<longleftrightarrow>
    origin_target request limits target
    \<and> req_method request \<in> {''GET'', ''HEAD'', ''POST'', ''PATCH'', ''PUT'', ''DELETE''}
    \<and> admissible_headers limits (req_method request \<in> {''POST'', ''PATCH'', ''PUT''}) (req_headers request)
    \<and> (req_method request \<in> {''POST'', ''PATCH'', ''PUT''} \<longrightarrow>
        (\<exists>n. declares (req_headers request) n
           \<and> (case n of None \<Rightarrow> req_end_stream request | Some k \<Rightarrow> k \<le> max_body_bytes limits)))"
  by (rule validate_distribution_request_Ok[OF assms])

theorem validate_distribution_request_exact_witness:
  "origin_target example_upload inbound_limits_default ''/v2/acme/fixture/manifests/v1''
   \<and> (\<exists>n. declares (req_headers example_upload) n
        \<and> (case n of None \<Rightarrow> req_end_stream example_upload | Some k \<Rightarrow> k \<le> max_body_bytes inbound_limits_default))"
proof -
  have limit: "max_header_bytes inbound_limits_default < U64_LIMIT"
    by (simp add: inbound_limits_default_def)
  have "validate_distribution_request example_upload inbound_limits_default = Ok ''/v2/acme/fixture/manifests/v1''"
    by (simp add: validate_distribution_request_def inbound_eval inbound_limits_default_def
        example_upload_def header_get_def)
  moreover have "req_method example_upload \<in> {''POST'', ''PATCH'', ''PUT''}" by code_simp
  ultimately show ?thesis
    using validate_distribution_request_exact[OF limit] by blast
qed

end
