(* ===== verification/Errors.thy ===== *)
theory Errors
  imports Inbound
begin

text \<open>
  \<open>src/errors.rs\<close>: the classification of failures and the fixed responses they become.
\<close>

subsection \<open>The code\<close>

definition ERROR_CONTENT_TYPE :: string where
  "ERROR_CONTENT_TYPE = ''application/json; charset=utf-8''"

definition ERROR_TITLE :: string where
  "ERROR_TITLE = ''Request could not be completed.''"

datatype upstream_resource = Layout | MappedContent

datatype upstream_failure =
    Unauthorized "string list"
  | Forbidden
  | NotFound upstream_resource
  | RateLimited "string option"
  | Server bool "string option"
  | Malformed

datatype proxy_error =
    Inbound inbound_error
  | Upstream upstream_failure
  | Timeout
  | Cancelled
  | Unexpected

definition proxy_error_of_route :: "route_error \<Rightarrow> proxy_error" where
  "proxy_error_of_route error = Inbound (Route error)"

fun proxy_error_code :: "proxy_error \<Rightarrow> string" where
  "proxy_error_code (Inbound error) = inbound_error_code error"
| "proxy_error_code (Upstream (Unauthorized _)) = ''upstream_unauthorized''"
| "proxy_error_code (Upstream Forbidden) = ''upstream_forbidden''"
| "proxy_error_code (Upstream (NotFound _)) = ''upstream_not_found''"
| "proxy_error_code (Upstream (RateLimited _)) = ''upstream_rate_limited''"
| "proxy_error_code (Upstream (Server temporary _)) =
     (if temporary then ''upstream_unavailable'' else ''upstream_failure'')"
| "proxy_error_code (Upstream Malformed) = ''upstream_invalid_response''"
| "proxy_error_code Timeout = ''upstream_timeout''"
| "proxy_error_code Cancelled = ''request_cancelled''"
| "proxy_error_code Unexpected = ''internal_error''"

definition response_plan :: "nat \<Rightarrow> string \<Rightarrow> bool \<Rightarrow> response" where
  "response_plan status code allow_methods =
     (let body = ''{'' @ [DQUOTE] @ ''error'' @ [DQUOTE] @ '':'' @ [DQUOTE] @ code @ [DQUOTE] @ '',''
            @ [DQUOTE] @ ''message'' @ [DQUOTE] @ '':'' @ [DQUOTE] @ ERROR_TITLE @ [DQUOTE] @ ''}'';
          headers = [(''cache-control'', ''no-store''), (''content-type'', ERROR_CONTENT_TYPE),
            (''content-length'', decimal_string (length body)), (''x-content-type-options'', ''nosniff'')]
      in \<lparr>rsp_status = status,
          rsp_headers = (if allow_methods then header_append headers ''allow'' ''GET, HEAD'' else headers),
          rsp_body = body\<rparr>)"

fun map_inbound :: "inbound_error \<Rightarrow> response" where
  "map_inbound RequestTargetTooLarge = response_plan 414 ''request_target_too_large'' False"
| "map_inbound HeaderCountExceeded = response_plan 431 ''request_headers_too_large'' False"
| "map_inbound HeaderBytesExceeded = response_plan 431 ''request_headers_too_large'' False"
| "map_inbound InvalidHeader = response_plan 400 ''invalid_header'' False"
| "map_inbound RequestBodyNotAllowed = response_plan 400 ''request_body_not_allowed'' False"
| "map_inbound RequestBodyTooLarge = response_plan 413 ''request_body_too_large'' False"
| "map_inbound InvalidContentLength = response_plan 400 ''invalid_request_framing'' False"
| "map_inbound ConflictingContentLength = response_plan 400 ''invalid_request_framing'' False"
| "map_inbound UnsupportedTransferEncoding = response_plan 400 ''unsupported_transfer_encoding'' False"
| "map_inbound UnsupportedExpectation = response_plan 417 ''unsupported_expectation'' False"
| "map_inbound UnsupportedUpgrade = response_plan 400 ''unsupported_upgrade'' False"
| "map_inbound (Route error) =
     (if error = UnsupportedMethod then response_plan 405 ''method_not_allowed'' True
      else response_plan 404 ''not_found'' False)"

fun map_upstream :: "upstream_failure \<Rightarrow> response" where
  "map_upstream (Unauthorized _) = response_plan 401 ''upstream_unauthorized'' False"
| "map_upstream Forbidden = response_plan 403 ''upstream_forbidden'' False"
| "map_upstream (NotFound Layout) = response_plan 404 ''not_found'' False"
| "map_upstream (NotFound MappedContent) = response_plan 502 ''upstream_missing_content'' False"
| "map_upstream (RateLimited _) = response_plan 503 ''upstream_rate_limited'' False"
| "map_upstream (Server temporary _) =
     (if temporary then response_plan 503 ''upstream_unavailable'' False
      else response_plan 502 ''upstream_failure'' False)"
| "map_upstream Malformed = response_plan 502 ''upstream_invalid_response'' False"

subsubsection \<open>Dates\<close>

definition slice :: "'a list \<Rightarrow> nat \<Rightarrow> nat \<Rightarrow> 'a list" where
  "slice xs i j = take (j - i) (drop i xs)"

definition byte_word :: "char \<Rightarrow> 8 word" where
  "byte_word c = of_nat (byte_val c)"

text \<open>The arithmetic of \<open>two_digit_at_most\<close> is on \<open>u8\<close>.\<close>

definition two_digit_at_most :: "string \<Rightarrow> 8 word \<Rightarrow> bool" where
  "two_digit_at_most bytes maximum \<longleftrightarrow> length bytes = 2 \<and> list_all is_ascii_digit bytes
     \<and> (byte_word (bytes ! 0) - byte_word CHR ''0'') * 10 + (byte_word (bytes ! 1) - byte_word CHR ''0'')
         \<le> maximum"

definition valid_weekday :: "string \<Rightarrow> bool" where
  "valid_weekday bytes \<longleftrightarrow> bytes \<in> {''Sun'', ''Mon'', ''Tue'', ''Wed'', ''Thu'', ''Fri'', ''Sat''}"

definition valid_long_weekday :: "string \<Rightarrow> bool" where
  "valid_long_weekday bytes \<longleftrightarrow> bytes \<in> {''Sunday'', ''Monday'', ''Tuesday'', ''Wednesday'',
     ''Thursday'', ''Friday'', ''Saturday''}"

definition valid_month :: "string \<Rightarrow> bool" where
  "valid_month bytes \<longleftrightarrow> bytes \<in> {''Jan'', ''Feb'', ''Mar'', ''Apr'', ''May'', ''Jun'', ''Jul'',
     ''Aug'', ''Sep'', ''Oct'', ''Nov'', ''Dec''}"

definition valid_day :: "string \<Rightarrow> bool" where
  "valid_day bytes \<longleftrightarrow> length bytes = 2 \<and> list_all is_ascii_digit bytes
     \<and> byte_val (bytes ! 0) \<le> (byte_val CHR ''3'' :: nat)
     \<and> \<not> (bytes ! 0 = CHR ''0'' \<and> bytes ! 1 = CHR ''0'')
     \<and> \<not> (bytes ! 0 = CHR ''3'' \<and> byte_val (bytes ! 1) > (byte_val CHR ''1'' :: nat))"

definition valid_time :: "string \<Rightarrow> bool" where
  "valid_time bytes \<longleftrightarrow> length bytes = 8 \<and> bytes ! 2 = CHR '':'' \<and> bytes ! 5 = CHR '':''
     \<and> list_all is_ascii_digit (slice bytes 0 2) \<and> list_all is_ascii_digit (slice bytes 3 5)
     \<and> list_all is_ascii_digit (drop 6 bytes)
     \<and> two_digit_at_most (slice bytes 0 2) 23 \<and> two_digit_at_most (slice bytes 3 5) 59
     \<and> two_digit_at_most (drop 6 bytes) 59"

definition valid_imf_fixdate :: "string \<Rightarrow> bool" where
  "valid_imf_fixdate bytes \<longleftrightarrow> length bytes = 29
     \<and> valid_weekday (slice bytes 0 3) \<and> bytes ! 3 = CHR '','' \<and> bytes ! 4 = CHR '' ''
     \<and> valid_day (slice bytes 5 7) \<and> bytes ! 7 = CHR '' '' \<and> valid_month (slice bytes 8 11)
     \<and> bytes ! 11 = CHR '' '' \<and> list_all is_ascii_digit (slice bytes 12 16) \<and> bytes ! 16 = CHR '' ''
     \<and> valid_time (slice bytes 17 25) \<and> bytes ! 25 = CHR '' '' \<and> drop 26 bytes = ''GMT''"

fun position :: "char \<Rightarrow> string \<Rightarrow> nat option" where
  "position d [] = None"
| "position d (c # cs) = (if c = d then Some 0 else map_option Suc (position d cs))"

definition valid_rfc850_date :: "string \<Rightarrow> bool" where
  "valid_rfc850_date bytes =
     (case position CHR '','' bytes of
        None \<Rightarrow> False
      | Some comma \<Rightarrow> 6 \<le> comma \<and> comma \<le> 8
          \<and> valid_long_weekday (slice bytes 0 comma)
          \<and> (comma + 1 < length bytes \<and> bytes ! (comma + 1) = CHR '' '')
          \<and> length bytes = comma + 24
          \<and> valid_day (slice bytes (comma + 2) (comma + 4)) \<and> bytes ! (comma + 4) = CHR ''-''
          \<and> valid_month (slice bytes (comma + 5) (comma + 8)) \<and> bytes ! (comma + 8) = CHR ''-''
          \<and> list_all is_ascii_digit (slice bytes (comma + 9) (comma + 11))
          \<and> bytes ! (comma + 11) = CHR '' ''
          \<and> valid_time (slice bytes (comma + 12) (comma + 20)) \<and> bytes ! (comma + 20) = CHR '' ''
          \<and> drop (comma + 21) bytes = ''GMT'')"

definition valid_asctime_date :: "string \<Rightarrow> bool" where
  "valid_asctime_date bytes \<longleftrightarrow> length bytes = 24
     \<and> valid_weekday (slice bytes 0 3) \<and> bytes ! 3 = CHR '' '' \<and> valid_month (slice bytes 4 7)
     \<and> bytes ! 7 = CHR '' '' \<and> (is_ascii_digit (bytes ! 8) \<or> bytes ! 8 = CHR '' '')
     \<and> is_ascii_digit (bytes ! 9) \<and> bytes ! 10 = CHR '' '' \<and> valid_time (slice bytes 11 19)
     \<and> bytes ! 19 = CHR '' '' \<and> list_all is_ascii_digit (drop 20 bytes)"

definition valid_http_date :: "string \<Rightarrow> bool" where
  "valid_http_date bytes \<longleftrightarrow> valid_imf_fixdate bytes \<or> valid_rfc850_date bytes \<or> valid_asctime_date bytes"

definition valid_retry_after :: "string \<Rightarrow> bool" where
  "valid_retry_after bytes =
     (if bytes = [] then False
      else if list_all is_ascii_digit bytes then fold_decimal 0 bytes \<noteq> None
      else valid_http_date bytes)"

subsubsection \<open>The response to an error\<close>

definition map_error :: "proxy_error \<Rightarrow> response" where
  "map_error error =
     (let response =
        (case error of
           Inbound error \<Rightarrow> map_inbound error
         | Upstream error \<Rightarrow> map_upstream error
         | Timeout \<Rightarrow> response_plan 504 ''upstream_timeout'' False
         | Cancelled \<Rightarrow> response_plan 500 ''request_cancelled'' False
         | Unexpected \<Rightarrow> response_plan 500 ''internal_error'' False);
        response =
        (case error of
           Upstream (Unauthorized challenges) \<Rightarrow>
             response\<lparr>rsp_headers := foldl (\<lambda>hs challenge. header_append hs ''www-authenticate'' challenge)
               (rsp_headers response) challenges\<rparr>
         | _ \<Rightarrow> response);
        retry_after =
        (case error of
           Upstream (RateLimited retry_after) \<Rightarrow> retry_after
         | Upstream (Server temporary retry_after) \<Rightarrow> if temporary then retry_after else None
         | _ \<Rightarrow> None)
      in (case retry_after of
            None \<Rightarrow> response
          | Some value \<Rightarrow>
              if valid_retry_after value
              then response\<lparr>rsp_headers := header_insert (rsp_headers response) ''retry-after'' value\<rparr>
              else response))"

subsection \<open>What a response carries\<close>

text \<open>The failure without the two upstream values it holds.\<close>

fun erase :: "proxy_error \<Rightarrow> proxy_error" where
  "erase (Upstream (Unauthorized _)) = Upstream (Unauthorized [])"
| "erase (Upstream (RateLimited _)) = Upstream (RateLimited None)"
| "erase (Upstream (Server temporary _)) = Upstream (Server temporary None)"
| "erase error = error"

fun challenges_of :: "proxy_error \<Rightarrow> string list" where
  "challenges_of (Upstream (Unauthorized challenges)) = challenges"
| "challenges_of _ = []"

fun retry_after_of :: "proxy_error \<Rightarrow> string option" where
  "retry_after_of (Upstream (RateLimited v)) = v"
| "retry_after_of (Upstream (Server temporary v)) = (if temporary then v else None)"
| "retry_after_of _ = None"

lemma foldl_header_append:
  "foldl (\<lambda>hs v. header_append hs n v) hs vs = hs @ map (\<lambda>v. (n, v)) vs"
  by (induction vs arbitrary: hs) (simp_all add: header_append_def)

lemma response_plan_no_retry:
  "filter (\<lambda>(n, v). n \<noteq> ''retry-after'') (rsp_headers (response_plan s c a)) = rsp_headers (response_plan s c a)"
  by (simp add: response_plan_def Let_def header_append_def)

lemma map_error_eq:
  "map_error e = (map_error (erase e))\<lparr>rsp_headers := rsp_headers (map_error (erase e))
     @ map (\<lambda>c. (''www-authenticate'', c)) (challenges_of e)
     @ (case retry_after_of e of
          Some v \<Rightarrow> if valid_retry_after v then [(''retry-after'', v)] else []
        | None \<Rightarrow> [])\<rparr>"
proof (cases e)
  case (Upstream f)
  then show ?thesis
    by (cases f) (simp_all add: map_error_def Let_def foldl_header_append header_insert_def
        response_plan_no_retry split: option.splits)
qed (simp_all add: map_error_def Let_def)

definition safe_code :: "string \<Rightarrow> bool" where
  "safe_code c \<longleftrightarrow> c \<noteq> [] \<and> length c \<le> 64 \<and> list_all (\<lambda>x. is_ascii_lowercase x \<or> x = CHR ''_'') c"

definition is_plan :: "response \<Rightarrow> bool" where
  "is_plan r \<longleftrightarrow> (\<exists>s c a. r = response_plan s c a \<and> safe_code c
     \<and> s \<in> {400, 401, 403, 404, 405, 413, 414, 417, 431, 500, 502, 503, 504})"

lemma is_planI:
  "safe_code c \<Longrightarrow> s \<in> {400, 401, 403, 404, 405, 413, 414, 417, 431, 500, 502, 503, 504} \<Longrightarrow>
     is_plan (response_plan s c a)"
  unfolding is_plan_def by blast

lemma map_inbound_plan: "is_plan (map_inbound i)"
proof (cases i)
  case (Route r)
  have "safe_code ''method_not_allowed''" "safe_code ''not_found''" by code_simp+
  then show ?thesis using is_planI by (simp add: Route)
qed (simp_all only: map_inbound.simps, (rule is_planI, code_simp, simp)+)

lemma map_upstream_plan: "is_plan (map_upstream f)"
proof (cases f)
  case (NotFound r)
  have "safe_code ''not_found''" "safe_code ''upstream_missing_content''" by code_simp+
  then show ?thesis using is_planI by (cases r) (simp_all add: NotFound)
next
  case (Server t v)
  have "safe_code ''upstream_unavailable''" "safe_code ''upstream_failure''" by code_simp+
  then show ?thesis using is_planI by (cases t) (simp_all add: Server)
qed (simp_all only: map_upstream.simps, (rule is_planI, code_simp, simp)+)

lemma map_error_plan: "is_plan (map_error (erase e))"
proof (cases e)
  case (Inbound i)
  then show ?thesis using map_inbound_plan by (simp add: map_error_def)
next
  case (Upstream f)
  then show ?thesis using map_upstream_plan
    by (cases f) (simp_all add: map_error_def Let_def del: map_upstream.simps)
next
  case Timeout
  have "safe_code ''upstream_timeout''" by code_simp
  then show ?thesis using is_planI by (simp add: Timeout map_error_def)
next
  case Cancelled
  have "safe_code ''request_cancelled''" by code_simp
  then show ?thesis using is_planI by (simp add: Cancelled map_error_def)
next
  case Unexpected
  have "safe_code ''internal_error''" by code_simp
  then show ?thesis using is_planI by (simp add: Unexpected map_error_def)
qed

text \<open>The JSON document of a code.\<close>

definition error_json :: "string \<Rightarrow> string" where
  "error_json code = ''{'' @ [DQUOTE] @ ''error'' @ [DQUOTE] @ '':'' @ [DQUOTE] @ code @ [DQUOTE] @ '',''
     @ [DQUOTE] @ ''message'' @ [DQUOTE] @ '':'' @ [DQUOTE] @ ERROR_TITLE @ [DQUOTE] @ ''}''"

lemma response_plan_eq:
  "response_plan s c a = \<lparr>rsp_status = s,
     rsp_headers = [(''cache-control'', ''no-store''), (''content-type'', ERROR_CONTENT_TYPE),
       (''content-length'', decimal_string (length (error_json c))), (''x-content-type-options'', ''nosniff'')]
       @ (if a then [(''allow'', ''GET, HEAD'')] else []),
     rsp_body = error_json c\<rparr>"
  by (simp add: response_plan_def error_json_def Let_def header_append_def)

lemma map_error_fields:
  obtains s c a where "safe_code c" "s \<in> {400, 401, 403, 404, 405, 413, 414, 417, 431, 500, 502, 503, 504}"
    "rsp_status (map_error e) = s" "rsp_body (map_error e) = error_json c"
    "rsp_headers (map_error e) =
       [(''cache-control'', ''no-store''), (''content-type'', ERROR_CONTENT_TYPE),
        (''content-length'', decimal_string (length (error_json c))), (''x-content-type-options'', ''nosniff'')]
       @ (if a then [(''allow'', ''GET, HEAD'')] else [])
       @ map (\<lambda>c. (''www-authenticate'', c)) (challenges_of e)
       @ (case retry_after_of e of
          Some v \<Rightarrow> if valid_retry_after v then [(''retry-after'', v)] else []
        | None \<Rightarrow> [])"
proof -
  obtain s c a where plan: "map_error (erase e) = response_plan s c a" "safe_code c"
    "s \<in> {400, 401, 403, 404, 405, 413, 414, 417, 431, 500, 502, 503, 504}"
    using map_error_plan[of e] unfolding is_plan_def by blast
  show ?thesis
    by (rule that[OF plan(2,3)]; subst map_error_eq) (simp_all add: plan(1) response_plan_eq)
qed

lemma map_error_challenges:
  "challenges_of e \<noteq> [] \<Longrightarrow> rsp_status (map_error e) = 401"
  by (cases e rule: challenges_of.cases) (simp_all add: map_error_def Let_def response_plan_eq)

lemma map_error_retry:
  "retry_after_of e \<noteq> None \<Longrightarrow> rsp_status (map_error e) = 503"
  by (cases e rule: retry_after_of.cases)
    (auto simp: map_error_def Let_def response_plan_eq split: if_splits option.splits)

subsection \<open>Dates as grammars\<close>

lemma two_digit_at_most_iff:
  "two_digit_at_most s m \<longleftrightarrow> length s = 2 \<and> list_all is_ascii_digit s \<and> decimal_val s \<le> unat m"
proof (cases "length s = 2 \<and> list_all is_ascii_digit s")
  case True
  then obtain a b where s: "s = [a, b]" by (metis length_Suc_conv length_0_conv numeral_2_eq_2)
  with True have d: "is_ascii_digit a" "is_ascii_digit b" by simp_all
  have digit: "byte_word c - byte_word CHR ''0'' = of_nat (digit_val c)" if "is_ascii_digit c" for c
    using that by (simp add: byte_word_def digit_val_def is_ascii_digit_def)
  let ?n = "digit_val a * 10 + digit_val b"
  have le: "?n \<le> 99" using digit_val_le[OF d(1)] digit_val_le[OF d(2)] by linarith
  have "(byte_word a - byte_word CHR ''0'') * 10 + (byte_word b - byte_word CHR ''0'') = of_nat ?n"
    by (simp only: digit d) simp
  then have "(byte_word a - byte_word CHR ''0'') * 10 + (byte_word b - byte_word CHR ''0'') \<le> m
      \<longleftrightarrow> unat (of_nat ?n :: 8 word) \<le> unat m"
    by (simp only: word_le_nat_alt)
  moreover have "unat (of_nat ?n :: 8 word) = ?n"
    unfolding unat_of_nat using le by simp
  ultimately show ?thesis
    using d by (simp add: two_digit_at_most_def s decimal_val_def mult.commute)
qed (auto simp: two_digit_at_most_def)

lemma slice_drop: "i \<le> j \<Longrightarrow> drop i s = slice s i j @ drop j s"
  by (metis append_take_drop_id drop_drop le_add_diff_inverse2 slice_def)

lemma length_slice: "j \<le> length s \<Longrightarrow> length (slice s i j) = j - i"
  by (simp add: slice_def)

lemma drop_nth: "i < length s \<Longrightarrow> drop i s = s ! i # drop (Suc i) s"
  by (rule Cons_nth_drop_Suc[symmetric])

lemma valid_time_iff:
  "valid_time t \<longleftrightarrow> (\<exists>h m s. t = h @ '':'' @ m @ '':'' @ s \<and> two_digit_at_most h 23
     \<and> two_digit_at_most m 59 \<and> two_digit_at_most s 59)"
proof
  assume v: "valid_time t"
  then have len: "length t = 8" by (simp add: valid_time_def)
  have "t = slice t 0 2 @ t ! 2 # slice t 3 5 @ t ! 5 # drop 6 t"
    using slice_drop[of 0 2 t] drop_nth[of 2 t] slice_drop[of 3 5 t] drop_nth[of 5 t] len by simp
  with v show "\<exists>h m s. t = h @ '':'' @ m @ '':'' @ s \<and> two_digit_at_most h 23
     \<and> two_digit_at_most m 59 \<and> two_digit_at_most s 59"
    unfolding valid_time_def by (metis append_Cons append_Nil)
next
  assume "\<exists>h m s. t = h @ '':'' @ m @ '':'' @ s \<and> two_digit_at_most h 23
     \<and> two_digit_at_most m 59 \<and> two_digit_at_most s 59"
  then obtain h m s where t: "t = h @ '':'' @ m @ '':'' @ s" and
    "two_digit_at_most h 23" "two_digit_at_most m 59" "two_digit_at_most s 59" by blast
  moreover from this have "length h = 2" "length m = 2" "length s = 2"
    "list_all is_ascii_digit h" "list_all is_ascii_digit m" "list_all is_ascii_digit s"
    by (simp_all add: two_digit_at_most_def)
  ultimately show "valid_time t"
    by (simp add: valid_time_def slice_def nth_append)
qed

lemma valid_day_iff:
  "valid_day d \<longleftrightarrow> length d = 2 \<and> list_all is_ascii_digit d \<and> 1 \<le> decimal_val d \<and> decimal_val d \<le> 31"
proof (cases "length d = 2 \<and> list_all is_ascii_digit d")
  case True
  then obtain a b where d: "d = [a, b]" by (metis length_Suc_conv length_0_conv numeral_2_eq_2)
  have eq: "c = CHR ''0'' \<longleftrightarrow> byte_val c = (48::nat)" "c = CHR ''3'' \<longleftrightarrow> byte_val c = (51::nat)" for c
    using of_char_eq_iff[of c "CHR ''0''", where 'a = nat] of_char_eq_iff[of c "CHR ''3''", where 'a = nat]
    by simp_all
  obtain i j where n: "byte_val a = (i::nat)" "byte_val b = (j::nat)" by blast
  have range: "48 \<le> i" "i \<le> 57" "48 \<le> j" "j \<le> 57"
    using True n by (simp_all add: d is_ascii_digit_def)
  have "valid_day d \<longleftrightarrow> i \<le> 51 \<and> \<not> (i = 48 \<and> j = 48) \<and> \<not> (i = 51 \<and> j > 49)"
    using True by (simp add: d valid_day_def eq n)
  also have "\<dots> \<longleftrightarrow> 1 \<le> 10 * (i - 48) + (j - 48) \<and> 10 * (i - 48) + (j - 48) \<le> 31"
    using range by arith
  finally show ?thesis using True by (simp add: d decimal_val_def digit_val_def n)
qed (auto simp: valid_day_def)

text \<open>The preferred date format, as a grammar with ranges.\<close>

definition imf_fixdate_spec :: "string \<Rightarrow> bool" where
  "imf_fixdate_spec s \<longleftrightarrow> (\<exists>weekday day month year hour minute second.
     s = weekday @ '', '' @ day @ '' '' @ month @ '' '' @ year @ '' ''
       @ hour @ '':'' @ minute @ '':'' @ second @ '' GMT''
     \<and> valid_weekday weekday \<and> valid_month month
     \<and> (\<forall>f \<in> {day, hour, minute, second}. length f = 2 \<and> list_all is_ascii_digit f)
     \<and> length year = 4 \<and> list_all is_ascii_digit year
     \<and> 1 \<le> decimal_val day \<and> decimal_val day \<le> 31
     \<and> decimal_val hour \<le> 23 \<and> decimal_val minute \<le> 59 \<and> decimal_val second \<le> 59)"

lemma length_names:
  "valid_weekday w \<Longrightarrow> length w = 3" "valid_month w \<Longrightarrow> length w = 3"
  by (auto simp: valid_weekday_def valid_month_def)

lemma imf_fixdate_split:
  assumes "length s = 29"
  shows "s = slice s 0 3 @ s ! 3 # s ! 4 # slice s 5 7 @ s ! 7 # slice s 8 11 @ s ! 11 # slice s 12 16
    @ s ! 16 # slice s 17 25 @ s ! 25 # drop 26 s"
  using slice_drop[of 0 3 s] drop_nth[of 3 s] drop_nth[of 4 s] slice_drop[of 5 7 s] drop_nth[of 7 s]
    slice_drop[of 8 11 s] drop_nth[of 11 s] slice_drop[of 12 16 s] drop_nth[of 16 s]
    slice_drop[of 17 25 s] drop_nth[of 25 s] assms
  by simp

lemma valid_imf_fixdate_parts:
  "valid_imf_fixdate s \<longleftrightarrow> (\<exists>w d m y t. s = w @ '', '' @ d @ '' '' @ m @ '' '' @ y @ '' '' @ t @ '' GMT''
     \<and> valid_weekday w \<and> valid_day d \<and> valid_month m \<and> length y = 4 \<and> list_all is_ascii_digit y \<and> valid_time t)"
  (is "_ \<longleftrightarrow> ?R")
proof
  assume v: "valid_imf_fixdate s"
  then have len: "length s = 29" by (simp add: valid_imf_fixdate_def)
  have "s = slice s 0 3 @ '', '' @ slice s 5 7 @ '' '' @ slice s 8 11 @ '' '' @ slice s 12 16
      @ '' '' @ slice s 17 25 @ '' GMT''"
    using imf_fixdate_split[OF len] v by (simp add: valid_imf_fixdate_def)
  moreover have "length (slice s 12 16) = 4" using len by (simp add: length_slice)
  ultimately show ?R using v unfolding valid_imf_fixdate_def by blast
next
  assume ?R
  then obtain w d m y t where s: "s = w @ '', '' @ d @ '' '' @ m @ '' '' @ y @ '' '' @ t @ '' GMT''"
    and v: "valid_weekday w" "valid_day d" "valid_month m" "length y = 4" "list_all is_ascii_digit y"
      "valid_time t" by blast
  have len: "length w = 3" "length d = 2" "length m = 3" "length t = 8"
    using v length_names by (simp_all add: valid_day_def valid_time_def)
  show "valid_imf_fixdate s"
    using v len by (simp add: s valid_imf_fixdate_def slice_def nth_append)
qed

lemma valid_imf_fixdate_iff: "valid_imf_fixdate s \<longleftrightarrow> imf_fixdate_spec s"
  unfolding valid_imf_fixdate_parts valid_time_iff valid_day_iff two_digit_at_most_iff imf_fixdate_spec_def
  by (simp; safe; (simp | blast)?) (fastforce)+

text \<open>The accepted positions of the comma leave out the longest name of a day.\<close>

lemma position_first: "c \<notin> set u \<Longrightarrow> position c (u @ c # v) = Some (length u)"
  by (induction u) auto

lemma rfc850_wednesday: "\<not> valid_rfc850_date (''Wednesday, '' @ r)"
  by (simp add: valid_rfc850_date_def)

subsection \<open>Properties\<close>

text \<open>C29. Error responses reveal nothing: the response to a failure is the response to the same
  failure with its upstream values erased, plus one \<open>WWW-Authenticate\<close> field per relayed
  challenge and, when it is valid, one \<open>Retry-After\<close>. So status and body depend on the
  classification only.\<close>

theorem map_error_noninterference:
  "map_error e = (map_error (erase e))\<lparr>rsp_headers := rsp_headers (map_error (erase e))
     @ map (\<lambda>c. (''www-authenticate'', c)) (challenges_of e)
     @ (case retry_after_of e of
          Some v \<Rightarrow> if valid_retry_after v then [(''retry-after'', v)] else []
        | None \<Rightarrow> [])\<rparr>"
  by (rule map_error_eq)

text \<open>C30. Every error response is well framed: its body is the fixed JSON document around a code
  of lowercase letters and underscores, its one content length is the length of that body, it is
  never cached or sniffed, its status is one of thirteen, a challenge appears only with status
  401 and a retry time only with status 503.\<close>

theorem map_error_well_framed:
  "\<exists>code. safe_code code \<and> rsp_body (map_error e) = error_json code
    \<and> map parse_content_length (header_get_all (rsp_headers (map_error e)) ''content-length'')
        = [Ok (length (rsp_body (map_error e)))]
    \<and> header_get_all (rsp_headers (map_error e)) ''cache-control'' = [''no-store'']
    \<and> header_get_all (rsp_headers (map_error e)) ''x-content-type-options'' = [''nosniff'']
    \<and> rsp_status (map_error e) \<in> {400, 401, 403, 404, 405, 413, 414, 417, 431, 500, 502, 503, 504}
    \<and> (header_get_all (rsp_headers (map_error e)) ''www-authenticate'' = []
        \<or> rsp_status (map_error e) = 401)
    \<and> (header_get_all (rsp_headers (map_error e)) ''retry-after'' = []
        \<or> rsp_status (map_error e) = 503)"
proof -
  obtain s c a where f: "safe_code c"
    "s \<in> {400, 401, 403, 404, 405, 413, 414, 417, 431, 500, 502, 503, 504}"
    "rsp_status (map_error e) = s" "rsp_body (map_error e) = error_json c"
    "rsp_headers (map_error e) =
       [(''cache-control'', ''no-store''), (''content-type'', ERROR_CONTENT_TYPE),
        (''content-length'', decimal_string (length (error_json c))), (''x-content-type-options'', ''nosniff'')]
       @ (if a then [(''allow'', ''GET, HEAD'')] else [])
       @ map (\<lambda>c. (''www-authenticate'', c)) (challenges_of e)
       @ (case retry_after_of e of
          Some v \<Rightarrow> if valid_retry_after v then [(''retry-after'', v)] else []
        | None \<Rightarrow> [])"
    by (rule map_error_fields)
  have fields: "header_get_all (rsp_headers (map_error e)) ''content-length''
      = [decimal_string (length (error_json c))]"
    "header_get_all (rsp_headers (map_error e)) ''cache-control'' = [''no-store'']"
    "header_get_all (rsp_headers (map_error e)) ''x-content-type-options'' = [''nosniff'']"
    "header_get_all (rsp_headers (map_error e)) ''www-authenticate'' = challenges_of e"
    "retry_after_of e = None \<Longrightarrow> header_get_all (rsp_headers (map_error e)) ''retry-after'' = []"
    unfolding f(5) by (auto simp: header_get_all_def filter_map o_def split: option.splits)
  have "parse_content_length (decimal_string (length (error_json c))) = Ok (length (error_json c))"
  proof -
    have "length (error_json c) < U64_LIMIT"
      using f(1) by (simp add: safe_code_def error_json_def ERROR_TITLE_def)
    then show ?thesis
      using decimal_string_digits[of "length (error_json c)"]
      by (simp add: parse_content_length_eq content_length_of_def)
  qed
  then show ?thesis
    using f(1-4) fields map_error_challenges[of e] map_error_retry[of e] by fastforce
qed

text \<open>A relayed \<open>Retry-After\<close> is meaningful: a digit string is relayed exactly when its value
  fits in 64 bits, and the preferred date format exactly when it is a date with day 1 to 31 and
  time 00:00:00 to 23:59:59; the 8-bit arithmetic of the two-digit check does not wrap.\<close>

lemma valid_retry_after_exact:
  "valid_retry_after v \<longleftrightarrow>
     (if v \<noteq> [] \<and> list_all is_ascii_digit v then decimal_val v < U64_LIMIT
      else imf_fixdate_spec v \<or> valid_rfc850_date v \<or> valid_asctime_date v)"
  by (auto simp: valid_retry_after_def fold_decimal_0 valid_http_date_def valid_imf_fixdate_iff
      imf_fixdate_spec_def valid_rfc850_date_def valid_asctime_date_def)

text \<open>A known gap of the RFC 850 format: the longest name of a day does not fit the accepted
  positions of the comma, so no date that falls on a Wednesday is relayed in that format.\<close>

lemma no_rfc850_wednesday:
  "\<not> valid_retry_after (''Wednesday, '' @ r) \<and> valid_long_weekday ''Wednesday''"
  using rfc850_wednesday[of r]
  by (simp add: valid_retry_after_def valid_http_date_def valid_imf_fixdate_def valid_asctime_date_def
      valid_long_weekday_def is_ascii_digit_def)

end
