(* ===== verification/Proxy.thy ===== *)
theory Proxy
  imports Oci_Requests Errors
begin

text \<open>
  \<open>src/proxy.rs\<close>: the request handlers, as interaction trees over the client's operations. A reply
  is what the service hands to the connection; \<open>None\<close> stands for the panic of an \<open>expect\<close> on a
  response whose headers the builder refused.
\<close>

subsection \<open>Replies\<close>

datatype reply_body =
    Fixed string
  | Streamed blob_body
  | Passed "string option list"

record reply =
  rp_status :: nat
  rp_headers :: header_map
  rp_body :: reply_body

definition into_service_response :: "response \<Rightarrow> reply" where
  "into_service_response r =
     \<lparr>rp_status = rsp_status r, rp_headers = rsp_headers r, rp_body = Fixed (rsp_body r)\<rparr>"

text \<open>\<open>Response::builder()\<close>: a text is checked when it becomes a header value, a value is not.\<close>

datatype field = Text string string | Value string string

fun field_ok :: "field \<Rightarrow> bool" where
  "field_ok (Text name v) = (header_value_from v \<noteq> None)"
| "field_ok (Value name v) = True"

fun field_pair :: "field \<Rightarrow> string \<times> string" where
  "field_pair (Text name v) = (name, v)"
| "field_pair (Value name v) = (name, v)"

definition build_reply :: "nat \<Rightarrow> field list \<Rightarrow> reply_body \<Rightarrow> reply option" where
  "build_reply status header_fields body =
     (if list_all field_ok header_fields
      then Some \<lparr>rp_status = status, rp_headers = map field_pair header_fields, rp_body = body\<rparr> else None)"

definition fail_with :: "proxy_error \<Rightarrow> reply option io" where
  "fail_with e = Return (Some (into_service_response (map_error e)))"

definition oci_failure :: "oci_error \<Rightarrow> bool \<Rightarrow> proxy_error" where
  "oci_failure error layout_operation =
     (case error of
        OciNotFound \<Rightarrow> Upstream (NotFound (if layout_operation then Layout else MappedContent))
      | OciUnauthorized challenges \<Rightarrow> Upstream (Unauthorized challenges)
      | OciForbidden \<Rightarrow> Upstream Forbidden
      | OciRateLimited retry_after \<Rightarrow> Upstream (RateLimited retry_after)
      | OciServer temporary retry_after \<Rightarrow> Upstream (Server temporary retry_after)
      | OciTimeout \<Rightarrow> Timeout
      | InvalidLayout \<Rightarrow> Upstream Malformed
      | InvalidDescriptor \<Rightarrow> Upstream Malformed
      | Configuration \<Rightarrow> Upstream (Server False None)
      | Transport \<Rightarrow> Upstream (Server False None)
      | OciUpstream \<Rightarrow> Upstream (Server False None))"

definition map_oci_error :: "oci_error \<Rightarrow> bool \<Rightarrow> reply" where
  "map_oci_error error layout_operation = into_service_response (map_error (oci_failure error layout_operation))"

text \<open>\<open>match client.op().await { Ok(a) => f(a), Err(error) => return map_oci_error(error, layout) }\<close>.\<close>

definition or_oci_error :: "(oci_error + 'a) io \<Rightarrow> bool \<Rightarrow> ('a \<Rightarrow> reply option io) \<Rightarrow> reply option io" where
  "or_oci_error p layout f =
     bind_io p (\<lambda>r. case r of Inl error \<Rightarrow> Return (Some (map_oci_error error layout)) | Inr a \<Rightarrow> f a)"

definition PRIVATE_CACHE :: string where "PRIVATE_CACHE = ''private, no-store, no-transform''"
definition PUBLIC_CACHE :: string where
  "PUBLIC_CACHE = ''public, max-age=0, must-revalidate, no-transform''"

definition etag_of :: "string \<Rightarrow> string" where
  "etag_of digest = [DQUOTE] @ digest @ [DQUOTE]"

definition inbound_authorization :: "request \<Rightarrow> proxy_error + string option" where
  "inbound_authorization request =
     (case header_get_all (req_headers request) ''authorization'' of
        [] \<Rightarrow> Ok None
      | [v] \<Rightarrow> Ok (Some v)
      | _ \<Rightarrow> Err (Inbound InvalidHeader))"

definition representation ::
    "string \<Rightarrow> bool \<Rightarrow> string option \<Rightarrow> descriptor \<Rightarrow> blob_body \<Rightarrow> reply option" where
  "representation method authenticated if_none_match d body =
     (let etag = etag_of (d_digest d);
          cache_control = (if authenticated then PRIVATE_CACHE else PUBLIC_CACHE) in
      if if_none_match = Some etag
      then build_reply 304
        [Text ''cache-control'' cache_control, Text ''content-type'' (d_media_type d), Text ''etag'' etag,
         Text ''x-content-type-options'' ''nosniff''] (Fixed [])
      else build_reply 200
        [Text ''cache-control'' cache_control, Text ''content-type'' (d_media_type d),
         Value ''content-length'' (decimal_string (d_size d)), Text ''etag'' etag,
         Text ''x-content-type-options'' ''nosniff'']
        (if method = ''HEAD'' then Fixed [] else Streamed body))"

definition redirect_to_directory :: "string \<Rightarrow> reply option" where
  "redirect_to_directory path =
     build_reply 308 [Text ''location'' (''/'' @ path),
       Text ''cache-control'' ''public, max-age=0, must-revalidate''] (Fixed [])"

subsection \<open>The distribution interface\<close>

definition valid_sha256_digest :: "string \<Rightarrow> bool" where
  "valid_sha256_digest value =
     (case (case strip_prefix ''sha256:'' value of Some hex \<Rightarrow> Some hex
            | None \<Rightarrow> (case strip_prefix ''sha256%3A'' value of Some hex \<Rightarrow> Some hex
            | None \<Rightarrow> strip_prefix ''sha256%3a'' value)) of
        None \<Rightarrow> False
      | Some hex \<Rightarrow> length hex = 64
          \<and> list_all (\<lambda>byte. is_ascii_hexdigit byte \<and> \<not> is_ascii_uppercase byte) hex)"

fun mount_query_loop :: "string \<Rightarrow> bool \<Rightarrow> bool \<Rightarrow> string list \<Rightarrow> bool" where
  "mount_query_loop repository mount from_seen [] = (mount \<and> from_seen)"
| "mount_query_loop repository mount from_seen (part # parts) =
     (case split_once (CHR ''='') part of
        None \<Rightarrow> False
      | Some (key, value) \<Rightarrow>
          if key = ''mount'' \<and> \<not> mount \<and> valid_sha256_digest value
          then mount_query_loop repository True from_seen parts
          else if key = ''from'' \<and> \<not> from_seen \<and> value = repository
          then mount_query_loop repository mount True parts
          else False)"

fun session_query_loop :: "bool \<Rightarrow> bool \<Rightarrow> string list \<Rightarrow> bool" where
  "session_query_loop state_seen digest_seen [] = (state_seen \<or> digest_seen)"
| "session_query_loop state_seen digest_seen (part # parts) =
     (case split_once (CHR ''='') part of
        None \<Rightarrow> False
      | Some (key, value) \<Rightarrow>
          if key = ''_state'' \<and> \<not> state_seen \<and> value \<noteq> []
          then session_query_loop True digest_seen parts
          else if key = ''digest'' \<and> \<not> digest_seen \<and> valid_sha256_digest value
          then session_query_loop state_seen True parts
          else False)"

definition valid_distribution_query ::
    "distribution_target \<Rightarrow> string \<Rightarrow> string option \<Rightarrow> string \<Rightarrow> bool" where
  "valid_distribution_query target method query repository =
     (case query of
        None \<Rightarrow> True
      | Some query \<Rightarrow>
          if query = [] \<or> list_ex (\<lambda>byte. is_ascii_control byte \<or> byte = CHR ''#'') query then False
          else (case target of
            BlobUploadStart _ \<Rightarrow>
              method = ''POST'' \<and> mount_query_loop repository False False (split_on (CHR ''&'') query)
          | BlobUpload _ _ \<Rightarrow>
              method \<in> {''PATCH'', ''PUT'', ''DELETE''}
              \<and> session_query_loop False False (split_on (CHR ''&'') query)
          | _ \<Rightarrow> False))"

definition distribution_head_response ::
    "header_map \<Rightarrow> string \<Rightarrow> string \<Rightarrow> string option \<Rightarrow> reply option" where
  "distribution_head_response upstream_headers fallback_media_type cache_control fallback_digest =
     build_reply 200
       ([Text ''cache-control'' cache_control]
        @ concat (map (\<lambda>name. case header_get upstream_headers name of
             Some v \<Rightarrow> [Value name v] | None \<Rightarrow> [])
           [''content-length'', ''etag'', ''docker-content-digest''])
        @ [Text ''content-type'' (case header_get upstream_headers ''content-type'' of
             None \<Rightarrow> fallback_media_type
           | Some v \<Rightarrow> (case header_to_str v of Some s \<Rightarrow> s | None \<Rightarrow> fallback_media_type))]
        @ (if header_get upstream_headers ''docker-content-digest'' = None
           then (case fallback_digest of Some digest \<Rightarrow> [Text ''docker-content-digest'' digest] | None \<Rightarrow> [])
           else []))
       (Fixed [])"

fun allowed_methods :: "distribution_target \<Rightarrow> string" where
  "allowed_methods Version = ''GET, HEAD''"
| "allowed_methods (Manifest _ _) = ''GET, HEAD, PUT, DELETE''"
| "allowed_methods (Blob _ _) = ''GET, HEAD, DELETE''"
| "allowed_methods (BlobUploadStart _) = ''POST''"
| "allowed_methods (BlobUpload _ _) = ''PATCH, PUT, DELETE''"

definition distribution_method_not_allowed :: "distribution_target \<Rightarrow> reply" where
  "distribution_method_not_allowed target =
     (let response = map_error (Inbound (Route UnsupportedMethod)) in
      into_service_response
        (response\<lparr>rsp_headers := header_insert (rsp_headers response) ''allow'' (allowed_methods target)\<rparr>))"

definition RETURNED_HEADERS :: "string list" where
  "RETURNED_HEADERS = [''content-length'', ''content-type'', ''location'', ''etag'', ''retry-after'',
     ''www-authenticate'', ''docker-content-digest'', ''docker-upload-uuid'',
     ''docker-distribution-api-version'', ''range'']"

definition forward_distribution_write ::
    "library \<Rightarrow> client \<Rightarrow> request \<Rightarrow> string option list \<Rightarrow> string \<Rightarrow> string \<Rightarrow> string option
     \<Rightarrow> reply option io" where
  "forward_distribution_write lib c request body repository path authorization =
     or_oci_error (forward_distribution lib c path request body repository authorization) True
       (\<lambda>response. Return (build_reply (up_status response)
          (Text ''cache-control'' ''no-store''
           # concat (map (\<lambda>name. case header_get (up_headers response) name of
               Some v \<Rightarrow> [Value name v] | None \<Rightarrow> []) RETURNED_HEADERS))
          (Passed (up_body response))))"

definition version_reply :: "reply option" where
  "version_reply = build_reply 200
     [Text ''docker-distribution-api-version'' ''registry/2.0'', Value ''content-length'' ''0''] (Fixed [])"

definition manifest_reply :: "library \<Rightarrow> string \<Rightarrow> string \<Rightarrow> reply option" where
  "manifest_reply lib cache_control bytes =
     (let digest = ''sha256:'' @ lib_sha256 lib bytes in
      build_reply 200
        [Text ''content-type'' MANIFEST_MEDIA_TYPE, Value ''content-length'' (decimal_string (length bytes)),
         Text ''docker-content-digest'' digest, Text ''etag'' (etag_of digest),
         Text ''cache-control'' cache_control] (Fixed bytes))"

definition dispatch_distribution ::
    "library \<Rightarrow> client \<Rightarrow> request \<Rightarrow> string option list \<Rightarrow> string \<Rightarrow> string option
     \<Rightarrow> distribution_target \<Rightarrow> reply option io" where
  "dispatch_distribution lib c request body repository authorization target =
     (let method = req_method request;
          cache_control = (if authorization \<noteq> None \<or> has_token_broker c then PRIVATE_CACHE else PUBLIC_CACHE);
          write = (\<lambda>path. forward_distribution_write lib c request body repository path authorization);
          not_allowed = Return (Some (distribution_method_not_allowed target)) in
      case target of
        Version \<Rightarrow> if method \<in> {''GET'', ''HEAD''} then Return version_reply else not_allowed
      | Manifest _ reference \<Rightarrow>
          if method = ''GET'' then
            or_oci_error (manifest_bytes lib c repository reference authorization) True
              (\<lambda>bytes. Return (manifest_reply lib cache_control bytes))
          else if method = ''HEAD'' then
            or_oci_error (manifest_head lib c repository reference authorization) True
              (\<lambda>headers. Return (distribution_head_response headers MANIFEST_MEDIA_TYPE cache_control None))
          else if method = ''PUT'' then write (''/manifests/'' @ reference)
          else if method = ''DELETE'' then write (''/manifests/'' @ reference)
          else not_allowed
      | Blob _ digest \<Rightarrow>
          if method = ''GET'' then
            or_oci_error (blob_by_digest lib c repository digest authorization) True
              (\<lambda>(body, sz, media_type). Return (build_reply 200
                 [Text ''content-type'' media_type, Value ''content-length'' (decimal_string sz),
                  Text ''docker-content-digest'' digest, Text ''cache-control'' cache_control]
                 (Streamed body)))
          else if method = ''HEAD'' then
            or_oci_error (blob_head lib c repository digest authorization) True
              (\<lambda>headers. Return (distribution_head_response headers ''application/octet-stream''
                 cache_control (Some digest)))
          else if method = ''DELETE'' then write (''/blobs/'' @ digest)
          else not_allowed
      | BlobUploadStart _ \<Rightarrow> if method = ''POST'' then write ''/blobs/uploads/'' else not_allowed
      | BlobUpload _ upload_id \<Rightarrow>
          if method \<in> {''PATCH'', ''PUT'', ''DELETE''} then write (''/blobs/uploads/'' @ upload_id)
          else not_allowed)"

definition handle_distribution ::
    "library \<Rightarrow> client \<Rightarrow> request \<Rightarrow> string option list \<Rightarrow> string \<Rightarrow> inbound_limits \<Rightarrow> reply option io" where
  "handle_distribution lib c request body repository limits =
     (case validate_distribution_request request limits of
        Inl error \<Rightarrow> fail_with (Inbound error)
      | Inr _ \<Rightarrow>
          (case parse_path (req_path request) repository of
             Inl _ \<Rightarrow> fail_with (Upstream (NotFound Layout))
           | Inr target \<Rightarrow>
               if \<not> valid_distribution_query target (req_method request) (req_query request) repository
               then fail_with (Inbound (Route InvalidRoute))
               else (case inbound_authorization request of
                 Inl error \<Rightarrow> fail_with error
               | Inr authorization \<Rightarrow>
                   dispatch_distribution lib c request body repository authorization target)))"

subsection \<open>The browsable interface\<close>

definition directory_reply :: "bool \<Rightarrow> string \<Rightarrow> string \<Rightarrow> directory_entry list \<Rightarrow> reply option" where
  "directory_reply authenticated method directory es =
     (case render_directory_html directory es of
        Inl _ \<Rightarrow> Some (into_service_response (map_error Unexpected))
      | Inr html \<Rightarrow>
          build_reply 200
            [Text ''cache-control'' (if authenticated then PRIVATE_CACHE else PUBLIC_CACHE),
             Text ''content-type'' ''text/html; charset=utf-8'',
             Value ''content-length'' (decimal_string (length html)),
             Text ''x-content-type-options'' ''nosniff'']
            (Fixed (if method = ''HEAD'' then [] else html)))"

definition serve_path ::
    "library \<Rightarrow> client \<Rightarrow> request \<Rightarrow> string \<Rightarrow> string option \<Rightarrow> bool \<Rightarrow> string \<Rightarrow> index \<Rightarrow> reply option io" where
  "serve_path lib c request repository authorization authenticated path idx =
     (case index_object idx path of
        Some object \<Rightarrow>
          let d = descriptor_new (vo_media_type object) (vo_digest object) (vo_size object) in
          or_oci_error (blob lib c repository d authorization) False (\<lambda>body.
            Return (representation (req_method request) authenticated
              (header_get (req_headers request) ''if-none-match'') d body))
      | None \<Rightarrow>
          if path = [] \<or> ends_with path ''/'' then
            (case children idx path of
               Inl _ \<Rightarrow> fail_with (Upstream (NotFound Layout))
             | Inr es \<Rightarrow> Return (directory_reply authenticated (req_method request) path es))
          else if has_directory idx (path @ ''/'') = Ok True
          then Return (redirect_to_directory (path @ ''/''))
          else fail_with (Upstream (NotFound Layout)))"

definition handle_autoindex ::
    "library \<Rightarrow> client \<Rightarrow> request \<Rightarrow> string \<Rightarrow> inbound_limits \<Rightarrow> reply option io" where
  "handle_autoindex lib c request repository limits =
     (case validate_autoindex_request request limits of
        Inl error \<Rightarrow> fail_with (Inbound error)
      | Inr raw_target \<Rightarrow>
          (case parse_request_path raw_target of
             Inl error \<Rightarrow>
               fail_with (if error \<in> {Invalid, DirectoryNeedsTrailingSlash}
                          then Inbound (Route InvalidRoute) else Unexpected)
           | Inr path \<Rightarrow>
               (case inbound_authorization request of
                  Inl error \<Rightarrow> fail_with error
                | Inr authorization \<Rightarrow>
                    or_oci_error (autoindex_snapshot_io lib c repository authorization) True (\<lambda>snapshot.
                      serve_path lib c request repository authorization
                        (authorization \<noteq> None \<or> has_token_broker c) path (as_index snapshot)))))"

definition handle_gateway ::
    "library \<Rightarrow> client \<Rightarrow> request \<Rightarrow> string option list \<Rightarrow> string \<Rightarrow> inbound_limits \<Rightarrow> reply option io" where
  "handle_gateway lib c request body repository limits =
     (if req_path request = ''/v2/'' \<or> starts_with (req_path request) ''/v2/''
      then handle_distribution lib c request body repository limits
      else handle_autoindex lib c request repository limits)"

subsection \<open>The package routes\<close>

definition handle_route ::
    "library \<Rightarrow> client \<Rightarrow> request \<Rightarrow> enabled_protocols \<Rightarrow> inbound_limits \<Rightarrow> reply option io" where
  "handle_route lib c request enabled limits =
     (case validate_request (lib_base64url lib) (lib_base64url_decode lib) request enabled limits of
        Inl error \<Rightarrow> fail_with (Inbound error)
      | Inr route \<Rightarrow>
          if vr_protocol route \<noteq> Pypi then fail_with Unexpected
          else (case inbound_authorization request of
            Inl error \<Rightarrow> fail_with error
          | Inr authorization \<Rightarrow>
              let repository = repo_str (vr_repository route);
                  authenticated = (authorization \<noteq> None \<or> has_token_broker c) in
              or_oci_error (snapshot_io lib c repository authorization) True (\<lambda>snapshot.
                case snapshot_descriptor snapshot ''pypi'' (cpp_str (vr_protocol_path route)) of
                  None \<Rightarrow> fail_with (Upstream (NotFound Layout))
                | Some d \<Rightarrow>
                    or_oci_error (blob lib c repository d authorization) False (\<lambda>body.
                      Return (representation (req_method request) authenticated
                        (header_get (req_headers request) ''if-none-match'') d body)))))"

subsection \<open>Handlers keep to the policy\<close>

lemma obeys_or_oci_error:
  "obeys P p \<Longrightarrow> (\<And>a. obeys P (f a)) \<Longrightarrow> obeys P (or_oci_error p layout f)"
  unfolding or_oci_error_def by (rule obeys_bind) (simp_all split: sum.split)

lemma obeys_fail_with [simp]: "obeys P (fail_with e)"
  by (simp add: fail_with_def)

lemma obeys_write:
  "obeys (policy lib c repository (req_method request) v) (forward_distribution_write lib c request body repository path v)"
  unfolding forward_distribution_write_def
  by (intro obeys_or_oci_error obeys_forward_distribution) (simp_all add: FORWARDED_HEADERS_def)

lemma obeys_or_oci_error_Return:
  assumes "obeys P p" "\<And>a. \<exists>r. f a = Return r"
  shows "obeys P (or_oci_error p layout f)"
proof (rule obeys_or_oci_error[OF assms(1)])
  fix a show "obeys P (f a)" using assms(2)[of a] by auto
qed

lemma obeys_dispatch:
  "obeys (policy lib c repository (req_method request) v)
     (dispatch_distribution lib c request body repository v target)"
proof -
  define P where "P = policy lib c repository (req_method request) v"
  have writes: "obeys P (forward_distribution_write lib c request body repository path v)" for path
    unfolding P_def by (rule obeys_write)
  note reads = obeys_reads[of lib c repository "req_method request" v, folded P_def]
  show ?thesis
    unfolding dispatch_distribution_def Let_def P_def[symmetric]
    by (cases target) (simp_all add: writes reads obeys_or_oci_error_Return split: prod.split)
qed

lemma obeys_serve_path:
  "obeys (policy lib c repository (req_method request) v) (serve_path lib c request repository v authenticated path idx)"
  unfolding serve_path_def Let_def
  by (auto split: option.split sum.split intro!: obeys_or_oci_error obeys_reads)

lemma inbound_authorization_Ok:
  "inbound_authorization request = Inr v \<Longrightarrow> v = header_get (req_headers request) ''authorization''"
  by (auto simp: inbound_authorization_def header_get_hd split: list.splits)

lemma obeys_handle_gateway:
  "obeys (policy lib c repository (req_method request) (header_get (req_headers request) ''authorization''))
     (handle_gateway lib c request body repository limits)"
proof -
  let ?v = "header_get (req_headers request) ''authorization''"
  have "obeys (policy lib c repository (req_method request) ?v) (handle_distribution lib c request body repository limits)"
  proof -
    have "obeys (policy lib c repository (req_method request) ?v)
        (case inbound_authorization request of Inl error \<Rightarrow> fail_with error
         | Inr v \<Rightarrow> dispatch_distribution lib c request body repository v target)" for target
      using inbound_authorization_Ok[of request] obeys_dispatch
      by (cases "inbound_authorization request") auto
    then show ?thesis unfolding handle_distribution_def by (simp split: sum.split)
  qed
  moreover have "obeys (policy lib c repository (req_method request) ?v) (handle_autoindex lib c request repository limits)"
  proof -
    have "obeys (policy lib c repository (req_method request) ?v)
        (case inbound_authorization request of Inl error \<Rightarrow> fail_with error
         | Inr v \<Rightarrow> or_oci_error (autoindex_snapshot_io lib c repository v) True (\<lambda>snapshot.
             serve_path lib c request repository v (v \<noteq> None \<or> has_token_broker c) path (as_index snapshot)))" for path
      using inbound_authorization_Ok[of request]
      by (cases "inbound_authorization request") (auto intro!: obeys_or_oci_error obeys_reads obeys_serve_path)
    then show ?thesis unfolding handle_autoindex_def by (simp split: sum.split)
  qed
  ultimately show ?thesis unfolding handle_gateway_def by simp
qed

subsection \<open>Bounds of the handlers\<close>

lemma within_or_oci_error: "within p m \<Longrightarrow> (\<And>a. within (f a) n) \<Longrightarrow> within (or_oci_error p layout f) (m + n)"
  unfolding or_oci_error_def by (rule within_bind) (simp_all split: sum.split)

lemma sends_or_oci_error: "sends p m \<Longrightarrow> (\<And>a. sends (f a) n) \<Longrightarrow> sends (or_oci_error p layout f) (m + n)"
  unfolding or_oci_error_def by (rule sends_bind) (simp_all split: sum.split)

lemma bounds_fail_with [simp]: "within (fail_with e) n" "sends (fail_with e) n"
  by (simp_all add: fail_with_def)

lemma try_rrm_bounds:
  assumes "\<And>r. \<exists>a. f r = Return a"
  shows "within (try_io (request_response_method lib c method repository path accept v) f) 6"
    and "sends (try_io (request_response_method lib c method repository path accept v) f) 3"
proof -
  have f: "within (f r) 0 \<and> sends (f r) 0" for r using assms[of r] by auto
  show "within (try_io (request_response_method lib c method repository path accept v) f) 6"
    using within_try[OF bounds_request_response_method(1), of f 0] f by simp
  show "sends (try_io (request_response_method lib c method repository path accept v) f) 3"
    using sends_try[OF bounds_request_response_method(2), of f 0] f by simp
qed

lemma lift_Return: "\<exists>a. lift_io r (\<lambda>x. Return (g x)) = Return a"
  by (cases r) auto

lemma bounds_reads:
  "within (manifest_bytes lib c repository reference v) 6" "sends (manifest_bytes lib c repository reference v) 3"
  "within (manifest_head lib c repository reference v) 6" "sends (manifest_head lib c repository reference v) 3"
  "within (blob_head lib c repository digest v) 6" "sends (blob_head lib c repository digest v) 3"
  "within (blob_by_digest lib c repository digest v) 6" "sends (blob_by_digest lib c repository digest v) 3"
  "within (blob lib c repository d v) 6" "sends (blob lib c repository d v) 3"
  "within (autoindex_snapshot_io lib c repository v) 6" "sends (autoindex_snapshot_io lib c repository v) 3"
proof -
  have json: "within (get_json lib c repository reference accept v) 6"
    "sends (get_json lib c repository reference accept v) 3" for reference accept
    unfolding get_json_def request_response_def by (intro try_rrm_bounds; simp)+
  show "within (manifest_bytes lib c repository reference v) 6" "sends (manifest_bytes lib c repository reference v) 3"
    by (simp_all add: manifest_bytes_def json)
  show "within (manifest_head lib c repository reference v) 6" "sends (manifest_head lib c repository reference v) 3"
    by (auto simp: manifest_head_def intro: try_rrm_bounds)
  show "within (blob_head lib c repository digest v) 6" "sends (blob_head lib c repository digest v) 3"
    unfolding blob_head_def by (intro within_lift sends_lift try_rrm_bounds; simp)+
  show "within (blob_by_digest lib c repository digest v) 6" "sends (blob_by_digest lib c repository digest v) 3"
    unfolding blob_by_digest_def request_response_def Let_def
    by (intro within_lift sends_lift try_rrm_bounds lift_Return)+
  show "within (blob lib c repository d v) 6" "sends (blob lib c repository d v) 3"
    unfolding blob_def request_response_def by (intro within_lift sends_lift try_rrm_bounds; simp)+
  have "within (autoindex_snapshot_io lib c repository v) (6 + 0)" "sends (autoindex_snapshot_io lib c repository v) (3 + 0)"
    unfolding autoindex_snapshot_io_def by (intro within_try sends_try json; simp)+
  then show "within (autoindex_snapshot_io lib c repository v) 6" "sends (autoindex_snapshot_io lib c repository v) 3"
    by simp_all
qed

lemma bounds_write:
  "within (forward_distribution_write lib c request body repository path v) 1"
  "sends (forward_distribution_write lib c request body repository path v) 1"
proof -
  have "within (forward_distribution lib c path request body repository v) 1"
    unfolding forward_distribution_def Let_def
    by (rule within_lift) (auto intro!: within_lift)
  moreover have "sends (forward_distribution lib c path request body repository v) 1"
    unfolding forward_distribution_def Let_def
    by (rule sends_lift) (auto intro!: sends_lift)
  ultimately have "within (forward_distribution_write lib c request body repository path v) (1 + 0)"
    "sends (forward_distribution_write lib c request body repository path v) (1 + 0)"
    unfolding forward_distribution_write_def by (intro within_or_oci_error sends_or_oci_error; simp)+
  then show "within (forward_distribution_write lib c request body repository path v) 1"
    "sends (forward_distribution_write lib c request body repository path v) 1" by simp_all
qed

lemma bounds_or_oci_error_Return:
  "within p n \<Longrightarrow> (\<And>a. \<exists>r. f a = Return r) \<Longrightarrow> within (or_oci_error p layout f) n"
  "sends p m \<Longrightarrow> (\<And>a. \<exists>r. f a = Return r) \<Longrightarrow> sends (or_oci_error p layout f) m"
proof -
  assume f: "\<And>a. \<exists>r. f a = Return r"
  have z: "within (f a) 0 \<and> sends (f a) 0" for a using f[of a] by auto
  show "within p n \<Longrightarrow> within (or_oci_error p layout f) n"
    using within_or_oci_error[of p n f 0] z by simp
  show "sends p m \<Longrightarrow> sends (or_oci_error p layout f) m"
    using sends_or_oci_error[of p m f 0] z by simp
qed

lemma bounds_dispatch:
  "within (dispatch_distribution lib c request body repository v target) 6"
  "sends (dispatch_distribution lib c request body repository v target) 3"
  using within_mono[OF bounds_write(1), of 6] sends_mono[OF bounds_write(2), of 3]
  unfolding dispatch_distribution_def Let_def
  by (cases target; simp add: bounds_reads bounds_or_oci_error_Return split: prod.split)+

lemma bounds_handle_gateway:
  "within (handle_gateway lib c request body repository limits) 12"
  "sends (handle_gateway lib c request body repository limits) 6"
proof -
  have serve: "within (serve_path lib c request repository v authenticated path idx) 6"
    "sends (serve_path lib c request repository v authenticated path idx) 3" for v authenticated path idx
    unfolding serve_path_def Let_def
    by (simp_all add: bounds_reads bounds_or_oci_error_Return split: option.split sum.split)
  have read: "within (or_oci_error (autoindex_snapshot_io lib c repository v) True (\<lambda>snapshot.
       serve_path lib c request repository v a path (as_index snapshot))) (6 + 6)"
    "sends (or_oci_error (autoindex_snapshot_io lib c repository v) True (\<lambda>snapshot.
       serve_path lib c request repository v a path (as_index snapshot))) (3 + 3)" for v a path
    by (intro within_or_oci_error sends_or_oci_error bounds_reads serve)+
  show "within (handle_gateway lib c request body repository limits) 12"
    using within_mono[OF bounds_dispatch(1), of 12] read(1)
    by (simp add: handle_gateway_def handle_distribution_def handle_autoindex_def split: sum.split)
  show "sends (handle_gateway lib c request body repository limits) 6"
    using sends_mono[OF bounds_dispatch(2), of 6] read(2)
    by (simp add: handle_gateway_def handle_distribution_def handle_autoindex_def split: sum.split)
qed

end
