(* ===== verification/Interleaving.thy ===== *)
theory Interleaving
  imports Effects
begin

text \<open>
  Tasks that share one token cache. The server runs one task per request on a multi-threaded
  executor; the mutex around the cache is held for one operation at a time, so a run is an
  interleaving of the operations of the tasks, with any answers of the upstream and a clock that
  does not run backwards. A history lists the task, the time and the event of every step.
\<close>

record 'a system =
  sys_cache :: token_cache
  sys_clock :: nat
  sys_tasks :: "'a io list"

type_synonym history = "(nat \<times> nat \<times> event) list"

inductive step :: "'a system \<Rightarrow> nat \<times> nat \<times> event \<Rightarrow> 'a system \<Rightarrow> bool" where
  send: "i < length (sys_tasks s) \<Longrightarrow> sys_tasks s ! i = Send r k \<Longrightarrow> sys_clock s \<le> t \<Longrightarrow>
    step s (i, t, Sent r x) (s\<lparr>sys_clock := t, sys_tasks := (sys_tasks s)[i := k x]\<rparr>)"
| look: "i < length (sys_tasks s) \<Longrightarrow> sys_tasks s ! i = Cache_get repository k \<Longrightarrow> sys_clock s \<le> t \<Longrightarrow>
    step s (i, t, Looked_up repository (fst (token_cache_get t (sys_cache s) repository)))
      (s\<lparr>sys_clock := t, sys_cache := snd (token_cache_get t (sys_cache s) repository),
         sys_tasks := (sys_tasks s)[i := k (fst (token_cache_get t (sys_cache s) repository))]\<rparr>)"
| drop: "i < length (sys_tasks s) \<Longrightarrow> sys_tasks s ! i = Cache_remove repository p \<Longrightarrow> sys_clock s \<le> t \<Longrightarrow>
    step s (i, t, Removed repository)
      (s\<lparr>sys_clock := t, sys_cache := token_cache_remove (sys_cache s) repository,
         sys_tasks := (sys_tasks s)[i := p]\<rparr>)"
| store: "i < length (sys_tasks s) \<Longrightarrow> sys_tasks s ! i = Cache_insert repository token expires_in p \<Longrightarrow>
    sys_clock s \<le> t \<Longrightarrow>
    step s (i, t, Inserted repository token expires_in)
      (s\<lparr>sys_clock := t, sys_cache := token_cache_insert t (sys_cache s) repository token expires_in,
         sys_tasks := (sys_tasks s)[i := p]\<rparr>)"

inductive steps :: "'a system \<Rightarrow> history \<Rightarrow> 'a system \<Rightarrow> bool" for s where
  start: "steps s [] s"
| snoc: "steps s h s' \<Longrightarrow> step s' e s'' \<Longrightarrow> steps s (h @ [e]) s''"

inductive_cases stepE: "step s e s'"

definition start_system :: "'a io list \<Rightarrow> 'a system" where
  "start_system tasks = \<lparr>sys_cache = token_cache_default, sys_clock = 0, sys_tasks = tasks\<rparr>"

definition finished :: "'a system \<Rightarrow> bool" where
  "finished s \<longleftrightarrow> (\<forall>p \<in> set (sys_tasks s). \<exists>a. p = Return a)"

subsection \<open>A run from the point of view of one task\<close>

definition project :: "nat \<Rightarrow> history \<Rightarrow> event list" where
  "project i h = map (\<lambda>e. snd (snd e)) (filter (\<lambda>e. fst e = i) h)"

lemma project_simps [simp]:
  "project i [] = []" "project i (h1 @ h2) = project i h1 @ project i h2"
  "project i [e] = (if fst e = i then [snd (snd e)] else [])"
  by (simp_all add: project_def)

lemma step_task:
  assumes "step s e s'"
  shows "length (sys_tasks s') = length (sys_tasks s)"
    and "fst e < length (sys_tasks s)"
    and "advance (sys_tasks s ! fst e) [snd (snd e)] (sys_tasks s' ! fst e)"
    and "j \<noteq> fst e \<Longrightarrow> sys_tasks s' ! j = sys_tasks s ! j"
    and "sys_clock s \<le> fst (snd e)" and "sys_clock s' = fst (snd e)"
  using assms by (induction s e s' rule: step.induct) (auto intro: advance.intros)

lemma steps_length: "steps s h s' \<Longrightarrow> length (sys_tasks s') = length (sys_tasks s)"
  by (induction rule: steps.induct) (simp_all add: step_task(1))

lemma steps_project:
  "steps s h s' \<Longrightarrow> i < length (sys_tasks s) \<Longrightarrow> advance (sys_tasks s ! i) (project i h) (sys_tasks s' ! i)"
proof (induction rule: steps.induct)
  case (snoc h s' e s'')
  then show ?case
    using step_task(3,4)[OF snoc.hyps(2)] advance_append[of _ "project i h"] by (cases "fst e = i") auto
qed (simp add: advance.stay)

lemma project_split:
  assumes "project i h = t1 @ e # t2"
  shows "\<exists>h1 t h2. h = h1 @ (i, t, e) # h2 \<and> project i h1 = t1"
  using assms
proof (induction h arbitrary: t1)
  case (Cons x h)
  show ?case
  proof (cases "fst x = i")
    case True
    then have px: "project i (x # h) = snd (snd x) # project i h" by (simp add: project_def)
    show ?thesis
    proof (cases t1)
      case Nil
      then show ?thesis using px Cons.prems True
        by (intro exI[of _ "[]"] exI[of _ "fst (snd x)"] exI[of _ h]) (cases x, auto)
    next
      case (Cons y t1')
      then obtain h1 t h2 where "h = h1 @ (i, t, e) # h2" "project i h1 = t1'"
        using Cons.IH[of t1'] Cons.prems px by auto
      then show ?thesis using Cons Cons.prems px True
        by (intro exI[of _ "x # h1"] exI[of _ t] exI[of _ h2]) (auto simp: project_def)
    qed
  next
    case False
    then have "project i (x # h) = project i h" by (simp add: project_def)
    with Cons.IH[of t1] Cons.prems obtain h1 t h2 where "h = h1 @ (i, t, e) # h2" "project i h1 = t1" by auto
    then show ?thesis using False
      by (intro exI[of _ "x # h1"] exI[of _ t] exI[of _ h2]) (auto simp: project_def)
  qed
qed simp

lemma steps_prefix:
  assumes "steps s h s'" "h = h1 @ h2" shows "\<exists>s1. steps s h1 s1"
  using assms
proof (induction arbitrary: h2 rule: steps.induct)
  case (snoc h s' e s'')
  show ?case
  proof (cases h2 rule: rev_cases)
    case Nil
    then have "h1 = h @ [e]" using snoc.prems by simp
    then show ?thesis using steps.snoc[OF snoc.hyps] by blast
  next
    case (snoc h2' e')
    then have "h = h1 @ h2'" using snoc.prems by simp
    then show ?thesis using snoc.IH by blast
  qed
qed (auto intro: steps.start)

lemma steps_obey:
  assumes "steps s h s'" "h = h1 @ (i, t, e) # h2" "obeys P (sys_tasks s ! i)"
  shows "P (project i h1) e"
proof -
  obtain s1 where s1: "steps s (h1 @ [(i, t, e)]) s1"
    using steps_prefix[OF assms(1), of "h1 @ [(i, t, e)]" h2] assms(2) by auto
  then have "i < length (sys_tasks s)"
    by (cases rule: steps.cases) (auto simp: steps_length dest: step_task(2))
  from obeys_complies[OF assms(3) steps_project[OF s1 this]] show ?thesis
    by (simp add: complies_def)
qed

subsection \<open>The cache of a run\<close>

fun insertion :: "nat \<times> nat \<times> event \<Rightarrow> (string \<times> string \<times> nat) list" where
  "insertion (i, t, Inserted repository token expires_in) = [(repository, token, t)]"
| "insertion _ = []"

definition insertions :: "history \<Rightarrow> (string \<times> string \<times> nat) list" where
  "insertions h = rev (concat (map insertion h))"

lemma insertions_snoc [simp]: "insertions (h @ [e]) = insertion e @ insertions h"
  by (cases "(e)" rule: insertion.cases) (simp_all add: insertions_def)

lemma steps_cache:
  "steps s h s' \<Longrightarrow> sys_cache s = token_cache_default \<Longrightarrow>
     cache_ok (sys_cache s') (sys_clock s') (insertions h)"
proof (induction rule: steps.induct)
  case start
  then show ?case using cache_run_ok[OF cache_run.start] by (simp add: insertions_def)
next
  case (snoc h s' e s'')
  then have ok: "cache_ok (sys_cache s') (sys_clock s') (insertions h)" by simp
  from snoc.hyps(2) show ?case
  proof (cases rule: step.cases)
    case (send i r k t x)
    then show ?thesis using cache_ok_weaken[OF ok, of t] by simp
  next
    case (look i repository k t)
    then show ?thesis using cache_ok_get[OF ok, of t repository] by simp
  next
    case (drop i repository p t)
    then show ?thesis using cache_ok_remove[OF ok, of t repository] by simp
  next
    case (store i repository token expires_in p t)
    then show ?thesis using cache_ok_insert[OF ok, of t repository token expires_in] by simp
  qed
qed

lemma insertions_mem:
  "(repository, token, t) \<in> set (insertions h) \<Longrightarrow>
     \<exists>h1 i expires_in h2. h = h1 @ (i, t, Inserted repository token expires_in) # h2"
proof (induction h rule: rev_induct)
  case (snoc e h)
  from snoc.prems consider "(repository, token, t) \<in> set (insertion e)" | "(repository, token, t) \<in> set (insertions h)"
    by auto
  then show ?case
  proof cases
    case 1
    then obtain i expires_in where "e = (i, t, Inserted repository token expires_in)"
      by (cases e rule: insertion.cases) auto
    then show ?thesis by blast
  next
    case 2
    then show ?thesis using snoc.IH by fastforce
  qed
qed (simp add: insertions_def)

text \<open>A token found in the cache was stored there for the same repository, less than the longest
  lifetime ago.\<close>

lemma steps_lookup:
  assumes run: "steps s h s'" and cache: "sys_cache s = token_cache_default"
    and h: "h = h1 @ (i, t, Looked_up repository (Some token)) # h2"
  shows "\<exists>g1 j t0 expires_in g2. h1 = g1 @ (j, t0, Inserted repository token expires_in) # g2
    \<and> t0 \<le> t \<and> t < t0 + MAX_LIFETIME"
proof -
  obtain s2 where "steps s (h1 @ [(i, t, Looked_up repository (Some token))]) s2"
    using steps_prefix[OF run, of "h1 @ [(i, t, Looked_up repository (Some token))]" h2] h by auto
  then obtain s1 where s1: "steps s h1 s1" and st: "step s1 (i, t, Looked_up repository (Some token)) s2"
    by (cases rule: steps.cases) auto
  have ok: "cache_ok (sys_cache s1) (sys_clock s1) (insertions h1)" by (rule steps_cache[OF s1 cache])
  from st have found: "fst (token_cache_get t (sys_cache s1) repository) = Some token" and t: "sys_clock s1 \<le> t"
    by (auto elim: stepE)
  have wf: "bt_wf (entries (sys_cache s1))" using ok by (simp add: cache_ok_def)
  obtain x where x: "bt_get (entries (sys_cache s1)) repository = Some x" "t < ct_expires_at x"
      "ct_authorization x = token"
    using found by (auto simp: token_cache_get_fst[OF wf] split: option.splits if_splits)
  then obtain t0 where t0: "(repository, token, t0) \<in> set (insertions h1)" "t0 \<le> sys_clock s1"
      "ct_expires_at x \<le> t0 + MAX_LIFETIME"
    using ok unfolding cache_ok_def by blast
  moreover obtain g1 j expires_in g2 where "h1 = g1 @ (j, t0, Inserted repository token expires_in) # g2"
    using insertions_mem[OF t0(1)] by blast
  moreover have "t0 \<le> t" "t < t0 + MAX_LIFETIME" using t0 t x by linarith+
  ultimately show ?thesis by blast
qed

subsection \<open>Termination\<close>

lemma step_within:
  assumes "step s e s'" "length ns = length (sys_tasks s)"
    "\<forall>i < length ns. within (sys_tasks s ! i) (ns ! i)"
  shows "\<exists>ms. length ms = length ns \<and> (\<forall>i < length ms. within (sys_tasks s' ! i) (ms ! i))
    \<and> sum_list ns = Suc (sum_list ms)"
proof -
  let ?i = "fst e"
  have i: "?i < length ns" using step_task(2)[OF assms(1)] assms(2) by simp
  have w: "0 < ns ! ?i \<and> within (sys_tasks s' ! ?i) (ns ! ?i - 1)"
    using within_advance[OF step_task(3)[OF assms(1)], of "ns ! ?i"] assms(3) i by auto
  define ms where "ms = ns[?i := ns ! ?i - 1]"
  have "length ms = length ns" by (simp add: ms_def)
  moreover have "within (sys_tasks s' ! j) (ms ! j)" if "j < length ms" for j
    using that w assms(3) step_task(4)[OF assms(1), of j] by (cases "j = ?i") (simp_all add: ms_def)
  moreover have "sum_list ns = Suc (sum_list ms)"
    using w i elem_le_sum_list[OF i] by (simp add: ms_def sum_list_update)
  ultimately show ?thesis by (intro exI[of _ ms]) simp
qed

lemma steps_within:
  assumes "steps s h s'" "\<forall>p \<in> set (sys_tasks s). within p n"
  shows "length h \<le> n * length (sys_tasks s)"
proof -
  have "\<exists>ms. length ms = length (sys_tasks s) \<and> (\<forall>i < length ms. within (sys_tasks s' ! i) (ms ! i))
      \<and> sum_list ms + length h = n * length (sys_tasks s)"
    using assms(1)
  proof (induction rule: steps.induct)
    case start
    then show ?case using assms(2)
      by (intro exI[of _ "replicate (length (sys_tasks s)) n"]) (simp add: sum_list_replicate)
  next
    case (snoc h s' e s'')
    then obtain ns where ns: "length ns = length (sys_tasks s)"
      "\<forall>i < length ns. within (sys_tasks s' ! i) (ns ! i)"
      "sum_list ns + length h = n * length (sys_tasks s)" by blast
    have "length ns = length (sys_tasks s')" using ns(1) steps_length[OF snoc.hyps(1)] by simp
    from step_within[OF snoc.hyps(2) this ns(2)] ns show ?case by force
  qed
  then show ?thesis by auto
qed

text \<open>A system that has not finished can take a step.\<close>

lemma progress:
  assumes "\<not> finished s" shows "\<exists>e s'. step s e s'"
proof -
  obtain p where "p \<in> set (sys_tasks s)" and p: "\<And>a. p \<noteq> Return a"
    using assms unfolding finished_def by blast
  then obtain i where i: "i < length (sys_tasks s)" and pi: "sys_tasks s ! i = p" by (auto simp: in_set_conv_nth)
  show ?thesis
  proof (cases p)
    case (Return a)
    then show ?thesis using p by blast
  next
    case (Send r k)
    then show ?thesis using step.send[OF i, of r k "sys_clock s"] pi by blast
  next
    case (Cache_get repository k)
    then show ?thesis using step.look[OF i, of repository k "sys_clock s"] pi by blast
  next
    case (Cache_remove repository q)
    then show ?thesis using step.drop[OF i, of repository q "sys_clock s"] pi by blast
  next
    case (Cache_insert repository token expires_in q)
    then show ?thesis using step.store[OF i, of repository token expires_in q "sys_clock s"] pi by blast
  qed
qed

text \<open>From every point of a run the system can finish, in a bounded number of steps.\<close>

lemma completes:
  assumes "steps s h s'" "\<forall>p \<in> set (sys_tasks s). within p n"
  shows "\<exists>h' s''. steps s (h @ h') s'' \<and> finished s''"
  using assms(1)
proof (induction "n * length (sys_tasks s) - length h" arbitrary: h s' rule: less_induct)
  case less
  show ?case
  proof (cases "finished s'")
    case True
    then show ?thesis using less.prems by (metis append.right_neutral)
  next
    case False
    then obtain e s2 where "step s' e s2" using progress by blast
    then have s2: "steps s (h @ [e]) s2" using steps.snoc[OF less.prems] by blast
    then have "length (h @ [e]) \<le> n * length (sys_tasks s)" by (rule steps_within[OF _ assms(2)])
    then have "n * length (sys_tasks s) - length (h @ [e]) < n * length (sys_tasks s) - length h" by simp
    from less.hyps[OF this s2] show ?thesis by (metis append.assoc)
  qed
qed


subsection \<open>Serial runs are interleavings\<close>

lemma steps_append: "steps s1 h2 s2 \<Longrightarrow> steps s h1 s1 \<Longrightarrow> steps s (h1 @ h2) s2"
proof (induction rule: steps.induct)
  case (snoc h s' e s'')
  then show ?case using steps.snoc[of s "h1 @ h"] by simp
qed simp

text \<open>The cache after a history at one time, if its lookups are the ones the cache gives.\<close>

fun replay :: "nat \<Rightarrow> token_cache \<Rightarrow> event list \<Rightarrow> token_cache option" where
  "replay t cache [] = Some cache"
| "replay t cache (Sent r x # tr) = replay t cache tr"
| "replay t cache (Looked_up repository found # tr) =
     (if fst (token_cache_get t cache repository) = found
      then replay t (snd (token_cache_get t cache repository)) tr else None)"
| "replay t cache (Removed repository # tr) = replay t (token_cache_remove cache repository) tr"
| "replay t cache (Inserted repository token expires_in # tr) =
     replay t (token_cache_insert t cache repository token expires_in) tr"

lemma serial_run:
  assumes "advance p tr q" "replay t (sys_cache s) tr = Some cache" "i < length (sys_tasks s)"
    "sys_tasks s ! i = p" "sys_clock s \<le> t"
  shows "\<exists>s'. steps s (map (\<lambda>e. (i, t, e)) tr) s' \<and> sys_cache s' = cache \<and> sys_clock s' \<le> t
    \<and> sys_tasks s' = (sys_tasks s)[i := q]"
  using assms
proof (induction p tr q arbitrary: s rule: advance.induct)
  case (stay p)
  then show ?case by (intro exI[of _ s]) (auto simp: steps.start)
next
  case (send k x tr q r)
  let ?s = "s\<lparr>sys_clock := t, sys_tasks := (sys_tasks s)[i := k x]\<rparr>"
  have "step s (i, t, Sent r x) ?s" using send.prems by (intro step.send) auto
  moreover obtain s' where "steps ?s (map (\<lambda>e. (i, t, e)) tr) s'" "sys_cache s' = cache" "sys_clock s' \<le> t"
    "sys_tasks s' = (sys_tasks s)[i := q]" using send.IH[of ?s] send.prems by auto
  ultimately show ?case
    using steps_append[of ?s _ s' s "[(i, t, Sent r x)]"] steps.snoc[OF steps.start, of s "(i, t, Sent r x)" ?s] by auto
next
  case (look k found tr q repository)
  let ?c = "snd (token_cache_get t (sys_cache s) repository)"
  let ?s = "s\<lparr>sys_clock := t, sys_cache := ?c, sys_tasks := (sys_tasks s)[i := k found]\<rparr>"
  have found: "fst (token_cache_get t (sys_cache s) repository) = found"
    using look.prems(1) by (simp split: if_splits)
  then have "step s (i, t, Looked_up repository found) ?s"
    using step.look[OF look.prems(2,3,4)] by (simp only:)
  moreover obtain s' where "steps ?s (map (\<lambda>e. (i, t, e)) tr) s'" "sys_cache s' = cache" "sys_clock s' \<le> t"
    "sys_tasks s' = (sys_tasks s)[i := q]" using look.IH[of ?s] look.prems found by auto
  ultimately show ?case
    using steps_append[of ?s _ s' s "[(i, t, Looked_up repository found)]"]
      steps.snoc[OF steps.start, of s "(i, t, Looked_up repository found)" ?s] by auto
next
  case (drop p tr q repository)
  let ?s = "s\<lparr>sys_clock := t, sys_cache := token_cache_remove (sys_cache s) repository, sys_tasks := (sys_tasks s)[i := p]\<rparr>"
  have "step s (i, t, Removed repository) ?s" using drop.prems by (intro step.drop) auto
  moreover obtain s' where "steps ?s (map (\<lambda>e. (i, t, e)) tr) s'" "sys_cache s' = cache" "sys_clock s' \<le> t"
    "sys_tasks s' = (sys_tasks s)[i := q]" using drop.IH[of ?s] drop.prems by auto
  ultimately show ?case
    using steps_append[of ?s _ s' s "[(i, t, Removed repository)]"]
      steps.snoc[OF steps.start, of s "(i, t, Removed repository)" ?s] by auto
next
  case (store p tr q repository token expires_in)
  let ?s = "s\<lparr>sys_clock := t, sys_cache := token_cache_insert t (sys_cache s) repository token expires_in,
    sys_tasks := (sys_tasks s)[i := p]\<rparr>"
  have "step s (i, t, Inserted repository token expires_in) ?s" using store.prems by (intro step.store) auto
  moreover obtain s' where "steps ?s (map (\<lambda>e. (i, t, e)) tr) s'" "sys_cache s' = cache" "sys_clock s' \<le> t"
    "sys_tasks s' = (sys_tasks s)[i := q]" using store.IH[of ?s] store.prems by auto
  ultimately show ?case
    using steps_append[of ?s _ s' s "[(i, t, Inserted repository token expires_in)]"]
      steps.snoc[OF steps.start, of s "(i, t, Inserted repository token expires_in)" ?s] by auto
qed

end
