(* ===== verification/Gateway_Safety.thy ===== *)
theory Gateway_Safety
  imports Proxy Interleaving
begin

text \<open>
  What the handlers of \<open>src/proxy.rs\<close> guarantee: which requests reach the upstream and with which
  credentials, that every request is answered, what the replies carry, and how the tokens of the
  shared cache are used when requests run concurrently.
\<close>

subsection \<open>What the reads return\<close>

lemma exec_lift:
  "exec (lift_io r f) tr b \<longleftrightarrow>
     (\<exists>e. r = Inl e \<and> tr = [] \<and> b = Inl e) \<or> (\<exists>a. r = Inr a \<and> exec (f a) tr b)"
  by (cases r) auto

lemma exec_lift_Ok: "exec (lift_io r f) tr (Inr b) \<longleftrightarrow> (\<exists>a. r = Inr a \<and> exec (f a) tr (Inr b))"
  by (simp add: exec_lift)

lemma exec_try_Ok: "exec (try_io p f) tr (Inr b) \<longleftrightarrow>
    (\<exists>t1 t2 a. tr = t1 @ t2 \<and> exec p t1 (Inr a) \<and> exec (f a) t2 (Inr b))"
  by (simp add: exec_try)

lemma exec_try_Return: "exec (try_io p (\<lambda>a. Return (f a))) tr (Inr b) \<Longrightarrow> \<exists>a. f a = Inr b"
  by (auto simp: exec_try_Ok)

lemma exec_try_lift_Return:
  "exec (try_io p (\<lambda>a. lift_io (g a) (\<lambda>x. Return (f a x)))) tr (Inr b) \<Longrightarrow> \<exists>a x. g a = Inr x \<and> f a x = Inr b"
  by (auto simp: exec_try_Ok exec_lift) metis

lemma exec_or_oci_error:
  "exec (or_oci_error p layout f) tr b \<longleftrightarrow>
     (\<exists>e. exec p tr (Inl e) \<and> b = Some (map_oci_error e layout))
     \<or> (\<exists>t1 t2 a. tr = t1 @ t2 \<and> exec p t1 (Inr a) \<and> exec (f a) t2 b)"
proof -
  have "exec (or_oci_error p layout f) tr b \<longleftrightarrow> (\<exists>t1 t2 r. tr = t1 @ t2 \<and> exec p t1 r
      \<and> exec (case r of Inl error \<Rightarrow> Return (Some (map_oci_error error layout)) | Inr a \<Rightarrow> f a) t2 b)"
    unfolding or_oci_error_def exec_bind by blast
  also have "\<dots> \<longleftrightarrow> (\<exists>t1 t2 r. tr = t1 @ t2 \<and> exec p t1 r
      \<and> ((\<exists>e. r = Inl e \<and> t2 = [] \<and> b = Some (map_oci_error e layout)) \<or> (\<exists>a. r = Inr a \<and> exec (f a) t2 b)))"
    by (intro iff_exI conj_cong refl) (auto split: sum.split)
  also have "\<dots> \<longleftrightarrow> (\<exists>e. exec p tr (Inl e) \<and> b = Some (map_oci_error e layout))
     \<or> (\<exists>t1 t2 a. tr = t1 @ t2 \<and> exec p t1 (Inr a) \<and> exec (f a) t2 b)"
    by (auto 0 4)
  finally show ?thesis .
qed

definition printable :: "string \<Rightarrow> bool" where
  "printable v \<longleftrightarrow> header_value_from v \<noteq> None"

lemma printable_iff: "printable v \<longleftrightarrow> (\<forall>c \<in> set v. (32 \<le> byte_val c \<and> byte_val c \<noteq> (127::nat)) \<or> c = HTAB)"
  by (simp add: printable_def header_value_from_def list_all_iff)

lemma printable_append [simp]: "printable (v @ w) \<longleftrightarrow> printable v \<and> printable w"
  by (auto simp: printable_iff)

lemma printable_Nil [simp]: "printable []"
  by (simp add: printable_iff)

lemma printable_Cons: "printable (c # v) \<longleftrightarrow> ((32 \<le> byte_val c \<and> byte_val c \<noteq> (127::nat)) \<or> c = HTAB) \<and> printable v"
  by (auto simp: printable_iff)

lemma printable_to_str: "header_to_str v = Some s \<Longrightarrow> printable s"
  by (auto simp: header_to_str_def printable_iff list_all_iff split: if_splits)

lemma printable_alphanumeric: "\<forall>c \<in> set v. is_ascii_alphanumeric c \<or> c \<in> set ''._-:/'' \<Longrightarrow> printable v"
  unfolding printable_iff by (auto simp: byte_defs)

lemma printable_digest: "valid_digest v \<Longrightarrow> printable v"
  using valid_digest_bytes by (intro printable_alphanumeric) auto

lemma printable_media_type: "validate_descriptor d = Inr u \<Longrightarrow> printable (d_media_type d)"
  unfolding validate_descriptor_def printable_iff Let_def
  by (auto simp: list_ex_iff not_less split: if_splits)

lemma validate_descriptor_facts:
  assumes "validate_descriptor d = Inr u"
  shows "valid_digest (d_digest d)" "d_size d \<le> MAX_ARTIFACT_BYTES"
proof -
  from assms obtain x where "oci_valid_digest (d_digest d) = Inr x" by (auto simp: validate_descriptor_def)
  then show "valid_digest (d_digest d)" by (simp add: oci_valid_digest_Ok)
  from assms show "d_size d \<le> MAX_ARTIFACT_BYTES"
    by (auto simp: validate_descriptor_def not_less split: if_splits)
qed

lemma blob_result:
  assumes "exec (blob lib c repository d v) tr (Inr items)"
  shows "validate_descriptor d = Ok () \<and> described (lib_sha256 lib) (d_digest d) (d_size d) items"
proof -
  from assms have v: "validate_descriptor d = Ok ()" unfolding blob_def exec_lift_Ok by auto
  from assms obtain digest where "exec (try_io
      (request_response lib c repository (''/blobs/'' @ digest) (d_media_type d) v)
      (\<lambda>response. Return (Ok (verified_body (lib_sha256 lib) (up_body response) d)))) tr (Inr items)"
    unfolding blob_def exec_lift_Ok by blast
  from exec_try_Return[OF this]
  obtain response :: upstream where "Ok (verified_body (lib_sha256 lib) (up_body response) d) = (Ok items :: oci_error + _)" by blast
  then have items: "items = verified_body (lib_sha256 lib) (up_body response) d" by simp
  show ?thesis using v verified_body_described[OF validate_descriptor_facts(2)[OF v]] items by simp
qed

lemma blob_by_digest_result:
  assumes "exec (blob_by_digest lib c repository digest v) tr (Inr (items, sz, media_type))"
  shows "valid_digest digest \<and> printable media_type \<and> described (lib_sha256 lib) digest sz items"
proof -
  let ?mt = "\<lambda>response :: upstream. case Option.bind (header_get (up_headers response) ''content-type'') header_to_str of
        Some v \<Rightarrow> v | None \<Rightarrow> ''application/octet-stream''"
  obtain digest' where d': "oci_valid_digest digest = Inr digest'"
    and run: "exec (try_io
      (request_response lib c repository (''/blobs/'' @ digest') ''application/octet-stream'' v)
      (\<lambda>response.
         lift_io (ok_or InvalidDescriptor (content_length (up_headers response) MAX_ARTIFACT_BYTES)) (\<lambda>sz.
         Return (Ok (verified_body (lib_sha256 lib) (up_body response)
              (descriptor_new (?mt response) digest' sz), sz, ?mt response))))) tr (Inr (items, sz, media_type))"
    using assms unfolding blob_by_digest_def Let_def exec_lift_Ok by blast
  from d' have d: "valid_digest digest" "digest' = digest" by (simp_all only: oci_valid_digest_Ok)
  from exec_try_lift_Return[OF run] obtain response :: upstream and x where
    x: "ok_or InvalidDescriptor (content_length (up_headers response) MAX_ARTIFACT_BYTES) = Inr x"
    and res: "(Ok (verified_body (lib_sha256 lib) (up_body response) (descriptor_new (?mt response) digest' x), x, ?mt response)
      :: oci_error + _) = Ok (items, sz, media_type)" by blast
  from x res have sz: "content_length (up_headers response) MAX_ARTIFACT_BYTES = Some sz"
    and mt: "media_type = ?mt response"
    and items: "items = verified_body (lib_sha256 lib) (up_body response) (descriptor_new media_type digest sz)"
    by (simp_all add: d(2)) blast
  have "sz \<le> MAX_ARTIFACT_BYTES" using sz by (auto simp: content_length_def bind_eq_Some_conv split: if_splits)
  then have "described (lib_sha256 lib) digest sz items"
    using verified_body_described[of "descriptor_new media_type digest sz" "lib_sha256 lib" "up_body response"]
    by (simp add: items descriptor_new_def)
  moreover have "printable ''application/octet-stream''" by (simp add: printable_Cons)
  then have "printable media_type"
    unfolding mt using printable_to_str by (auto simp: bind_eq_Some_conv split: option.split)
  ultimately show ?thesis using d by simp
qed


subsection \<open>What the handlers reply\<close>

definition good_reply :: "library \<Rightarrow> bool \<Rightarrow> reply \<Rightarrow> bool" where
  "good_reply lib secret x \<longleftrightarrow>
     (secret \<longrightarrow> version_reply = Some x \<or> (\<exists>path. redirect_to_directory path = Some x)
        \<or> header_get_all (rp_headers x) ''cache-control'' \<in> {[PRIVATE_CACHE], [''no-store'']})
     \<and> (\<forall>items. rp_body x = Streamed items \<longrightarrow>
          (\<exists>digest sz. described (lib_sha256 lib) digest sz items
             \<and> (''content-length'', decimal_string sz) \<in> set (rp_headers x)
             \<and> ((''docker-content-digest'', digest) \<in> set (rp_headers x)
                \<or> (''etag'', etag_of digest) \<in> set (rp_headers x))))"

definition replies :: "library \<Rightarrow> bool \<Rightarrow> reply option io \<Rightarrow> bool" where
  "replies lib secret p \<longleftrightarrow> (\<forall>tr r. exec p tr r \<longrightarrow> (\<exists>x. r = Some x \<and> good_reply lib secret x))"

lemma map_error_cache: "header_get_all (rsp_headers (map_error e)) ''cache-control'' = [''no-store'']"
proof -
  have plan: "header_get_all (rsp_headers (response_plan s c a)) ''cache-control'' = [''no-store'']" for s c a
    by (simp add: response_plan_def Let_def header_get_all_def header_append_def)
  have base: "header_get_all (rsp_headers (map_error (erase e))) ''cache-control'' = [''no-store'']"
  proof (cases e)
    case (Inbound i)
    then show ?thesis using plan by (cases i) (simp_all add: map_error_def Let_def)
  next
    case (Upstream f)
    then show ?thesis using plan
      by (cases f) (auto simp: map_error_def Let_def split: option.split, (case_tac x3; simp add: plan)+)
  qed (simp_all add: map_error_def Let_def plan)
  then show ?thesis by (subst map_error_eq) (auto simp: header_get_all_def split: option.split)
qed

lemma good_error [simp]: "good_reply lib secret (into_service_response (map_error e))"
  by (simp add: good_reply_def into_service_response_def map_error_cache)

lemma good_map_oci_error [simp]: "good_reply lib secret (map_oci_error e layout)"
  by (simp add: map_oci_error_def)

lemma replies_fail_with [simp]: "replies lib secret (fail_with e)"
  by (simp add: replies_def fail_with_def)

lemma replies_Return: "replies lib secret (Return r) \<longleftrightarrow> (\<exists>x. r = Some x \<and> good_reply lib secret x)"
  by (auto simp: replies_def)

lemma replies_or_oci_error:
  assumes "\<And>t a. exec p t (Inr a) \<Longrightarrow> replies lib secret (f a)"
  shows "replies lib secret (or_oci_error p layout f)"
  unfolding replies_def exec_or_oci_error
proof (intro allI impI, elim disjE exE conjE)
  fix tr r t1 t2 a
  assume "exec p t1 (Inr a)" "exec (f a) t2 r"
  then show "\<exists>x. r = Some x \<and> good_reply lib secret x" using assms unfolding replies_def by blast
qed simp

lemma build_reply_Some:
  assumes "list_all field_ok hs"
  shows "\<exists>x. build_reply status hs body = Some x \<and> rp_status x = status \<and> rp_headers x = map field_pair hs
    \<and> rp_body x = body"
  using assms by (simp add: build_reply_def)

lemma field_ok_Text [simp]: "field_ok (Text n v) \<longleftrightarrow> printable v"
  by (simp add: printable_def)

declare field_ok.simps(1) [simp del]

lemma printable_constants [simp]:
  "printable PRIVATE_CACHE" "printable PUBLIC_CACHE" "printable MANIFEST_MEDIA_TYPE"
  by (simp_all add: PRIVATE_CACHE_def PUBLIC_CACHE_def MANIFEST_MEDIA_TYPE_def printable_Cons)

lemma printable_etag [simp]: "printable (etag_of v) \<longleftrightarrow> printable v"
  by (auto simp: etag_of_def printable_Cons)

lemma good_representation:
  assumes "validate_descriptor d = Ok ()" "described (lib_sha256 lib) (d_digest d) (d_size d) items"
  shows "\<exists>x. representation method authenticated if_none_match d items = Some x
    \<and> good_reply lib authenticated x"
proof -
  have p: "printable (d_media_type d)" "printable (d_digest d)"
    using printable_media_type[OF assms(1)] printable_digest validate_descriptor_facts(1)[OF assms(1)] by blast+
  have "printable ''nosniff''" by (simp add: printable_Cons)
  with p assms(2) show ?thesis
    unfolding representation_def Let_def
    by (auto simp: build_reply_def good_reply_def header_get_all_def)
qed


lemma picked_headers:
  assumes "n \<notin> set names"
  shows "header_get_all (map field_pair (concat (map (\<lambda>name. case header_get h name of
      Some v \<Rightarrow> [Value name v] | None \<Rightarrow> []) names))) n = []"
    and "list_all field_ok (concat (map (\<lambda>name. case header_get h name of
      Some v \<Rightarrow> [Value name v] | None \<Rightarrow> []) names))"
  using assms by (induction names) (auto simp: header_get_all_def split: option.split)

lemma good_built:
  assumes "list_all field_ok hs"
    and "secret \<Longrightarrow> header_get_all (map field_pair hs) ''cache-control'' \<in> {[PRIVATE_CACHE], [''no-store'']}"
    and "\<And>items. body \<noteq> Streamed items"
  shows "\<exists>x. build_reply status hs body = Some x \<and> good_reply lib secret x"
  using assms by (simp add: build_reply_def good_reply_def)

lemma header_get_all_field_pair_Cons:
  "header_get_all (field_pair f # hs) n = (if fst (field_pair f) = n then [snd (field_pair f)] else []) @ header_get_all hs n"
  by (cases f) (simp_all add: header_get_all_def)

lemma header_get_all_app: "header_get_all (xs @ ys) n = header_get_all xs n @ header_get_all ys n"
  by (simp add: header_get_all_def)

lemma good_version: "\<exists>x. version_reply = Some x \<and> good_reply lib secret x"
proof -
  obtain x where "version_reply = Some x" "rp_body x = Fixed []"
    unfolding version_reply_def by (auto simp: build_reply_def printable_Cons)
  then show ?thesis by (intro exI[of _ x]) (simp add: good_reply_def)
qed

lemma good_manifest:
  assumes "\<forall>bytes. list_all is_ascii_hexdigit (lib_sha256 lib bytes)"
  shows "\<exists>x. manifest_reply lib (if secret then PRIVATE_CACHE else PUBLIC_CACHE) bytes = Some x \<and> good_reply lib secret x"
proof -
  have "printable (lib_sha256 lib bytes)"
    using assms digest_char by (intro printable_alphanumeric) (auto simp: list_all_iff)
  then show ?thesis unfolding manifest_reply_def Let_def
    by (intro good_built) (simp_all add: printable_Cons header_get_all_def)
qed

lemma good_head:
  assumes "printable fallback" "\<And>d. digest = Some d \<Longrightarrow> printable d"
  shows "\<exists>x. distribution_head_response h fallback (if secret then PRIVATE_CACHE else PUBLIC_CACHE) digest = Some x
    \<and> good_reply lib secret x"
proof -
  define ct where "ct = (case header_get h ''content-type'' of None \<Rightarrow> fallback
      | Some v \<Rightarrow> (case header_to_str v of Some s \<Rightarrow> s | None \<Rightarrow> fallback))"
  define names where "names = [''content-length'', ''etag'', ''docker-content-digest'']"
  define own where "own = (if header_get h ''docker-content-digest'' = None
           then (case digest of Some digest \<Rightarrow> [Text ''docker-content-digest'' digest] | None \<Rightarrow> [])
           else [])"
  have ct: "printable ct"
    unfolding ct_def using assms(1) printable_to_str by (auto split: option.split)
  have own1: "list_all field_ok own"
    unfolding own_def using assms(2) by (cases digest) simp_all
  have own2: "header_get_all (map field_pair own) ''cache-control'' = []"
  proof -
    have "header_get_all (map field_pair [Text ''docker-content-digest'' d]) ''cache-control'' = []" for d
      by (simp add: header_get_all_def)
    moreover have "own = [] \<or> (\<exists>d. own = [Text ''docker-content-digest'' d])"
      unfolding own_def by (cases digest) simp_all
    ultimately show ?thesis by fastforce
  qed
  note own = own1 own2
  have "''cache-control'' \<notin> set names" by (simp add: names_def)
  note picked = picked_headers[OF this, of h]
  show ?thesis
    unfolding distribution_head_response_def ct_def[symmetric] names_def[symmetric] own_def[symmetric]
  proof (rule good_built, goal_cases)
    case 1
    show ?case using ct picked(2) own(1) by (simp only: list_all_append) simp
  next
    case 2
    show ?case unfolding map_append header_get_all_app picked(1) own(2)
      using 2 by (simp add: header_get_all_def)
  qed simp
qed

lemma good_directory: "\<exists>x. directory_reply secret method directory es = Some x \<and> good_reply lib secret x"
proof (cases "render_directory_html directory es")
  case (Inr html)
  then show ?thesis unfolding directory_reply_def Inr sum.case
    by (intro good_built) (simp_all add: printable_Cons header_get_all_def)
qed (simp add: directory_reply_def)

lemma good_redirect: "printable path \<Longrightarrow> \<exists>x. redirect_to_directory path = Some x \<and> good_reply lib secret x"
proof -
  assume "printable path"
  then obtain x where x: "redirect_to_directory path = Some x" "rp_body x = Fixed []"
    unfolding redirect_to_directory_def by (auto simp: build_reply_def printable_Cons)
  then have "good_reply lib secret x" by (auto simp: good_reply_def)
  with x(1) show ?thesis by blast
qed

lemma replies_write: "replies lib secret (forward_distribution_write lib c request body repository path v)"
  unfolding forward_distribution_write_def
proof (rule replies_or_oci_error)
  fix response :: upstream
  have names: "''cache-control'' \<notin> set RETURNED_HEADERS" by (simp add: RETURNED_HEADERS_def)
  note picked = picked_headers[OF names, of "up_headers response"]
  show "replies lib secret (Return (build_reply (up_status response)
      (Text ''cache-control'' ''no-store'' # concat (map (\<lambda>name. case header_get (up_headers response) name of
         Some v \<Rightarrow> [Value name v] | None \<Rightarrow> []) RETURNED_HEADERS)) (Passed (up_body response))))"
    unfolding replies_Return
  proof (rule good_built, goal_cases)
    case 1
    show ?case using picked(2) by (simp add: printable_Cons)
  next
    case 2
    show ?case unfolding list.map(2) header_get_all_field_pair_Cons picked(1) by simp
  qed simp
qed

lemma replies_blob:
  assumes "described (lib_sha256 lib) digest sz items" "valid_digest digest" "printable media_type"
  shows "replies lib secret (Return (build_reply 200
     [Text ''content-type'' media_type, Value ''content-length'' (decimal_string sz),
      Text ''docker-content-digest'' digest,
      Text ''cache-control'' (if secret then PRIVATE_CACHE else PUBLIC_CACHE)] (Streamed items)))"
  using assms printable_digest[OF assms(2)]
  by (auto simp: replies_Return build_reply_def good_reply_def header_get_all_def)

lemma parse_path_digest: "parse_path path repository = Ok (Blob r digest) \<Longrightarrow> valid_digest digest"
  using parse_path_iff by fastforce

lemma replies_dispatch:
  assumes hex: "\<forall>bytes. list_all is_ascii_hexdigit (lib_sha256 lib bytes)"
    and digest: "\<And>r digest. target = Blob r digest \<Longrightarrow> valid_digest digest"
    and secret: "secret \<longleftrightarrow> v \<noteq> None \<or> has_token_broker c"
  shows "replies lib secret (dispatch_distribution lib c request body repository v target)"
proof -
  note good = replies_Return
  have na: "replies lib secret (Return (Some (distribution_method_not_allowed target)))"
    by (simp add: replies_Return good_reply_def distribution_method_not_allowed_def Let_def
        into_service_response_def map_error_cache)
  have octets: "printable ''application/octet-stream''" by (simp add: printable_Cons)
  show ?thesis
  proof (cases target)
    case Version
    then show ?thesis using na good_version by (simp add: dispatch_distribution_def Let_def good)
  next
    case (Manifest r reference)
    have "replies lib secret (or_oci_error (manifest_bytes lib c repository reference v) True
        (\<lambda>bytes. Return (manifest_reply lib (if secret then PRIVATE_CACHE else PUBLIC_CACHE) bytes)))"
      using good_manifest[OF hex] by (intro replies_or_oci_error) (simp add: good)
    moreover have "replies lib secret (or_oci_error (manifest_head lib c repository reference v) True
        (\<lambda>headers. Return (distribution_head_response headers MANIFEST_MEDIA_TYPE
          (if secret then PRIVATE_CACHE else PUBLIC_CACHE) None)))"
      using good_head[of MANIFEST_MEDIA_TYPE None] by (intro replies_or_oci_error) (simp add: good)
    ultimately show ?thesis using na replies_write
      unfolding dispatch_distribution_def Let_def secret[symmetric] Manifest by simp
  next
    case (Blob r d)
    have "replies lib secret (or_oci_error (blob_by_digest lib c repository d v) True
        (\<lambda>(body, sz, media_type). Return (build_reply 200
           [Text ''content-type'' media_type, Value ''content-length'' (decimal_string sz),
            Text ''docker-content-digest'' d, Text ''cache-control'' (if secret then PRIVATE_CACHE else PUBLIC_CACHE)]
           (Streamed body))))"
    proof (rule replies_or_oci_error, goal_cases)
      case (1 t a)
      obtain items sz media_type where a: "a = (items, sz, media_type)" by (cases a)
      show ?case unfolding a prod.case
        using blob_by_digest_result[OF 1[unfolded a]] by (intro replies_blob) simp_all
    qed
    moreover have "replies lib secret (or_oci_error (blob_head lib c repository d v) True
        (\<lambda>headers. Return (distribution_head_response headers ''application/octet-stream''
          (if secret then PRIVATE_CACHE else PUBLIC_CACHE) (Some d))))"
      using good_head[OF octets, of "Some d"] printable_digest[OF digest[OF Blob]]
      by (intro replies_or_oci_error) (simp add: good)
    ultimately show ?thesis using na replies_write
      unfolding dispatch_distribution_def Let_def secret[symmetric] Blob by simp
  next
    case (BlobUploadStart r)
    then show ?thesis using na replies_write
      unfolding dispatch_distribution_def Let_def by simp
  next
    case (BlobUpload r u)
    then show ?thesis using na replies_write
      unfolding dispatch_distribution_def Let_def by simp
  qed
qed


lemma parse_request_path_safe:
  assumes "parse_request_path t = Ok path"
  shows "list_all is_safe_path_byte path"
proof -
  from assms have t: "list_all is_safe_path_byte t"
    by (auto simp: parse_request_path_def Let_def list_all_iff list_ex_iff split: if_splits)
  have "path = [] \<or> (\<exists>p. relative_path_parse (drop 1 t) = Ok p \<and> path = rp_str p)"
    using assms by (auto simp: parse_request_path_def Let_def split: if_splits)
  then have "path = [] \<or> path = drop 1 t" using relative_path_parse_sound by fastforce
  with t show ?thesis by (auto simp: list_all_iff dest: in_set_dropD)
qed

lemma printable_path: "list_all is_safe_path_byte path \<Longrightarrow> printable path"
  unfolding printable_iff list_all_iff is_safe_path_byte_def by (auto simp: byte_defs)

lemma replies_representation:
  "replies lib (v \<noteq> None \<or> has_token_broker c) (or_oci_error (blob lib c repository d v) layout (\<lambda>items.
     Return (representation method (v \<noteq> None \<or> has_token_broker c) if_none_match d items)))"
proof (rule replies_or_oci_error)
  fix t items assume "exec (blob lib c repository d v) t (Inr items)"
  from blob_result[OF this] show "replies lib (v \<noteq> None \<or> has_token_broker c) (Return
      (representation method (v \<noteq> None \<or> has_token_broker c) if_none_match d items))"
    unfolding replies_Return using good_representation by blast
qed

lemma replies_serve_path:
  assumes "list_all is_safe_path_byte path"
  shows "replies lib (v \<noteq> None \<or> has_token_broker c)
    (serve_path lib c request repository v (v \<noteq> None \<or> has_token_broker c) path idx)"
proof (cases "index_object idx path")
  case (Some obj)
  show ?thesis unfolding serve_path_def Let_def Some option.case by (rule replies_representation)
next
  case None
  have "printable (path @ ''/'')" using printable_path[OF assms] by (simp add: printable_Cons)
  note redirect = good_redirect[OF this]
  show ?thesis
    unfolding serve_path_def None option.case
    using redirect good_directory by (auto simp: replies_Return split: sum.split)
qed

lemma replies_handle_gateway:
  assumes hex: "\<forall>bytes. list_all is_ascii_hexdigit (lib_sha256 lib bytes)"
  shows "replies lib (header_get (req_headers request) ''authorization'' \<noteq> None \<or> has_token_broker c)
    (handle_gateway lib c request body repository limits)"
proof -
  let ?s = "header_get (req_headers request) ''authorization'' \<noteq> None \<or> has_token_broker c"
  have "replies lib ?s (handle_distribution lib c request body repository limits)"
  proof -
    have "replies lib ?s
        (case inbound_authorization request of Inl error \<Rightarrow> fail_with error
         | Inr v \<Rightarrow> dispatch_distribution lib c request body repository v target)"
      if "parse_path (req_path request) repository = Ok target" for target
    proof (cases "inbound_authorization request")
      case (Inr v)
      then show ?thesis using inbound_authorization_Ok[OF Inr] that parse_path_digest
        by (auto intro!: replies_dispatch[OF hex])
    qed simp
    then show ?thesis unfolding handle_distribution_def by (simp split: sum.split)
  qed
  moreover have "replies lib ?s (handle_autoindex lib c request repository limits)"
  proof -
    have "replies lib ?s
        (case inbound_authorization request of Inl error \<Rightarrow> fail_with error
         | Inr v \<Rightarrow> or_oci_error (autoindex_snapshot_io lib c repository v) True (\<lambda>snapshot.
             serve_path lib c request repository v (v \<noteq> None \<or> has_token_broker c) path (as_index snapshot)))"
      if "parse_request_path t = Ok path" for t path
    proof (cases "inbound_authorization request")
      case (Inr v)
      show ?thesis unfolding Inr sum.case inbound_authorization_Ok[OF Inr]
        by (rule replies_or_oci_error) (rule replies_serve_path[OF parse_request_path_safe[OF that]])
    qed simp
    then show ?thesis unfolding handle_autoindex_def by (simp split: sum.split)
  qed
  ultimately show ?thesis unfolding handle_gateway_def by simp
qed

subsection \<open>Requests that reach the upstream\<close>

fun permitted :: "distribution_target \<Rightarrow> string \<Rightarrow> bool" where
  "permitted Version method = False"
| "permitted (Manifest _ _) method = (method \<in> {''GET'', ''HEAD'', ''PUT'', ''DELETE''})"
| "permitted (Blob _ _) method = (method \<in> {''GET'', ''HEAD'', ''DELETE''})"
| "permitted (BlobUploadStart _) method = (method = ''POST'')"
| "permitted (BlobUpload _ _) method = (method \<in> {''PATCH'', ''PUT'', ''DELETE''})"

text \<open>The requests for which the gateway may contact the upstream.\<close>

definition admitted :: "request \<Rightarrow> string \<Rightarrow> inbound_limits \<Rightarrow> bool" where
  "admitted request repository limits \<longleftrightarrow>
     length (header_get_all (req_headers request) ''authorization'') \<le> 1
     \<and> (if prefix ''/v2/'' (req_path request)
        then is_ok (validate_distribution_request request limits)
          \<and> (\<exists>target. parse_path (req_path request) repository = Ok target
               \<and> permitted target (req_method request)
               \<and> valid_distribution_query target (req_method request) (req_query request) repository)
        else \<exists>raw path. validate_autoindex_request request limits = Ok raw \<and> parse_request_path raw = Ok path)"

lemma advance_fail_with [simp]: "advance (fail_with e) tr q \<longleftrightarrow> tr = [] \<and> q = fail_with e"
  by (simp add: fail_with_def)

lemma inbound_authorization_is_ok:
  "inbound_authorization request = Inr v \<Longrightarrow> length (header_get_all (req_headers request) ''authorization'') \<le> 1"
  by (auto simp: inbound_authorization_def split: list.splits)

lemma dispatch_not_permitted:
  assumes "\<not> permitted target (req_method request)"
  shows "\<exists>r. dispatch_distribution lib c request body repository v target = Return r"
  using assms unfolding dispatch_distribution_def Let_def by (cases target) auto

lemma gateway_admits:
  assumes run: "advance (handle_gateway lib c request body repository limits) tr q" and "tr \<noteq> []"
  shows "admitted request repository limits"
proof (cases "prefix ''/v2/'' (req_path request)")
  case True
  with run have run: "advance (handle_distribution lib c request body repository limits) tr q"
    by (simp add: handle_gateway_def)
  obtain raw where raw: "validate_distribution_request request limits = Inr raw"
    using run \<open>tr \<noteq> []\<close> unfolding handle_distribution_def by (cases "validate_distribution_request request limits") auto
  obtain target where target: "parse_path (req_path request) repository = Ok target"
    using run \<open>tr \<noteq> []\<close> unfolding handle_distribution_def raw
    by (cases "parse_path (req_path request) repository") auto
  have query: "valid_distribution_query target (req_method request) (req_query request) repository"
    using run \<open>tr \<noteq> []\<close> unfolding handle_distribution_def raw target by (auto split: if_splits)
  obtain v where v: "inbound_authorization request = Inr v"
    using run \<open>tr \<noteq> []\<close> query unfolding handle_distribution_def raw target
    by (cases "inbound_authorization request") auto
  have "advance (dispatch_distribution lib c request body repository v target) tr q"
    using run query unfolding handle_distribution_def raw target v by simp
  then have "permitted target (req_method request)"
    using dispatch_not_permitted[of target request lib c body repository v] \<open>tr \<noteq> []\<close> by fastforce
  with True raw target query inbound_authorization_is_ok[OF v] show ?thesis by (simp add: admitted_def)
next
  case False
  then have "\<not> (req_path request = ''/v2/'' \<or> prefix ''/v2/'' (req_path request))" by auto
  with run have run: "advance (handle_autoindex lib c request repository limits) tr q"
    unfolding handle_gateway_def by simp
  obtain raw where raw: "validate_autoindex_request request limits = Inr raw"
    using run \<open>tr \<noteq> []\<close> unfolding handle_autoindex_def by (cases "validate_autoindex_request request limits") auto
  obtain path where path: "parse_request_path raw = Ok path"
    using run \<open>tr \<noteq> []\<close> unfolding handle_autoindex_def raw by (cases "parse_request_path raw") auto
  obtain v where v: "inbound_authorization request = Inr v"
    using run \<open>tr \<noteq> []\<close> unfolding handle_autoindex_def raw sum.case path by (cases "inbound_authorization request") auto
  from False raw path inbound_authorization_is_ok[OF v] show ?thesis by (simp add: admitted_def)
qed


subsection \<open>A sample exchange\<close>

text \<open>A read with the broker's credentials: the registry asks for a token, the token endpoint
  hands one out, the retry is accepted and the token is stored.\<close>

definition sample_lib :: library where
  "sample_lib = \<lparr>lib_uri = (\<lambda>s. Some \<lparr>u_scheme = None, u_authority = None, u_path_and_query = Some (s, None)\<rparr>),
     lib_base64 = (\<lambda>s. ''abc''), lib_sha256 = (\<lambda>s. replicate 64 (CHR ''a'')),
     lib_json = (\<lambda>s. Some (JObj [(''token'', JStr ''t''), (''expires_in'', JNum (PosInt 300))])),
     lib_base64url = id, lib_base64url_decode = Some\<rparr>"

definition sample_client :: client where
  "sample_client = \<lparr>cl_origin = ''https://ghcr.io'',
     cl_credentials = Some \<lparr>tc_username = ''u'', tc_password = ''p''\<rparr>\<rparr>"

definition sample_get :: "string \<Rightarrow> request" where
  "sample_get path = \<lparr>req_method = ''GET'', req_scheme = None, req_authority = None,
     req_path_and_query = Some path, req_path = path, req_query = None,
     req_headers = [(''host'', ''proxy.example'')], req_end_stream = True\<rparr>"

definition answer :: "nat \<Rightarrow> header_map \<Rightarrow> string \<Rightarrow> upstream" where
  "answer status hs bytes = \<lparr>up_status = status, up_headers = hs, up_body = [Some bytes], up_stalls = False\<rparr>"

definition sample_fields :: "string list" where
  "sample_fields = [''Bearer realm='' @ quote ''https://ghcr.io/token'' @ '',service=ghcr.io'']"

definition sample_manifest_uri :: string where
  "sample_manifest_uri = ''https://ghcr.io/v2/acme/demo/manifests/v1''"

definition sample_trace :: "event list" where
  "sample_trace =
     [Looked_up ''acme/demo'' None,
      Sent (read_request ''GET'' sample_manifest_uri MANIFEST_MEDIA_TYPE None)
        (Answered (answer 401 (map (\<lambda>v. (''www-authenticate'', v)) sample_fields) [])),
      Sent (read_request ''GET'' ''https://ghcr.io/token?service=ghcr.io&scope=repository:acme/demo:pull''
          ''application/json'' (Some ''Basic abc''))
        (Answered (answer 200 [] ''{}'')),
      Sent (read_request ''GET'' sample_manifest_uri MANIFEST_MEDIA_TYPE (Some ''Bearer t''))
        (Answered (answer 200 [] ''{}'')),
      Inserted ''acme/demo'' ''Bearer t'' (Some 300)]"

lemma sample_challenge:
  "find_bearer_challenge sample_fields ''https://ghcr.io''
     = Some \<lparr>bc_realm = ''https://ghcr.io/token'', bc_service = ''ghcr.io''\<rparr>"
  unfolding sample_fields_def by code_simp

lemma sample_read:
  "exec (request_response_method sample_lib sample_client ''GET'' ''acme/demo'' ''/manifests/v1''
      MANIFEST_MEDIA_TYPE None) sample_trace (Ok (answer 200 [] ''{}''))"
proof -
  define response where "response = answer 401 (map (\<lambda>v. (''www-authenticate'', v)) sample_fields) []"
  have response: "up_status response = 401" "header_get_all (up_headers response) ''www-authenticate'' = sample_fields"
    by (simp_all add: response_def answer_def header_get_all_def filter_map o_def)
  let ?c = "\<lparr>bc_realm = ''https://ghcr.io/token'', bc_service = ''ghcr.io''\<rparr>"
  have challenge: "find_bearer_challenge (header_get_all (up_headers response) ''www-authenticate'')
      (cl_origin sample_client) = Some ?c"
    using sample_challenge response(2) by (simp add: sample_client_def)
  have uri: "lib_uri sample_lib u \<noteq> None" for u by (simp add: sample_lib_def)
  have media: "header_value_from MANIFEST_MEDIA_TYPE \<noteq> None"
    using printable_constants(3) by (simp add: printable_def)
  have token: "token_of sample_lib (answer 200 [] ''{}'') = Some (''Bearer t'', Some 300)"
    by (simp add: token_of_def answer_def collect_limited_def sample_lib_def lib_token_json_def from_slice_def
        token_response_new_def defaulted_def bearer_authorization_def
        MAX_TOKEN_BYTES_def header_value_from_def is_ascii_control_def)
  have basic: "Option.bind (cl_credentials sample_client) (basic_authorization (lib_base64 sample_lib)) = Some ''Basic abc''"
    by (simp add: sample_client_def sample_lib_def basic_authorization_def header_value_from_def)
  have ok: "up_status (answer 200 [] ''{}'') = 200" by (simp add: answer_def)
  have turi: "token_uri ?c ''acme/demo'' = ''https://ghcr.io/token?service=ghcr.io&scope=repository:acme/demo:pull''"
    "upstream_uri sample_client ''acme/demo'' ''/manifests/v1'' = sample_manifest_uri"
    by (simp_all add: token_uri_def upstream_uri_def sample_client_def sample_manifest_uri_def)
  show ?thesis
    using broker_read[OF basic challenge uri uri token media response(1) ok,
        of "''GET''" "''acme/demo''" "''/manifests/v1''" None]
    unfolding turi by (simp add: sample_trace_def stale_def response_def)
qed

definition sample_reply :: reply where
  "sample_reply = \<lparr>rp_status = 200,
     rp_headers = [(''content-type'', MANIFEST_MEDIA_TYPE), (''content-length'', ''2''),
       (''docker-content-digest'', ''sha256:'' @ replicate 64 (CHR ''a'')),
       (''etag'', etag_of (''sha256:'' @ replicate 64 (CHR ''a''))), (''cache-control'', PRIVATE_CACHE)],
     rp_body = Fixed ''{}''\<rparr>"

text \<open>What the request comes down to: one read and its reply.\<close>

lemma sample_manifest_run:
  assumes "exec (request_response_method sample_lib sample_client ''GET'' ''acme/demo'' ''/manifests/v1''
      MANIFEST_MEDIA_TYPE None) tr (Ok (answer 200 hs ''{}''))"
  shows "exec (handle_gateway sample_lib sample_client (sample_get ''/v2/acme/demo/manifests/v1'') []
     ''acme/demo'' inbound_limits_default) tr (Some sample_reply)"
proof -
  let ?r = "sample_get ''/v2/acme/demo/manifests/v1''"
  have "validate_distribution_request ?r inbound_limits_default = Ok ''/v2/acme/demo/manifests/v1''"
    by (simp add: validate_distribution_request_def inbound_eval inbound_limits_default_def sample_get_def)
  moreover have "parse_path ''/v2/acme/demo/manifests/v1'' ''acme/demo'' = Ok (Manifest ''acme/demo'' ''v1'')"
    by code_simp
  ultimately have eq: "handle_gateway sample_lib sample_client ?r [] ''acme/demo'' inbound_limits_default
      = dispatch_distribution sample_lib sample_client ?r [] ''acme/demo'' None (Manifest ''acme/demo'' ''v1'')"
    unfolding handle_gateway_def handle_distribution_def
    by (simp add: sample_get_def inbound_authorization_def header_get_all_def valid_distribution_query_def)
  have ref: "\<not> bad_reference ''v1''"
    by (simp add: bad_reference_def is_ascii_def contains_any_def)
  have json: "exec (manifest_bytes sample_lib sample_client ''acme/demo'' ''v1'' None) (tr @ []) (Ok ''{}'')"
    unfolding manifest_bytes_def get_json_def request_response_def
    unfolding if_not_P[OF ref] append_Cons append_Nil
    by (rule exec_tryI[OF assms]) (simp add: collect_limited_def answer_def MAX_METADATA_BYTES_def)
  have reply: "manifest_reply sample_lib PRIVATE_CACHE ''{}'' = Some sample_reply"
  proof -
    have "printable (replicate 64 CHR ''a'')" by (simp add: printable_iff)
    moreover have "decimal_string (Suc (Suc 0)) = ''2''" by code_simp
    ultimately show ?thesis
      by (simp add: manifest_reply_def Let_def build_reply_def sample_reply_def sample_lib_def printable_Cons)
  qed
  have "exec (or_oci_error (manifest_bytes sample_lib sample_client ''acme/demo'' ''v1'' None) True
      (\<lambda>bytes. Return (manifest_reply sample_lib PRIVATE_CACHE bytes))) tr (Some sample_reply)"
    unfolding exec_or_oci_error using json reply by fastforce
  then show ?thesis unfolding eq dispatch_distribution_def Let_def
    by (simp add: sample_get_def has_token_broker_def sample_client_def)
qed

lemmas sample_run = sample_manifest_run[OF sample_read]

text \<open>A second request that finds the token in the cache.\<close>

definition sample_cached :: "event list" where
  "sample_cached = [Looked_up ''acme/demo'' (Some ''Bearer t''),
     Sent (read_request ''GET'' sample_manifest_uri MANIFEST_MEDIA_TYPE (Some ''Bearer t''))
       (Answered (answer 200 [] ''{}''))]"

lemma sample_cached_run:
  "exec (handle_gateway sample_lib sample_client (sample_get ''/v2/acme/demo/manifests/v1'') []
     ''acme/demo'' inbound_limits_default) sample_cached (Some sample_reply)"
proof -
  have "upstream_uri sample_client ''acme/demo'' ''/manifests/v1'' = sample_manifest_uri"
    by (simp add: upstream_uri_def sample_client_def sample_manifest_uri_def)
  then show ?thesis
    using cached_read[of sample_client sample_lib "''acme/demo''" "''/manifests/v1''" MANIFEST_MEDIA_TYPE
        "answer 200 [] ''{}''" "''GET''" "Some ''Bearer t''"] printable_constants(3)
    by (intro sample_manifest_run[where hs = "[]"])
      (simp add: sample_cached_def sample_client_def sample_lib_def answer_def printable_def)
qed

text \<open>One after the other in a system of two requests.\<close>

definition sample_tasks :: "reply option io list" where
  "sample_tasks = replicate 2 (handle_gateway sample_lib sample_client
     (sample_get ''/v2/acme/demo/manifests/v1'') [] ''acme/demo'' inbound_limits_default)"

lemma sample_system:
  "\<exists>s. steps (start_system sample_tasks)
     (map (\<lambda>e. (0, 0, e)) sample_trace @ map (\<lambda>e. (1, 0, e)) sample_cached) s"
proof -
  let ?s = "start_system sample_tasks"
  define cache where "cache = token_cache_insert 0 token_cache_default ''acme/demo'' ''Bearer t'' (Some 300)"
  have default: "token_cache_get 0 token_cache_default r = (None, token_cache_default)" for r
    by (simp add: token_cache_get_def token_cache_default_def discard_expired_def bt_get_def bt_retain_def)
  then have "replay 0 (sys_cache ?s) sample_trace = Some cache"
    by (simp add: start_system_def sample_trace_def cache_def)
  from serial_run[OF sample_run this, of 0] obtain s1 where
    s1: "steps ?s (map (\<lambda>e. (0, 0, e)) sample_trace) s1" "sys_cache s1 = cache" "sys_clock s1 \<le> 0"
      "sys_tasks s1 = sample_tasks[0 := Return (Some sample_reply)]"
    by (auto simp: start_system_def sample_tasks_def)
  have entries: "entries cache = [(''acme/demo'', \<lparr>ct_authorization = ''Bearer t'', ct_expires_at = secs 270\<rparr>)]"
    by (simp add: cache_def token_cache_insert_def token_cache_default_def CACHE_TTL_def EXPIRY_SKEW_def
        secs_def CACHE_CAPACITY_def Let_def)
  have "fst (token_cache_get 0 cache ''acme/demo'') = Some ''Bearer t''"
    by (simp add: token_cache_get_def discard_expired_def entries bt_get_def bt_retain_def secs_def Let_def)
  then have "replay 0 (sys_cache s1) sample_cached = Some (snd (token_cache_get 0 cache ''acme/demo''))"
    using s1(2) by (simp add: sample_cached_def)
  from serial_run[OF sample_cached_run this, of 1] obtain s2 where
    "steps s1 (map (\<lambda>e. (1, 0, e)) sample_cached) s2"
    using s1(3,4) by (auto simp: sample_tasks_def)
  from steps_append[OF this s1(1)] show ?thesis by blast
qed

text \<open>A request with an authorization of its own, for a blob.\<close>

definition sample_digest :: string where "sample_digest = ''sha256:'' @ replicate 64 (CHR ''a'')"

definition sample_blob_get :: request where
  "sample_blob_get = (sample_get (''/v2/acme/demo/blobs/'' @ sample_digest))
     \<lparr>req_headers := [(''host'', ''proxy.example''), (''authorization'', ''Bearer x'')]\<rparr>"

definition sample_blob_trace :: "event list" where
  "sample_blob_trace =
     [Sent (read_request ''GET'' (upstream_uri sample_client ''acme/demo'' (''/blobs/'' @ sample_digest))
         ''application/octet-stream'' (Some ''Bearer x''))
       (Answered (answer 200 [(''content-length'', ''3'')] ''abc''))]"

lemma sample_blob_run:
  "\<exists>x. exec (handle_gateway sample_lib sample_client sample_blob_get [] ''acme/demo'' inbound_limits_default)
     sample_blob_trace (Some x) \<and> rp_body x = Streamed [Ok ''abc'']"
proof -
  define digest where "digest = sample_digest"
  have digest: "valid_digest digest" "printable digest"
  proof -
    show "valid_digest digest"
      by (simp add: digest_def sample_digest_def valid_digest_def is_ascii_hexdigit_def is_ascii_digit_def
          is_ascii_uppercase_def list_all_iff)
    then show "printable digest" by (rule printable_digest)
  qed
  let ?path = "''/v2/acme/demo/blobs/'' @ digest"
  have req: "req_method sample_blob_get = ''GET''" "req_path sample_blob_get = ?path"
    "req_query sample_blob_get = None" "inbound_authorization sample_blob_get = Ok (Some ''Bearer x'')"
    by (simp_all add: sample_blob_get_def sample_get_def digest_def inbound_authorization_def header_get_all_def)
  have "validate_distribution_request sample_blob_get inbound_limits_default = Ok ?path"
    by (simp add: validate_distribution_request_def inbound_eval inbound_limits_default_def sample_blob_get_def
        sample_get_def digest_def sample_digest_def)
  moreover have "parse_path ?path ''acme/demo'' = Ok (Blob ''acme/demo'' digest)"
    using digest(1) by (simp add: parse_path_iff)
  ultimately have eq: "handle_gateway sample_lib sample_client sample_blob_get [] ''acme/demo'' inbound_limits_default
      = dispatch_distribution sample_lib sample_client sample_blob_get [] ''acme/demo'' (Some ''Bearer x'')
          (Blob ''acme/demo'' digest)"
    unfolding handle_gateway_def handle_distribution_def req
    by (simp add: valid_distribution_query_def)
  have octets: "header_value_from ''application/octet-stream'' \<noteq> None" by code_simp
  define ok where "ok = answer 200 [(''content-length'', ''3'')] ''abc''"
  have "decimal_string 3 = ''3''" by code_simp
  then have "parse_u64 ''3'' = Some 3" using parse_u64_decimal_string[of 3] by simp
  then have len: "content_length (up_headers ok) MAX_ARTIFACT_BYTES = Some 3"
    by (simp add: content_length_def ok_def answer_def header_get_def header_to_str_def MAX_ARTIFACT_BYTES_def)
  have body: "verified_body (lib_sha256 sample_lib) (up_body ok) (descriptor_new m digest 3) = [Ok ''abc'']" for m
    by (simp add: verified_body_def scan_item_def verifier_new_def descriptor_new_def final_check_def
        saturating_add_def sample_lib_def digest_def sample_digest_def Let_def ok_def answer_def)
  have type: "header_get (up_headers ok) ''content-type'' = None"
    by (simp add: ok_def answer_def header_get_def)
  define octets where "octets = ''application/octet-stream''"
  have octets: "header_value_from octets \<noteq> None" unfolding octets_def by code_simp
  have "exec (request_response_method sample_lib sample_client ''GET'' ''acme/demo'' (''/blobs/'' @ digest)
      octets (Some ''Bearer x'')) sample_blob_trace (Ok ok)"
    using direct_read[of "Some ''Bearer x''" sample_client sample_lib "''acme/demo''" "''/blobs/'' @ digest" octets ok "''GET''"]
      octets unfolding sample_blob_trace_def digest_def[symmetric] octets_def[symmetric] ok_def[symmetric]
    by (simp add: sample_lib_def ok_def answer_def)
  then have "exec (blob_by_digest sample_lib sample_client ''acme/demo'' digest (Some ''Bearer x''))
      (sample_blob_trace @ []) (Ok ([Ok ''abc''], 3, octets))"
    unfolding blob_by_digest_def request_response_def Let_def exec_lift_Ok octets_def[symmetric]
    using digest(1) len body type
    by (intro exI[of _ digest] conjI exec_tryI[where a = ok]) (simp_all add: oci_valid_digest_Ok)
  then have run: "exec (blob_by_digest sample_lib sample_client ''acme/demo'' digest (Some ''Bearer x''))
      sample_blob_trace (Ok ([Ok ''abc''], 3, octets))" by simp
  have "printable octets" using octets by (simp add: printable_def)
  then have "\<exists>x. build_reply 200
      [Text ''content-type'' octets, Value ''content-length'' (decimal_string 3),
       Text ''docker-content-digest'' digest, Text ''cache-control'' PRIVATE_CACHE] (Streamed [Ok ''abc'']) = Some x
      \<and> rp_body x = Streamed [Ok ''abc'']"
    using digest(2) by (simp add: build_reply_def)
  then obtain x where x: "build_reply 200
      [Text ''content-type'' octets, Value ''content-length'' (decimal_string 3),
       Text ''docker-content-digest'' digest, Text ''cache-control'' PRIVATE_CACHE] (Streamed [Ok ''abc'']) = Some x"
    "rp_body x = Streamed [Ok ''abc'']" by blast
  have "exec (or_oci_error (blob_by_digest sample_lib sample_client ''acme/demo'' digest (Some ''Bearer x'')) True
      (\<lambda>(body, sz, media_type). Return (build_reply 200
         [Text ''content-type'' media_type, Value ''content-length'' (decimal_string sz),
          Text ''docker-content-digest'' digest, Text ''cache-control'' PRIVATE_CACHE] (Streamed body))))
      (sample_blob_trace @ []) (Some x)"
    unfolding exec_or_oci_error using run x(1) by fastforce
  with x(2) show ?thesis unfolding eq dispatch_distribution_def Let_def req
    by (intro exI[of _ x]) simp
qed

lemma sample_header: "header_get (req_headers (sample_get path)) ''authorization'' = None"
  by (simp add: sample_get_def header_get_def)

lemma sample_method: "req_method (sample_get path) = ''GET''"
  by (simp add: sample_get_def)

subsection \<open>Properties\<close>

text \<open>C1. Whatever the upstream answers, a request to the gateway does only what the policy allows,
  at every prefix of its history: it talks to the configured repository under the configured
  origin with reads or the client's own method, presents the client's authorization, and only
  without one and with a broker a cached token, the broker's credentials at a token endpoint of
  the origin after a 401, and the token just issued, which it stores only after the upstream has
  answered 200 to it.\<close>

theorem gateway_policy:
  assumes "advance (handle_gateway lib c request body repository limits) tr q"
  shows "complies (policy lib c repository (req_method request)
    (header_get (req_headers request) ''authorization'')) [] tr"
  by (rule obeys_complies[OF obeys_handle_gateway assms])

theorem gateway_policy_witness:
  "complies (policy sample_lib sample_client ''acme/demo'' ''GET'' None) [] sample_trace"
  using gateway_policy[OF sample_run] unfolding sample_header sample_method .

text \<open>C8. An authorization sent by the client takes precedence: every event of such a request is
  one request to its repository that carries exactly that value. The broker's credentials and the
  token cache are not touched.\<close>

theorem gateway_client_authorization:
  assumes "advance (handle_gateway lib c request body repository limits) tr q"
    and "header_get (req_headers request) ''authorization'' = Some v" and "e \<in> set tr"
  shows "\<exists>r x path. e = Sent r x \<and> out_uri r = upstream_uri c repository path \<and> carries r (Some v)
    \<and> out_method r \<in> {''GET'', ''HEAD'', req_method request}"
proof -
  obtain t1 t2 where "tr = t1 @ e # t2" using assms(3) by (meson split_list)
  with obeys_complies[OF obeys_handle_gateway assms(1)] have
    "policy lib c repository (req_method request) (Some v) t1 e"
    unfolding complies_def assms(2) by simp
  then show ?thesis by (cases rule: policy.cases) auto
qed

theorem gateway_client_authorization_witness:
  "\<exists>path. sample_blob_trace \<noteq> [] \<and> (\<forall>r x. Sent r x = hd sample_blob_trace \<longrightarrow>
     out_uri r = upstream_uri sample_client ''acme/demo'' path \<and> carries r (Some ''Bearer x''))"
proof -
  obtain x where run: "exec (handle_gateway sample_lib sample_client sample_blob_get [] ''acme/demo''
      inbound_limits_default) sample_blob_trace (Some x)" using sample_blob_run by blast
  have h: "header_get (req_headers sample_blob_get) ''authorization'' = Some ''Bearer x''"
    by (simp add: sample_blob_get_def sample_get_def header_get_def)
  have "hd sample_blob_trace \<in> set sample_blob_trace" by (simp add: sample_blob_trace_def)
  from gateway_client_authorization[OF run h this] show ?thesis
    by (auto simp: sample_blob_trace_def)
qed

text \<open>C10. Every request is answered: at each point of its history a request to the gateway has
  stopped at most 12 times and sent at most 6 requests, and whatever is still to come it can
  return within these bounds.\<close>

theorem gateway_terminates:
  assumes "advance (handle_gateway lib c request body repository limits) tr q"
  shows "length tr \<le> 12 \<and> length (requests tr) \<le> 6
    \<and> (\<exists>tr' r. length tr + length tr' \<le> 12 \<and> advance q tr' (Return r))"
proof -
  obtain tr' r where rest: "advance q tr' (Return r)" using ends[of q] by blast
  from within_advance[OF advance_append[OF assms rest] bounds_handle_gateway(1)]
    sends_advance[OF assms bounds_handle_gateway(2)] rest
  show ?thesis by fastforce
qed

theorem gateway_terminates_witness: "length sample_trace \<le> 12 \<and> length (requests sample_trace) = 3"
  using gateway_terminates[OF sample_run] by (simp add: sample_trace_def)

text \<open>C5. A request reaches the upstream only if it is admitted: it passes the checks of its
  interface, its path names the configured repository (no other repository can be reached), its
  method is allowed for the target, its query is valid and it has at most one authorization
  field. Every other request is answered without any contact with the upstream.\<close>

theorem gateway_admitted:
  assumes "advance (handle_gateway lib c request body repository limits) tr q" "tr \<noteq> []"
  shows "admitted request repository limits"
  by (rule gateway_admits[OF assms])

theorem gateway_admitted_witness:
  "admitted (sample_get ''/v2/acme/demo/manifests/v1'') ''acme/demo'' inbound_limits_default"
  using gateway_admitted[OF sample_run] by (simp add: sample_trace_def)

text \<open>C12. The gateway never panics on building a response: provided the digest function yields
  hexadecimal text, every header text it hands to the response builder is a valid header value,
  whatever the upstream sent, so every complete history ends in a reply.\<close>

theorem gateway_never_panics:
  assumes "\<forall>bytes. list_all is_ascii_hexdigit (lib_sha256 lib bytes)"
    and "exec (handle_gateway lib c request body repository limits) tr r"
  shows "\<exists>x. r = Some x"
  using replies_handle_gateway[OF assms(1)] assms(2) unfolding replies_def by blast

lemma sample_hex: "\<forall>bytes. list_all is_ascii_hexdigit (lib_sha256 sample_lib bytes)"
  by (simp add: sample_lib_def is_ascii_hexdigit_def is_ascii_digit_def list_all_iff)

theorem gateway_never_panics_witness:
  "(\<forall>bytes. list_all is_ascii_hexdigit (lib_sha256 sample_lib bytes))
    \<and> exec (handle_gateway sample_lib sample_client (sample_get ''/v2/acme/demo/manifests/v1'') []
      ''acme/demo'' inbound_limits_default) sample_trace (Some sample_reply)
    \<and> (\<exists>x. Some sample_reply = Some x \<and> rp_status x = 200)"
proof -
  obtain x where "Some sample_reply = Some x" using gateway_never_panics[OF sample_hex sample_run] by blast
  then have "\<exists>x. Some sample_reply = Some x \<and> rp_status x = 200" by (auto simp: sample_reply_def)
  with sample_hex sample_run show ?thesis by blast
qed

text \<open>C9. No shared cache may keep the reply to an authenticated or brokered request: the reply has
  exactly one cache control, the private one or \<open>no-store\<close>. The exceptions are the fixed reply
  to \<open>/v2/\<close>, which holds no data and has no cache control, and the redirect to a directory, which
  repeats the path of the request.\<close>

theorem gateway_replies_private:
  assumes "\<forall>bytes. list_all is_ascii_hexdigit (lib_sha256 lib bytes)"
    and "exec (handle_gateway lib c request body repository limits) tr (Some x)"
    and "header_get (req_headers request) ''authorization'' \<noteq> None \<or> has_token_broker c"
  shows "version_reply = Some x \<or> (\<exists>path. redirect_to_directory path = Some x)
    \<or> header_get_all (rp_headers x) ''cache-control'' \<in> {[PRIVATE_CACHE], [''no-store'']}"
  using replies_handle_gateway[OF assms(1)] assms(2,3) unfolding replies_def good_reply_def by blast

theorem gateway_replies_private_witness:
  "has_token_broker sample_client
    \<and> exec (handle_gateway sample_lib sample_client (sample_get ''/v2/acme/demo/manifests/v1'') []
      ''acme/demo'' inbound_limits_default) sample_trace (Some sample_reply)
    \<and> header_get_all (rp_headers sample_reply) ''cache-control'' = [PRIVATE_CACHE]"
proof -
  have broker: "has_token_broker sample_client" by (simp add: has_token_broker_def sample_client_def)
  have "version_reply \<noteq> Some sample_reply" "redirect_to_directory path \<noteq> Some sample_reply" for path
    by (auto simp: version_reply_def redirect_to_directory_def build_reply_def sample_reply_def)
  moreover have "header_get_all (rp_headers sample_reply) ''cache-control'' \<noteq> [''no-store'']"
    by (simp add: sample_reply_def header_get_all_def PRIVATE_CACHE_def)
  ultimately show ?thesis using gateway_replies_private[OF sample_hex sample_run] broker sample_run by blast
qed

text \<open>C3. Whatever the upstream sends, a streamed reply announces a length and a digest such that
  a client that reads the body to its end without an error has received exactly that many bytes
  with exactly that digest, and never more bytes than announced otherwise.\<close>

theorem gateway_streams_described:
  assumes "\<forall>bytes. list_all is_ascii_hexdigit (lib_sha256 lib bytes)"
    and "exec (handle_gateway lib c request body repository limits) tr (Some x)"
    and "rp_body x = Streamed items"
  shows "\<exists>digest sz. described (lib_sha256 lib) digest sz items
    \<and> (''content-length'', decimal_string sz) \<in> set (rp_headers x)
    \<and> ((''docker-content-digest'', digest) \<in> set (rp_headers x) \<or> (''etag'', etag_of digest) \<in> set (rp_headers x))"
  using replies_handle_gateway[OF assms(1)] assms(2,3) unfolding replies_def good_reply_def by blast

theorem gateway_streams_described_witness:
  "\<exists>digest sz. described (lib_sha256 sample_lib) digest sz [Ok ''abc'']"
proof -
  obtain x where run: "exec (handle_gateway sample_lib sample_client sample_blob_get [] ''acme/demo''
      inbound_limits_default) sample_blob_trace (Some x)" and body: "rp_body x = Streamed [Ok ''abc'']"
    using sample_blob_run by blast
  from gateway_streams_described[OF sample_hex run body] show ?thesis by blast
qed

text \<open>C2. Tokens of the shared cache are used safely under concurrency: in every interleaving of
  any number of requests, a token that a request finds in the cache is for its own repository and
  was presented to that repository before, answered with 200, and stored less than 870 seconds
  ago.\<close>

theorem cached_tokens_accepted:
  assumes "steps (start_system tasks) h s"
    and "\<forall>p \<in> set tasks. \<exists>request body. p = handle_gateway lib c request body repository limits"
    and "h = h1 @ (i, t, Looked_up key (Some token)) # h2"
  shows "key = repository \<and> (\<exists>g1 j t1 q accepted path g2 t0 expires_in g3.
    h1 = g1 @ (j, t1, Sent q (Answered accepted)) # g2 @ (j, t0, Inserted repository token expires_in) # g3
    \<and> out_uri q = upstream_uri c repository path \<and> carries q (Some token) \<and> up_status accepted = 200
    \<and> t0 \<le> t \<and> t < t0 + secs 870)"
proof -
  have tasks: "sys_tasks (start_system tasks) = tasks" "sys_cache (start_system tasks) = token_cache_default"
    by (simp_all add: start_system_def)
  have obeys: "\<exists>m v. obeys (policy lib c repository m v) (tasks ! j)" if "j < length tasks" for j
    using assms(2) nth_mem[OF that] obeys_handle_gateway by metis
  have bound: "j < length tasks" if "h = f1 @ (j, t', e) # f2" for f1 j t' e f2
  proof -
    have "h = (f1 @ [(j, t', e)]) @ f2" using that by simp
    from steps_prefix[OF assms(1) this]
    obtain s1 where s1: "steps (start_system tasks) (f1 @ [(j, t', e)]) s1" ..
    then show ?thesis
      by (cases rule: steps.cases) (auto dest!: step_task(2) simp: steps_length tasks)
  qed
  have allowed: "\<exists>m v. policy lib c repository m v (project j f1) e" if "h = f1 @ (j, t', e) # f2" for f1 j t' e f2
  proof -
    note j = bound[OF that]
    obtain m v where "obeys (policy lib c repository m v) (tasks ! j)" using obeys[OF j] by blast
    with steps_obey[OF assms(1) that, of "policy lib c repository m v"] show ?thesis unfolding tasks by blast
  qed
  from allowed[OF assms(3)] have key: "key = repository" by (auto elim: policy.cases)
  obtain g1 j t0 expires_in g3 where g: "h1 = g1 @ (j, t0, Inserted repository token expires_in) # g3"
    and t0: "t0 \<le> t" "t < t0 + MAX_LIFETIME"
    using steps_lookup[OF assms(1) tasks(2) assms(3)] unfolding key by blast
  then have "h = g1 @ (j, t0, Inserted repository token expires_in) # g3
      @ (i, t, Looked_up key (Some token)) # h2" using assms(3) by simp
  then obtain m v where "policy lib c repository m v (project j g1) (Inserted repository token expires_in)"
    using allowed by blast
  then obtain past r response q path accepted where p: "project j g1
        = (past @ [Sent r (Answered response)]) @ Sent q (Answered accepted) # []"
    and q: "out_uri q = upstream_uri c repository path" "carries q (Some token)" "up_status accepted = 200"
    by (cases rule: policy.cases) auto
  obtain f1 t1 f2 where "g1 = f1 @ (j, t1, Sent q (Answered accepted)) # f2"
    using project_split[OF p] by blast
  with g have "h1 = f1 @ (j, t1, Sent q (Answered accepted)) # f2
      @ (j, t0, Inserted repository token expires_in) # g3" by simp
  moreover have "t < t0 + secs 870"
    using t0(2) by (simp add: MAX_LIFETIME_def CACHE_TTL_def EXPIRY_SKEW_def secs_def)
  ultimately show ?thesis using key q t0(1) by blast
qed

lemma sample_tasks_gateway:
  "\<forall>p \<in> set sample_tasks. \<exists>request body. p = handle_gateway sample_lib sample_client request body
     ''acme/demo'' inbound_limits_default"
  by (auto simp: sample_tasks_def)

theorem cached_tokens_accepted_witness:
  "\<exists>g1 j t1 q accepted g2. map (\<lambda>e. (0::nat, 0::nat, e)) sample_trace = g1 @ (j, t1, Sent q (Answered accepted)) # g2
     \<and> carries q (Some ''Bearer t'') \<and> up_status accepted = 200"
proof -
  obtain s where run: "steps (start_system sample_tasks)
     (map (\<lambda>e. (0, 0, e)) sample_trace @ map (\<lambda>e. (1, 0, e)) sample_cached) s" using sample_system by blast
  have "map (\<lambda>e. (0, 0, e)) sample_trace @ map (\<lambda>e. (1, 0, e)) sample_cached
    = map (\<lambda>e. (0, 0, e)) sample_trace @ (1, 0, Looked_up ''acme/demo'' (Some ''Bearer t''))
        # map (\<lambda>e. (1, 0, e)) (tl sample_cached)" by (simp add: sample_cached_def)
  from cached_tokens_accepted[OF run sample_tasks_gateway this] show ?thesis by blast
qed

text \<open>C11. Concurrent requests do not block each other: a run of \<open>n\<close> gateway requests over one cache
  takes at most \<open>12 n\<close> steps, and from every point it reaches it can be completed so that every
  request has its reply.\<close>

theorem gateway_system_completes:
  assumes "steps (start_system tasks) h s"
    and "\<forall>p \<in> set tasks. \<exists>request body. p = handle_gateway lib c request body repository limits"
  shows "length h \<le> 12 * length tasks
    \<and> (\<exists>h' s'. steps (start_system tasks) (h @ h') s' \<and> finished s')"
proof -
  have w: "\<forall>p \<in> set (sys_tasks (start_system tasks)). within p 12"
    using assms(2) bounds_handle_gateway(1) by (auto simp: start_system_def)
  from steps_within[OF assms(1) w] completes[OF assms(1) w] show ?thesis by (simp add: start_system_def)
qed


theorem gateway_system_completes_witness:
  "\<exists>s h' s'. steps (start_system sample_tasks) (map (\<lambda>e. (0, 0, e)) sample_trace @ map (\<lambda>e. (1, 0, e)) sample_cached) s
     \<and> steps (start_system sample_tasks) ((map (\<lambda>e. (0, 0, e)) sample_trace @ map (\<lambda>e. (1, 0, e)) sample_cached) @ h') s'
     \<and> finished s'"
  using sample_system gateway_system_completes[OF _ sample_tasks_gateway] by blast

end
