(* ===== verification/Ip_Addr.thy ===== *)
theory Ip_Addr
  imports Prelude
begin

text \<open>
  The address parsers of \<open>std::net\<close> that \<open>src/config.rs\<close> uses. A reader takes the rest of the
  input and returns a value with what is left of it; a whole text is an address if nothing is
  left. IPv4 octets have no leading zero; an IPv6 address may end in an IPv4 address and has at
  most one \<open>::\<close>, which stands for at least one group.
\<close>

definition hex_val :: "char \<Rightarrow> nat" where
  "hex_val c = (if is_ascii_digit c then byte_val c - 48
     else if byte_val c < (97::nat) then byte_val c - 55 else byte_val c - 87)"

definition radix_digit :: "nat \<Rightarrow> char \<Rightarrow> bool" where
  "radix_digit radix c \<longleftrightarrow> (if radix = 16 then is_ascii_hexdigit c else is_ascii_digit c)"

definition radix_val :: "nat \<Rightarrow> string \<Rightarrow> nat" where
  "radix_val radix s = foldl (\<lambda>n c. radix * n + hex_val c) 0 s"

definition read_number :: "nat \<Rightarrow> nat option \<Rightarrow> bool \<Rightarrow> nat \<Rightarrow> string \<Rightarrow> (nat \<times> string) option" where
  "read_number radix max_digits allow_zero_prefix bound s =
     (let ds = takeWhile (radix_digit radix) s in
      if ds = [] \<or> (case max_digits of Some n \<Rightarrow> length ds > n | None \<Rightarrow> False)
         \<or> (\<not> allow_zero_prefix \<and> hd ds = CHR ''0'' \<and> length ds > 1)
         \<or> radix_val radix ds \<ge> bound
      then None else Some (radix_val radix ds, drop (length ds) s))"

fun read_given :: "char \<Rightarrow> string \<Rightarrow> string option" where
  "read_given d (c # s) = (if c = d then Some s else None)"
| "read_given d [] = None"

definition read_separator :: "char \<Rightarrow> nat \<Rightarrow> (string \<Rightarrow> ('a \<times> string) option) \<Rightarrow> string \<Rightarrow> ('a \<times> string) option" where
  "read_separator d i inner s = (if i > 0 then Option.bind (read_given d s) inner else inner s)"

datatype ip_addr = V4 nat nat nat nat | V6 "nat list"

definition read_octet :: "nat \<Rightarrow> string \<Rightarrow> (nat \<times> string) option" where
  "read_octet i = read_separator (CHR ''.'') i (read_number 10 (Some 3) False 256)"

definition read_ipv4 :: "string \<Rightarrow> (ip_addr \<times> string) option" where
  "read_ipv4 s =
     Option.bind (read_octet 0 s) (\<lambda>(a, s). Option.bind (read_octet 1 s) (\<lambda>(b, s).
     Option.bind (read_octet 2 s) (\<lambda>(c, s). Option.bind (read_octet 3 s) (\<lambda>(d, s).
     Some (V4 a b c d, s)))))"

fun embedded_groups :: "ip_addr \<Rightarrow> nat list" where
  "embedded_groups (V4 a b c d) = [256 * a + b, 256 * c + d]"
| "embedded_groups (V6 gs) = gs"

function read_groups :: "nat \<Rightarrow> nat \<Rightarrow> string \<Rightarrow> nat list \<times> bool \<times> string" where
  "read_groups i bound s =
     (if i \<ge> bound then ([], False, s)
      else (case (if i < bound - 1 then read_separator (CHR '':'') i read_ipv4 s else None) of
        Some (v4, rest) \<Rightarrow> (embedded_groups v4, True, rest)
      | None \<Rightarrow>
          (case read_separator (CHR '':'') i (read_number 16 (Some 4) True 65536) s of
             None \<Rightarrow> ([], False, s)
           | Some (g, rest) \<Rightarrow> (case read_groups (i + 1) bound rest of (gs, ipv4, r) \<Rightarrow> (g # gs, ipv4, r)))))"
  by pat_completeness auto
termination by (relation "measure (\<lambda>(i, bound, s). bound - i)") auto

declare read_groups.simps [simp del]

definition read_ipv6 :: "string \<Rightarrow> (ip_addr \<times> string) option" where
  "read_ipv6 s =
     (case read_groups 0 8 s of (head, head_ipv4, s) \<Rightarrow>
        if length head = 8 then Some (V6 head, s)
        else if head_ipv4 then None
        else Option.bind (read_given (CHR '':'') s) (\<lambda>s. Option.bind (read_given (CHR '':'') s) (\<lambda>s.
          (case read_groups 0 (8 - (length head + 1)) s of (tail, _, s) \<Rightarrow>
             Some (V6 (head @ replicate (8 - length head - length tail) 0 @ tail), s)))))"

definition read_ip :: "string \<Rightarrow> (ip_addr \<times> string) option" where
  "read_ip s = (case read_ipv4 s of Some r \<Rightarrow> Some r | None \<Rightarrow> read_ipv6 s)"

definition whole :: "('a \<times> string) option \<Rightarrow> 'a option" where
  "whole r = (case r of Some (a, []) \<Rightarrow> Some a | _ \<Rightarrow> None)"

definition parse_ip :: "string \<Rightarrow> ip_addr option" where
  "parse_ip s = whole (read_ip s)"

fun is_loopback :: "ip_addr \<Rightarrow> bool" where
  "is_loopback (V4 a b c d) = (a = 127)"
| "is_loopback (V6 gs) = (gs = [0, 0, 0, 0, 0, 0, 0, 1])"

definition read_port :: "string \<Rightarrow> (nat \<times> string) option" where
  "read_port s = Option.bind (read_given (CHR '':'') s) (read_number 10 None True 65536)"

definition read_socket_v4 :: "string \<Rightarrow> ((ip_addr \<times> nat) \<times> string) option" where
  "read_socket_v4 s = Option.bind (read_ipv4 s) (\<lambda>(ip, s). Option.bind (read_port s) (\<lambda>(port, s). Some ((ip, port), s)))"

definition read_scope :: "string \<Rightarrow> string" where
  "read_scope s = (case Option.bind (read_given (CHR ''%'') s) (read_number 10 None True 4294967296) of
     Some (_, rest) \<Rightarrow> rest | None \<Rightarrow> s)"

definition read_socket_v6 :: "string \<Rightarrow> ((ip_addr \<times> nat) \<times> string) option" where
  "read_socket_v6 s =
     Option.bind (read_given (CHR ''['') s) (\<lambda>s. Option.bind (read_ipv6 s) (\<lambda>(ip, s).
     Option.bind (read_given (CHR '']'') (read_scope s)) (\<lambda>s.
     Option.bind (read_port s) (\<lambda>(port, s). Some ((ip, port), s)))))"

definition parse_socket_addr :: "string \<Rightarrow> (ip_addr \<times> nat) option" where
  "parse_socket_addr s =
     whole (case read_socket_v4 s of Some r \<Rightarrow> Some r | None \<Rightarrow> read_socket_v6 s)"

lemmas ip_eval = parse_ip_def read_ip_def read_ipv4_def read_octet_def read_separator_def read_number_def
  radix_digit_def radix_val_def hex_val_def is_ascii_digit_def is_ascii_hexdigit_def whole_def Let_def
  parse_socket_addr_def read_socket_v4_def read_port_def

lemma address_examples:
  "parse_ip ''127.0.0.1'' = Some (V4 127 0 0 1)"
  "parse_socket_addr ''127.0.0.1:8080'' = Some (V4 127 0 0 1, 8080)"
  by (simp_all add: ip_eval)

text \<open>The characters of an address.\<close>

lemma read_number_chars:
  "read_number radix m z bound s = Some (n, r) \<Longrightarrow> \<exists>ds. s = ds @ r \<and> ds \<noteq> [] \<and> list_all (radix_digit radix) ds"
  by (auto simp: read_number_def Let_def list_all_iff split: if_splits
      intro!: exI[of _ "takeWhile (radix_digit radix) s"] dest: set_takeWhileD)
    (metis append_take_drop_id takeWhile_eq_take)+

end
