(* ===== verification/Config.thy ===== *)
theory Config
  imports Ip_Addr Routing Inbound Auth
begin

text \<open>
  \<open>src/config.rs\<close>: the validated configuration. File and environment are ordered maps from keys
  to texts; the process environment and the file system are arguments of \<open>from_env\<close>. A duration
  is its number of milliseconds.
\<close>

subsection \<open>Text\<close>

text \<open>\<open>str::trim\<close>: the encodings of the characters with the property \<open>White_Space\<close>, as the length
  of the one at the start of a text or, reversed, at its end.\<close>

fun space_length :: "string \<Rightarrow> nat" where
  "space_length (a # rest) =
     (if (9 \<le> byte_val a \<and> byte_val a \<le> (13::nat)) \<or> a = CHR '' '' then 1
      else (case rest of
        b # rest \<Rightarrow>
          if a = CHR 0xC2 \<and> b \<in> {CHR 0x85, CHR 0xA0} then 2
          else (case rest of
            c # _ \<Rightarrow>
              if (a, b, c) = (CHR 0xE1, CHR 0x9A, CHR 0x80)
                 \<or> a = CHR 0xE2 \<and> b = CHR 0x80 \<and> (between 0x80 0x8A c \<or> c \<in> {CHR 0xA8, CHR 0xA9, CHR 0xAF})
                 \<or> (a, b, c) = (CHR 0xE2, CHR 0x81, CHR 0x9F) \<or> (a, b, c) = (CHR 0xE3, CHR 0x80, CHR 0x80)
              then 3 else 0
          | [] \<Rightarrow> 0)
      | [] \<Rightarrow> 0))"
| "space_length [] = 0"

definition end_space_length :: "string \<Rightarrow> nat" where
  "end_space_length r =
     (if space_length (take 1 r) = 1 then 1
      else if space_length (rev (take 2 r)) = 2 then 2
      else if space_length (rev (take 3 r)) = 3 then 3 else 0)"

function trim_start :: "string \<Rightarrow> string" where
  "trim_start s = (if s \<noteq> [] \<and> space_length s > 0 then trim_start (drop (space_length s) s) else s)"
  by pat_completeness auto
termination by (relation "measure length") auto

function trim_reversed :: "string \<Rightarrow> string" where
  "trim_reversed r = (if r \<noteq> [] \<and> end_space_length r > 0 then trim_reversed (drop (end_space_length r) r) else r)"
  by pat_completeness auto
termination by (relation "measure length") auto

declare trim_start.simps [simp del] trim_reversed.simps [simp del]

definition trim :: "string \<Rightarrow> string" where
  "trim s = rev (trim_reversed (rev (trim_start s)))"

text \<open>\<open>str::lines\<close>: lines end with a line feed, a carriage return before it is dropped, and a last
  line needs no end.\<close>

definition chop_cr :: "string \<Rightarrow> string" where
  "chop_cr s = (if s \<noteq> [] \<and> last s = CHR 0x0D then butlast s else s)"

definition text_lines :: "string \<Rightarrow> string list" where
  "text_lines s =
     (let parts = split_on (CHR 0x0A) s in
      map chop_cr (butlast parts) @ (if last parts = [] then [] else [last parts]))"

fun split_once_str :: "string \<Rightarrow> string \<Rightarrow> (string \<times> string) option" where
  "split_once_str p [] = (if p = [] then Some ([], []) else None)"
| "split_once_str p (c # cs) =
     (if prefix p (c # cs) then Some ([], drop (length p) (c # cs))
      else map_option (\<lambda>(a, b). (c # a, b)) (split_once_str p cs))"

subsection \<open>Data\<close>

definition ENV_PREFIX :: string where "ENV_PREFIX = ''ORAS_PROXY_''"
definition DEFAULT_LISTEN :: string where "DEFAULT_LISTEN = ''127.0.0.1:8080''"
definition DEFAULT_UPSTREAM :: string where "DEFAULT_UPSTREAM = ''https://ghcr.io''"
definition DEFAULT_ALLOWED_HOSTS :: string where "DEFAULT_ALLOWED_HOSTS = ''ghcr.io''"
definition DEFAULT_FRONTENDS :: string where "DEFAULT_FRONTENDS = ''none''"
definition DEFAULT_REPOSITORY :: string where "DEFAULT_REPOSITORY = ''acme/fixture''"
definition MAX_TIMEOUT_MS :: nat where "MAX_TIMEOUT_MS = 10 * 60 * 1000"
definition MAX_TARGET_BYTES :: nat where "MAX_TARGET_BYTES = 64 * 1024"
definition MAX_HEADER_COUNT :: nat where "MAX_HEADER_COUNT = 256"
definition MAX_HEADER_BYTES :: nat where "MAX_HEADER_BYTES = 128 * 1024"

datatype scheme = Https | Http

fun scheme_str :: "scheme \<Rightarrow> string" where
  "scheme_str Https = ''https''"
| "scheme_str Http = ''http''"

record upstream_origin =
  uo_scheme :: scheme
  uo_host :: string
  uo_port :: "nat option"

definition host_for_authority :: "string \<Rightarrow> string" where
  "host_for_authority host = (if contains_any host [CHR '':''] then ''['' @ host @ '']'' else host)"

definition origin_str :: "upstream_origin \<Rightarrow> string" where
  "origin_str u =
     (let authority = (case uo_port u of
          Some port \<Rightarrow> host_for_authority (uo_host u) @ '':'' @ decimal_string port
        | None \<Rightarrow> host_for_authority (uo_host u))
      in scheme_str (uo_scheme u) @ ''://'' @ authority)"

datatype log_level = Error | Warn | Info | Debug

datatype config_error =
    ConfigFile | ConfigEnvironment | FileSyntax nat | InvalidValue string string | UnknownKey

fun config_error_message :: "config_error \<Rightarrow> string" where
  "config_error_message ConfigFile = ''configuration file could not be read''"
| "config_error_message ConfigEnvironment = ''configuration environment could not be read''"
| "config_error_message (FileSyntax line) = ''configuration file syntax error on line '' @ decimal_string line"
| "config_error_message (InvalidValue key reason) = ''invalid configuration '' @ key @ '': '' @ reason"
| "config_error_message UnknownKey = ''unknown configuration key''"

record config =
  cf_listen :: string
  cf_upstream :: upstream_origin
  cf_repository :: validated_repository
  cf_allowed_hosts :: "string list"
  cf_connect_timeout :: nat
  cf_request_timeout :: nat
  cf_inbound_limits :: inbound_limits
  cf_enabled_protocols :: enabled_protocols
  cf_log_level :: log_level
  cf_allow_insecure_loopback :: bool
  cf_token_credentials :: "token_credentials option"

type_synonym settings = "(string, string) btree"

subsection \<open>Values\<close>

definition log_level_parse :: "string \<Rightarrow> config_error + log_level" where
  "log_level_parse value =
     (if value = ''error'' then Ok Error else if value = ''warn'' then Ok Warn
      else if value = ''info'' then Ok Info else if value = ''debug'' then Ok Debug
      else Err (InvalidValue ''LOG_LEVEL'' ''must be error, warn, info, or debug''))"

definition KEYS :: "string list" where
  "KEYS = [''LISTEN_ADDR'', ''UPSTREAM'', ''REPOSITORY'', ''ALLOWED_HOSTS'', ''CONNECT_TIMEOUT_MS'',
     ''REQUEST_TIMEOUT_MS'', ''MAX_TARGET_BYTES'', ''MAX_HEADER_COUNT'', ''MAX_HEADER_BYTES'', ''MAX_BODY_BYTES'',
     ''ENABLED_FRONTENDS'', ''LOG_LEVEL'', ''ALLOW_INSECURE_LOOPBACK'', ''TOKEN_USERNAME'', ''TOKEN_PASSWORD'']"

definition known_key :: "string \<Rightarrow> bool" where
  "known_key key \<longleftrightarrow> key \<in> set KEYS"

definition reject_unknown_environment_keys :: "settings \<Rightarrow> config_error + unit" where
  "reject_unknown_environment_keys settings =
     (if list_ex (\<lambda>key. \<not> known_key key) (bt_keys settings) then Err UnknownKey else Ok ())"

fun config_file_loop :: "nat \<Rightarrow> settings \<Rightarrow> string list \<Rightarrow> config_error + settings" where
  "config_file_loop i settings [] = Ok settings"
| "config_file_loop i settings (line # ls) =
     (let line = trim line in
      if line = [] \<or> starts_with line ''#'' then config_file_loop (i + 1) settings ls
      else (case split_once (CHR ''='') line of
        None \<Rightarrow> Err (FileSyntax (i + 1))
      | Some (key, value) \<Rightarrow>
          if \<not> known_key (trim key) then Err UnknownKey
          else config_file_loop (i + 1) (bt_insert (trim key) (trim value) settings) ls))"

definition parse_config_file :: "string \<Rightarrow> config_error + settings" where
  "parse_config_file contents = config_file_loop 0 [] (text_lines contents)"

definition lookup :: "settings \<Rightarrow> settings \<Rightarrow> string \<Rightarrow> string option" where
  "lookup file_values environment key =
     (case bt_get environment key of Some v \<Rightarrow> Some v | None \<Rightarrow> bt_get file_values key)"

definition parse_token_credentials ::
    "settings \<Rightarrow> settings \<Rightarrow> config_error + token_credentials option" where
  "parse_token_credentials file_values environment =
     (case (lookup file_values environment ''TOKEN_USERNAME'', lookup file_values environment ''TOKEN_PASSWORD'') of
        (None, None) \<Rightarrow> Ok None
      | (Some username, Some password) \<Rightarrow>
          and_then (ok_or (InvalidValue ''TOKEN_PASSWORD'' ''must be a bounded non-empty single-line secret'')
            (token_credentials_new username password)) (\<lambda>c. Ok (Some c))
      | _ \<Rightarrow> Err (InvalidValue ''TOKEN_PASSWORD'' ''requires TOKEN_USERNAME and TOKEN_PASSWORD together''))"

definition parse_listen :: "string \<Rightarrow> config_error + string" where
  "parse_listen value =
     and_then (ok_or (InvalidValue ''LISTEN_ADDR'' ''must be a host:port socket address'') (parse_socket_addr value))
       (\<lambda>(ip, port).
          if port = 0 \<and> \<not> is_loopback ip
          then Err (InvalidValue ''LISTEN_ADDR'' ''port zero is allowed only on loopback'') else Ok value)"

definition parse_port :: "string \<Rightarrow> config_error + nat" where
  "parse_port value =
     ok_or (InvalidValue ''UPSTREAM'' ''port must be a nonzero integer'')
       (Option.bind (parse_u64 value) (\<lambda>port. if port < 65536 \<and> port \<noteq> 0 then Some port else None))"

definition is_valid_host :: "string \<Rightarrow> bool" where
  "is_valid_host host \<longleftrightarrow> host \<noteq> [] \<and> length host \<le> 253
     \<and> list_all (\<lambda>byte. is_ascii_alphanumeric byte \<or> byte \<in> set ''.-:'') host
     \<and> \<not> starts_with host ''.'' \<and> \<not> ends_with host ''.'' \<and> \<not> starts_with host ''-'' \<and> \<not> ends_with host ''-''
     \<and> \<not> sublist ''..'' host"

definition parse_authority :: "string \<Rightarrow> config_error + (string \<times> nat option)" where
  "parse_authority authority =
     (if starts_with authority ''['' then
        and_then (ok_or (InvalidValue ''UPSTREAM'' ''IPv6 authority is malformed'')
            (split_once (CHR '']'') (drop 1 authority))) (\<lambda>(host, remainder).
        if remainder = [] then Ok (host, None)
        else and_then (ok_or (InvalidValue ''UPSTREAM'' ''authority port is malformed'')
            (strip_prefix '':'' remainder)) (\<lambda>port.
          and_then (parse_port port) (\<lambda>port. Ok (host, Some port))))
      else (case split_once (CHR '':'') authority of
        None \<Rightarrow> Ok (authority, None)
      | Some (host, port) \<Rightarrow>
          if host \<noteq> [] then and_then (parse_port port) (\<lambda>port. Ok (host, Some port))
          else Err (InvalidValue ''UPSTREAM'' ''authority host is malformed'')))"

definition parse_scheme :: "string \<Rightarrow> bool \<Rightarrow> config_error + scheme" where
  "parse_scheme scheme allow_insecure_loopback =
     (if scheme = ''https'' then Ok Https
      else if scheme = ''http'' then
        (if allow_insecure_loopback then Ok Http
         else Err (InvalidValue ''UPSTREAM'' ''http requires ALLOW_INSECURE_LOOPBACK=true''))
      else Err (InvalidValue ''UPSTREAM'' ''scheme must be https or approved http''))"

definition parse_upstream :: "string \<Rightarrow> bool \<Rightarrow> config_error + upstream_origin" where
  "parse_upstream value allow_insecure_loopback =
     and_then (ok_or (InvalidValue ''UPSTREAM'' ''must be an absolute https URL or approved loopback http URL'')
       (split_once_str ''://'' value)) (\<lambda>(scheme, authority).
     and_then (parse_scheme scheme allow_insecure_loopback) (\<lambda>scheme.
     if authority = [] \<or> contains_any authority [SLASH, CHR ''?'', CHR ''#'', CHR ''@'']
     then Err (InvalidValue ''UPSTREAM'' ''authority must contain only one host and optional port'')
     else and_then (parse_authority authority) (\<lambda>(host, port).
       let ip = parse_ip host in
       if contains_any host [CHR '':''] \<and> ip = None then Err (InvalidValue ''UPSTREAM'' ''IPv6 host is invalid'')
       else if scheme = Http \<and> \<not> (case ip of Some a \<Rightarrow> is_loopback a | None \<Rightarrow> False)
       then Err (InvalidValue ''UPSTREAM'' ''cleartext upstream must use a loopback IP'')
       else if \<not> is_valid_host host then Err (InvalidValue ''UPSTREAM'' ''host is invalid'')
       else Ok \<lparr>uo_scheme = scheme, uo_host = host, uo_port = port\<rparr>)))"

definition lowercase :: "string \<Rightarrow> string" where
  "lowercase s = map to_ascii_lowercase s"

definition parse_allowed_hosts :: "string \<Rightarrow> upstream_origin \<Rightarrow> config_error + string list" where
  "parse_allowed_hosts value upstream =
     (let hosts = map lowercase (filter (\<lambda>host. host \<noteq> []) (map trim (split_on (CHR '','') value))) in
      if hosts = [] \<or> \<not> list_ex (\<lambda>host. host = lowercase (uo_host upstream)) hosts
      then Err (InvalidValue ''ALLOWED_HOSTS'' ''must include the configured upstream host'')
      else if list_ex (\<lambda>host. \<not> is_valid_host host \<or> contains_any host [CHR '':'']) hosts
      then Err (InvalidValue ''ALLOWED_HOSTS'' ''must contain hostnames only'')
      else Ok hosts)"

definition parse_timeout :: "string \<Rightarrow> string \<Rightarrow> config_error + nat" where
  "parse_timeout value key =
     ok_or (InvalidValue key ''must be a positive bounded millisecond value'')
       (Option.bind (parse_u64 value) (\<lambda>n. if n > 0 \<and> n \<le> MAX_TIMEOUT_MS then Some n else None))"

definition parse_bounded_usize :: "string \<Rightarrow> string \<Rightarrow> nat \<Rightarrow> nat \<Rightarrow> config_error + nat" where
  "parse_bounded_usize value key minimum maximum =
     ok_or (InvalidValue key ''is outside the allowed bounded range'')
       (Option.bind (parse_u64 value) (\<lambda>n. if n \<ge> minimum \<and> n \<le> maximum then Some n else None))"

definition parse_bool :: "string \<Rightarrow> string \<Rightarrow> config_error + bool" where
  "parse_bool value key =
     (if value = ''true'' then Ok True else if value = ''false'' then Ok False
      else Err (InvalidValue key ''must be true or false''))"

fun protocols_loop :: "enabled_protocols \<Rightarrow> string list \<Rightarrow> config_error + enabled_protocols" where
  "protocols_loop protocols [] = Ok protocols"
| "protocols_loop protocols (name # names) =
     (if name = ''pypi'' then protocols_loop (enabled_with protocols Pypi) names
      else if name = ''rpm'' then protocols_loop (enabled_with protocols Rpm) names
      else if name = ''apt'' then protocols_loop (enabled_with protocols Apt) names
      else if name = ''pacman'' then protocols_loop (enabled_with protocols Pacman) names
      else Err (InvalidValue ''ENABLED_FRONTENDS''
        ''must be none or a comma-separated list of pypi, rpm, apt, pacman''))"

definition parse_protocols :: "string \<Rightarrow> config_error + enabled_protocols" where
  "parse_protocols value =
     (if value = ''none'' then Ok enabled_none
      else protocols_loop enabled_none (map trim (split_on (CHR '','') value)))"

subsection \<open>The configuration\<close>

definition from_maps :: "settings \<Rightarrow> settings \<Rightarrow> config_error + config" where
  "from_maps file_values environment =
     (let value = (\<lambda>key default. case lookup file_values environment key of Some v \<Rightarrow> v | None \<Rightarrow> default) in
      and_then (reject_unknown_environment_keys environment) (\<lambda>_.
      and_then (parse_listen (value ''LISTEN_ADDR'' DEFAULT_LISTEN)) (\<lambda>listen.
      and_then (parse_bool (value ''ALLOW_INSECURE_LOOPBACK'' ''false'') ''ALLOW_INSECURE_LOOPBACK'') (\<lambda>loopback.
      and_then (parse_upstream (value ''UPSTREAM'' DEFAULT_UPSTREAM) loopback) (\<lambda>upstream.
      and_then (map_err (\<lambda>_. InvalidValue ''REPOSITORY'' ''must be a valid OCI repository name'')
        (validated_repository_parse (value ''REPOSITORY'' DEFAULT_REPOSITORY))) (\<lambda>repository.
      and_then (parse_allowed_hosts (value ''ALLOWED_HOSTS'' DEFAULT_ALLOWED_HOSTS) upstream) (\<lambda>allowed_hosts.
      and_then (parse_timeout (value ''CONNECT_TIMEOUT_MS'' ''5000'') ''CONNECT_TIMEOUT_MS'') (\<lambda>connect_timeout.
      and_then (parse_timeout (value ''REQUEST_TIMEOUT_MS'' ''60000'') ''REQUEST_TIMEOUT_MS'') (\<lambda>request_timeout.
      if connect_timeout > request_timeout
      then Err (InvalidValue ''CONNECT_TIMEOUT_MS'' ''must not exceed REQUEST_TIMEOUT_MS'')
      else
      and_then (parse_bounded_usize (value ''MAX_TARGET_BYTES'' ''8192'') ''MAX_TARGET_BYTES'' 1 MAX_TARGET_BYTES) (\<lambda>target.
      and_then (parse_bounded_usize (value ''MAX_HEADER_COUNT'' ''64'') ''MAX_HEADER_COUNT'' 1 MAX_HEADER_COUNT) (\<lambda>count.
      and_then (parse_bounded_usize (value ''MAX_HEADER_BYTES'' ''16384'') ''MAX_HEADER_BYTES'' 1 MAX_HEADER_BYTES) (\<lambda>bytes.
      and_then (parse_bounded_usize (value ''MAX_BODY_BYTES'' ''67108864'') ''MAX_BODY_BYTES'' 0 (64 * 1024 * 1024)) (\<lambda>body.
      and_then (parse_protocols (value ''ENABLED_FRONTENDS'' DEFAULT_FRONTENDS)) (\<lambda>enabled.
      and_then (log_level_parse (value ''LOG_LEVEL'' ''info'')) (\<lambda>level.
      and_then (parse_token_credentials file_values environment) (\<lambda>credentials.
      Ok \<lparr>cf_listen = listen, cf_upstream = upstream, cf_repository = repository, cf_allowed_hosts = allowed_hosts,
           cf_connect_timeout = connect_timeout, cf_request_timeout = request_timeout,
           cf_inbound_limits = \<lparr>max_target_bytes = target, max_header_count = count,
             max_header_bytes = bytes, max_body_bytes = body\<rparr>,
           cf_enabled_protocols = enabled, cf_log_level = level, cf_allow_insecure_loopback = loopback,
           cf_token_credentials = credentials\<rparr>))))))))))))))))"

text \<open>The variable that names the file, the file system and the other variables are arguments;
  \<open>vars()\<close> yields pairs of texts (it panics on a variable that is not Unicode).\<close>

datatype env_var = Present string | NotPresent | NotUnicode

definition from_env ::
    "env_var \<Rightarrow> (string \<Rightarrow> string option) \<Rightarrow> (string \<times> string) list \<Rightarrow> config_error + config" where
  "from_env config_file read_file vars =
     and_then
       (case config_file of
          Present path \<Rightarrow> and_then (ok_or ConfigFile (read_file path)) parse_config_file
        | NotPresent \<Rightarrow> Ok []
        | NotUnicode \<Rightarrow> Err ConfigEnvironment) (\<lambda>file_values.
     let environment = foldl (\<lambda>m (key, value). bt_insert key value m) []
           (filter (\<lambda>(key, _). key \<noteq> ''CONFIG_FILE'')
             (List.map_filter (\<lambda>(key, value). map_option (\<lambda>key. (key, value)) (strip_prefix ENV_PREFIX key)) vars))
     in from_maps file_values environment)"

subsection \<open>Sources of the settings\<close>

text \<open>The environment laid over the file, as one map.\<close>

definition overlay :: "settings \<Rightarrow> settings \<Rightarrow> settings" where
  "overlay file_values environment = foldl (\<lambda>m (key, value). bt_insert key value m) file_values environment"

lemma overlay_simps [simp]:
  "overlay m [] = m" "overlay m ((k, v) # e) = overlay (bt_insert k v m) e"
  by (simp_all add: overlay_def)

lemma bt_wf_overlay: "bt_wf m \<Longrightarrow> bt_wf (overlay m e)"
  by (induction e arbitrary: m) (auto simp: bt_simps)

lemma overlay_get:
  "bt_wf m \<Longrightarrow> bt_wf e \<Longrightarrow>
   bt_get (overlay m e) k = (case bt_get e k of Some v \<Rightarrow> Some v | None \<Rightarrow> bt_get m k)"
proof (induction e arbitrary: m)
  case Nil
  then show ?case by (simp add: bt_get_def)
next
  case (Cons p e)
  obtain l v where p: "p = (l, v)" by (cases p)
  have e: "bt_wf e" "l \<notin> fst ` set e"
    using Cons.prems(2) p by (auto simp: bt_wf_def)
  have "bt_get (overlay m (p # e)) k
      = (case bt_get e k of Some v \<Rightarrow> Some v | None \<Rightarrow> bt_get (bt_insert l v m) k)"
    using Cons.IH[of "bt_insert l v m"] Cons.prems e by (simp add: p bt_simps)
  moreover have "bt_get e l = None"
    using e(2) by (simp add: bt_get_def map_of_eq_None_iff)
  ultimately show ?case
    using Cons.prems(1) by (cases "l = k") (simp_all add: p map_of_bt_insert bt_get_def split: option.splits)
qed

lemma overlay_keys: "set (bt_keys (overlay m e)) = set (bt_keys m) \<union> set (bt_keys e)"
proof (induction e arbitrary: m)
  case (Cons p e)
  then show ?case by (cases p) (simp add: bt_keys_def set_keys_bt_insert)
qed (simp add: bt_keys_def)

lemma lookup_overlay:
  assumes "bt_wf m" "bt_wf e"
  shows "lookup [] (overlay m e) = lookup m e"
proof
  fix k
  show "lookup [] (overlay m e) k = lookup m e k"
    using overlay_get[OF assms] by (simp add: lookup_def bt_get_def split: option.splits)
qed

lemma parse_token_credentials_cong:
  "lookup f e = lookup g d \<Longrightarrow> parse_token_credentials f e = parse_token_credentials g d"
  by (simp add: parse_token_credentials_def)

lemma reject_unknown_iff: "reject_unknown_environment_keys e = Ok () \<longleftrightarrow> set (bt_keys e) \<subseteq> set KEYS"
  "reject_unknown_environment_keys e = (if set (bt_keys e) \<subseteq> set KEYS then Ok () else Err UnknownKey)"
  by (auto simp: reject_unknown_environment_keys_def list_ex_iff known_key_def)

text \<open>The loop over a file keeps the map sorted and its keys known.\<close>

lemma config_file_loop_keys:
  "config_file_loop i m ls = Ok r \<Longrightarrow> bt_wf m \<Longrightarrow> set (bt_keys m) \<subseteq> set KEYS
   \<Longrightarrow> bt_wf r \<and> set (bt_keys r) \<subseteq> set KEYS"
proof (induction i m ls rule: config_file_loop.induct)
  case (2 i m line ls)
  have new: "bt_wf (bt_insert k v m)" "known_key k \<Longrightarrow> set (bt_keys (bt_insert k v m)) \<subseteq> set KEYS" for k v
    using "2.prems"(2,3) by (auto simp: bt_simps bt_keys_def set_keys_bt_insert known_key_def)
  show ?case
    using 2 new by (auto simp: Let_def simp del: trim_start.simps split: if_splits option.splits prod.splits)
qed simp

lemma parse_config_file_keys:
  "parse_config_file s = Ok r \<Longrightarrow> bt_wf r \<and> set (bt_keys r) \<subseteq> set KEYS"
  unfolding parse_config_file_def by (rule config_file_loop_keys) (auto simp: bt_wf_def bt_keys_def)

lemma default_listen: "parse_listen DEFAULT_LISTEN = Ok DEFAULT_LISTEN"
  by (simp add: parse_listen_def DEFAULT_LISTEN_def address_examples)

lemma parse_ip_ghcr: "parse_ip ''ghcr.io'' = None"
  by (simp add: ip_eval read_ipv6_def read_groups.simps)

lemma default_upstream: "parse_upstream DEFAULT_UPSTREAM b = Ok \<lparr>uo_scheme = Https, uo_host = ''ghcr.io'', uo_port = None\<rparr>"
  by (simp add: parse_upstream_def DEFAULT_UPSTREAM_def parse_scheme_def parse_authority_def is_valid_host_def
     contains_any_def parse_ip_ghcr byte_defs prefix_def suffix_def sublist_Cons_right)

lemma trim_examples: "trim ''ghcr.io'' = ''ghcr.io''" "trim '' a='' = ''a=''"
  by code_simp+

subsection \<open>Examples\<close>

definition sample_file :: string where
  "sample_file = ''# local fixture'' @ CHR 0x0A # ''UPSTREAM = http://127.0.0.1:5000'' @ CHR 0x0A #
     ''ALLOWED_HOSTS=127.0.0.1'' @ CHR 0x0A # ''REPOSITORY=acme/fixture''"

definition sample_settings :: settings where
  "sample_settings = [(''ALLOWED_HOSTS'', ''127.0.0.1''), (''REPOSITORY'', ''acme/fixture''), (''UPSTREAM'', ''http://127.0.0.1:5000'')]"

lemma sample_file_parsed: "parse_config_file sample_file = Ok sample_settings"
  by code_simp

definition sample_environment :: settings where
  "sample_environment = [(''ALLOW_INSECURE_LOOPBACK'', ''true''), (''ENABLED_FRONTENDS'', ''pypi, apt'')]"

definition sample_config :: config where
  "sample_config = \<lparr>cf_listen = ''127.0.0.1:8080'',
     cf_upstream = \<lparr>uo_scheme = Http, uo_host = ''127.0.0.1'', uo_port = Some 5000\<rparr>,
     cf_repository = ValidatedRepository ''acme/fixture'', cf_allowed_hosts = [''127.0.0.1''],
     cf_connect_timeout = 5000, cf_request_timeout = 60000,
     cf_inbound_limits = \<lparr>max_target_bytes = 8192, max_header_count = 64, max_header_bytes = 16384, max_body_bytes = 67108864\<rparr>,
     cf_enabled_protocols = enabled_with (enabled_with enabled_none Pypi) Apt, cf_log_level = Info,
     cf_allow_insecure_loopback = True, cf_token_credentials = None\<rparr>"

lemma sample_lookup:
  "lookup sample_settings sample_environment key =
     map_of [(''ALLOW_INSECURE_LOOPBACK'', ''true''), (''ENABLED_FRONTENDS'', ''pypi, apt''), (''ALLOWED_HOSTS'', ''127.0.0.1''), (''REPOSITORY'', ''acme/fixture''), (''UPSTREAM'', ''http://127.0.0.1:5000'')] key"
  by (simp add: lookup_def sample_settings_def sample_environment_def bt_get_def)

lemma sample_numbers:
  "parse_timeout ''5000'' k = Ok 5000" "parse_timeout ''60000'' k = Ok 60000"
  "parse_bounded_usize ''8192'' k 1 MAX_TARGET_BYTES = Ok 8192"
  "parse_bounded_usize ''64'' k 1 MAX_HEADER_COUNT = Ok 64"
  "parse_bounded_usize ''16384'' k 1 MAX_HEADER_BYTES = Ok 16384"
  "parse_bounded_usize ''67108864'' k 0 (64 * 1024 * 1024) = Ok 67108864"
  by (simp_all add: parse_timeout_def parse_bounded_usize_def parse_u64_def fold_decimal_0 decimal_val_def digit_val_def
      is_ascii_digit_def MAX_TIMEOUT_MS_def MAX_TARGET_BYTES_def MAX_HEADER_COUNT_def MAX_HEADER_BYTES_def
      del: fold_decimal.simps)

lemma sample_authority: "parse_authority ''127.0.0.1:5000'' = Ok (''127.0.0.1'', Some 5000)"
  by (simp add: parse_authority_def parse_port_def parse_u64_def fold_decimal_0 decimal_val_def digit_val_def is_ascii_digit_def
     del: fold_decimal.simps)

lemma sample_host: "is_valid_host ''127.0.0.1''" "\<not> contains_any ''127.0.0.1'' [CHR '':'']"
  by code_simp+

lemma sample_upstream:
  "parse_upstream ''http://127.0.0.1:5000'' True = Ok \<lparr>uo_scheme = Http, uo_host = ''127.0.0.1'', uo_port = Some 5000\<rparr>"
proof -
  have split: "split_once_str ''://'' ''http://127.0.0.1:5000'' = Some (''http'', ''127.0.0.1:5000'')" by code_simp
  have scheme: "parse_scheme ''http'' True = Ok Http" by code_simp
  have bare: "\<not> (''127.0.0.1:5000'' = [] \<or> contains_any ''127.0.0.1:5000'' [SLASH, CHR ''?'', CHR ''#'', CHR ''@''])"
    by code_simp
  show ?thesis
    unfolding parse_upstream_def split ok_or.simps and_then.simps prod.case scheme if_not_P[OF bare] sample_authority Let_def
      address_examples(1)
    by (simp add: sample_host)
qed

lemma sample_hosts:
  "parse_allowed_hosts ''127.0.0.1'' \<lparr>uo_scheme = Http, uo_host = ''127.0.0.1'', uo_port = Some 5000\<rparr> = Ok [''127.0.0.1'']"
  by code_simp

lemma sample_protocols: "parse_protocols ''pypi, apt'' = Ok (enabled_with (enabled_with enabled_none Pypi) Apt)"
  by code_simp

lemma sample_repository: "validated_repository_parse ''acme/fixture'' = Ok (ValidatedRepository ''acme/fixture'')"
  by code_simp

lemma sample_environment_wf: "bt_wf sample_environment"
  by code_simp

lemma sample_known: "reject_unknown_environment_keys sample_environment = Ok ()"
  by code_simp

lemma sample_config: "from_maps sample_settings sample_environment = Ok sample_config"
  by (simp add: from_maps_def sample_lookup sample_known parse_bool_def sample_upstream sample_hosts sample_protocols
     sample_repository default_listen[unfolded DEFAULT_LISTEN_def] sample_numbers sample_numbers[simplified] log_level_parse_def parse_token_credentials_def Let_def sample_config_def DEFAULT_LISTEN_def)

text \<open>C34. Where a setting comes from does not matter: a configuration file, parsed, with the
  environment over it is validated as the same settings in the environment alone, with the same
  result and the same error.\<close>

theorem config_sources_equivalent:
  assumes "parse_config_file contents = Ok file_values" and "bt_wf environment"
  shows "from_maps file_values environment = from_maps [] (overlay file_values environment)"
proof -
  note keys = parse_config_file_keys[OF assms(1)]
  have look: "lookup [] (overlay file_values environment) = lookup file_values environment"
    using keys assms(2) by (simp add: lookup_overlay)
  have "reject_unknown_environment_keys (overlay file_values environment)
      = reject_unknown_environment_keys environment"
    using keys by (simp add: reject_unknown_iff(2) overlay_keys)
  then show ?thesis
    by (simp only: from_maps_def look parse_token_credentials_cong[OF look])
qed


theorem config_sources_equivalent_witness:
  "parse_config_file sample_file = Ok sample_settings \<and> bt_wf sample_environment
   \<and> from_maps [] (overlay sample_settings sample_environment) = Ok sample_config"
  using config_sources_equivalent[of sample_file sample_settings sample_environment]
  by (simp add: sample_file_parsed sample_config sample_environment_wf)

subsection \<open>The upstream origin\<close>

text \<open>What every accepted origin satisfies.\<close>

definition valid_origin :: "bool \<Rightarrow> upstream_origin \<Rightarrow> bool" where
  "valid_origin insecure u \<longleftrightarrow> is_valid_host (uo_host u)
     \<and> (case uo_port u of Some port \<Rightarrow> 0 < port \<and> port < 65536 | None \<Rightarrow> True)
     \<and> (CHR '':'' \<in> set (uo_host u) \<longrightarrow> parse_ip (uo_host u) \<noteq> None)
     \<and> (uo_scheme u = Http \<longrightarrow> insecure \<and> (\<exists>ip. parse_ip (uo_host u) = Some ip \<and> is_loopback ip))"

lemma parse_port_Ok: "parse_port s = Ok n \<Longrightarrow> 0 < n \<and> n < 65536"
  by (auto simp: parse_port_def bind_eq_Some_conv split: if_splits)

lemma parse_port_decimal_string: "0 < n \<Longrightarrow> n < 65536 \<Longrightarrow> parse_port (decimal_string n) = Ok n"
  by (simp add: parse_port_def parse_u64_decimal_string)

lemma parse_authority_port: "parse_authority a = Ok (h, Some n) \<Longrightarrow> 0 < n \<and> n < 65536"
  by (auto simp: parse_authority_def dest: parse_port_Ok split: if_splits option.splits)

lemma parse_scheme_Http: "parse_scheme s b = Ok Http \<Longrightarrow> b"
  by (simp add: parse_scheme_def split: if_splits)

lemma parse_upstream_valid:
  assumes "parse_upstream v b = Ok u"
  shows "valid_origin b u"
proof -
  obtain s a scheme host port where "parse_scheme s b = Ok scheme" and authority: "parse_authority a = Ok (host, port)"
    and u: "u = \<lparr>uo_scheme = scheme, uo_host = host, uo_port = port\<rparr>" and "is_valid_host host"
    and "CHR '':'' \<in> set host \<longrightarrow> parse_ip host \<noteq> None"
    and "scheme = Http \<longrightarrow> (case parse_ip host of Some ip \<Rightarrow> is_loopback ip | None \<Rightarrow> False)"
    using assms by (simp add: parse_upstream_def Let_def contains_any_iff split: if_splits prod.splits) blast
  moreover have "case port of Some n \<Rightarrow> 0 < n \<and> n < 65536 | None \<Rightarrow> True"
    using authority by (cases port) (simp_all add: parse_authority_port)
  ultimately show ?thesis
    using parse_scheme_Http[of s b] by (simp add: valid_origin_def split: option.splits)
qed

lemma is_valid_host_chars:
  "is_valid_host h \<Longrightarrow> c \<in> set h \<Longrightarrow> is_ascii_alphanumeric c \<or> c \<in> set ''.-:''"
  by (simp add: is_valid_host_def list_all_iff)

lemma is_valid_host_free:
  assumes "is_valid_host h"
  shows "c \<in> {SLASH, CHR ''?'', CHR ''#'', CHR ''@'', CHR ''['', CHR '']''} \<Longrightarrow> c \<notin> set h"
  using is_valid_host_chars[OF assms, of c] by (auto simp: byte_defs)

lemma decimal_string_free:
  assumes "c \<in> set (decimal_string n)"
  shows "c \<notin> {SLASH, CHR ''?'', CHR ''#'', CHR ''@'', CHR ''['', CHR '']'', CHR '':''}"
  using assms decimal_string_digits[of n] by (auto simp: list_all_iff byte_defs)

definition authority_str :: "string \<Rightarrow> nat option \<Rightarrow> string" where
  "authority_str host port = host_for_authority host @ (case port of Some n \<Rightarrow> '':'' @ decimal_string n | None \<Rightarrow> [])"

lemma origin_str_authority: "origin_str u = scheme_str (uo_scheme u) @ ''://'' @ authority_str (uo_host u) (uo_port u)"
  by (simp add: origin_str_def authority_str_def Let_def split: option.splits)

lemma split_scheme: "split_once_str ''://'' (scheme_str s @ ''://'' @ a) = Some (scheme_str s, a)"
  by (cases s) simp_all

lemma parse_scheme_str: "parse_scheme (scheme_str s) b = (if s = Http \<and> \<not> b then Err (InvalidValue ''UPSTREAM'' ''http requires ALLOW_INSECURE_LOOPBACK=true'') else Ok s)"
  by (cases s) (simp_all add: parse_scheme_def)

text \<open>The texts of an authority: brackets may stand around any host, and have to around one with a colon.\<close>

definition port_spelling :: "string \<Rightarrow> nat \<Rightarrow> bool" where
  "port_spelling text n \<longleftrightarrow>
     (\<exists>digits. text \<in> {digits, CHR ''+'' # digits} \<and> digits \<noteq> [] \<and> list_all is_ascii_digit digits \<and> decimal_val digits = n)"

definition suffix_spelling :: "string \<Rightarrow> nat option \<Rightarrow> bool" where
  "suffix_spelling rest port \<longleftrightarrow>
     (case port of None \<Rightarrow> rest = [] | Some n \<Rightarrow> \<exists>digits. rest = '':'' @ digits \<and> port_spelling digits n)"

definition authority_spelling :: "string \<Rightarrow> string \<Rightarrow> nat option \<Rightarrow> bool" where
  "authority_spelling text host port \<longleftrightarrow>
     (\<exists>name rest. text = name @ rest \<and> (name = ''['' @ host @ '']'' \<or> CHR '':'' \<notin> set host \<and> name = host)
        \<and> suffix_spelling rest port)"

lemma suffix_spelling_simps [simp]: "suffix_spelling rest None \<longleftrightarrow> rest = []"
  "suffix_spelling (CHR '':'' # digits) (Some n) \<longleftrightarrow> port_spelling digits n"
  by (auto simp: suffix_spelling_def)

lemma authority_spellingI:
  "a = CHR ''['' # h @ CHR '']'' # rest \<Longrightarrow> suffix_spelling rest p \<Longrightarrow> authority_spelling a h p"
  "a = h @ rest \<Longrightarrow> CHR '':'' \<notin> set h \<Longrightarrow> suffix_spelling rest p \<Longrightarrow> authority_spelling a h p"
  unfolding authority_spelling_def
  by (rule exI[of _ "''['' @ h @ '']''"], rule exI[of _ rest], simp) blast

lemma parse_u64_Some:
  "parse_u64 s = Some n \<longleftrightarrow> port_spelling s n \<and> n < U64_LIMIT"
proof -
  have plus: "\<not> list_all is_ascii_digit (CHR ''+'' # ds)" for ds by (simp add: is_ascii_digit_def)
  have num: "(if ds = [] \<or> \<not> list_all is_ascii_digit ds then None else fold_decimal 0 ds) = Some n
      \<longleftrightarrow> ds \<noteq> [] \<and> list_all is_ascii_digit ds \<and> decimal_val ds = n \<and> n < U64_LIMIT" for ds
    using fold_decimal_0[of ds] by (auto simp del: fold_decimal.simps)
  show ?thesis
  proof (cases "\<exists>ds. s = CHR ''+'' # ds")
    case True
    then obtain ds where s: "s = CHR ''+'' # ds" by blast
    have "port_spelling s n \<longleftrightarrow> ds \<noteq> [] \<and> list_all is_ascii_digit ds \<and> decimal_val ds = n"
      using plus[of ds] plus[of "[]"] by (auto simp: port_spelling_def s)
    then show ?thesis using num[of ds] by (simp add: parse_u64_def s del: fold_decimal.simps)
  next
    case False
    then have "port_spelling s n \<longleftrightarrow> s \<noteq> [] \<and> list_all is_ascii_digit s \<and> decimal_val s = n"
      by (auto simp: port_spelling_def)
    moreover have "parse_u64 s = (if s = [] \<or> \<not> list_all is_ascii_digit s then None else fold_decimal 0 s)"
      using False by (cases s) (simp_all add: parse_u64_def del: fold_decimal.simps)
    ultimately show ?thesis using num[of s] by simp
  qed
qed

lemma parse_port_iff: "parse_port s = Ok n \<longleftrightarrow> port_spelling s n \<and> 0 < n \<and> n < 65536"
proof -
  have "parse_port s = Ok n \<longleftrightarrow> parse_u64 s = Some n \<and> 0 < n \<and> n < 65536"
    by (auto simp: parse_port_def bind_eq_Some_conv split: if_splits)
  then show ?thesis by (auto simp: parse_u64_Some)
qed

lemma parse_authority_sound:
  assumes "parse_authority a = Ok (h, p)"
  shows "authority_spelling a h p"
proof (cases "starts_with a ''[''")
  case True
  then obtain b where a: "a = CHR ''['' # b" by (auto simp: prefix_def)
  obtain host rest where split: "split_once (CHR '']'') b = Some (host, rest)"
    and parsed: "(if rest = [] then Ok (host, None)
        else and_then (ok_or (InvalidValue ''UPSTREAM'' ''authority port is malformed'')
            (strip_prefix '':'' rest)) (\<lambda>port.
          and_then (parse_port port) (\<lambda>port. Ok (host, Some port)))) = Ok (h, p)"
    using assms by (auto simp: parse_authority_def a)
  have b: "b = host @ CHR '']'' # rest" using split by (simp add: split_once_Some_iff)
  show ?thesis
  proof (cases "rest = []")
    case True
    with parsed b a show ?thesis by (intro authority_spellingI(1)[of a h rest]) auto
  next
    case False
    then obtain digits n where digits: "strip_prefix '':'' rest = Some digits" "parse_port digits = Ok n" "h = host" "p = Some n"
      using parsed by (auto simp: bind_eq_Some_conv)
    then have "rest = '':'' @ digits" by (simp only: strip_prefix_Some_iff)
    with digits b a show ?thesis by (intro authority_spellingI(1)[of a h rest]) (auto simp: parse_port_iff)
  qed
next
  case False
  show ?thesis
  proof (cases "split_once (CHR '':'') a")
    case None
    with False assms show ?thesis
      by (intro authority_spellingI(2)[of a h "[]"]) (auto simp: parse_authority_def split_once_None_iff)
  next
    case (Some q)
    then obtain host digits where q: "split_once (CHR '':'') a = Some (host, digits)" by (cases q) simp
    then obtain n where "parse_port digits = Ok n" "h = host" "p = Some n"
      using assms False by (auto simp: parse_authority_def split: if_splits)
    with q show ?thesis
      by (intro authority_spellingI(2)[of a h "CHR '':'' # digits"]) (auto simp: split_once_Some_iff parse_port_iff)
  qed
qed

lemma parse_authority_complete:
  assumes spelling: "authority_spelling a h p" and host: "is_valid_host h"
    and port: "case p of Some n \<Rightarrow> 0 < n \<and> n < 65536 | None \<Rightarrow> True"
  shows "parse_authority a = Ok (h, p)"
proof -
  obtain name rest where a: "a = name @ rest" and name: "name = ''['' @ h @ '']'' \<or> CHR '':'' \<notin> set h \<and> name = h"
    and rest: "suffix_spelling rest p"
    using spelling by (auto simp: authority_spelling_def)
  from name show ?thesis
  proof (elim disjE conjE)
    assume name: "name = ''['' @ h @ '']''"
    have "split_once (CHR '']'') (h @ CHR '']'' # r) = Some (h, r)" for r
      using is_valid_host_free[OF host, of "CHR '']''"] by (simp add: split_once_Some_iff)
    with rest port show ?thesis
      by (auto simp: parse_authority_def a name parse_port_iff suffix_spelling_def split: option.splits)
  next
    assume name: "CHR '':'' \<notin> set h" "name = h"
    obtain c cs where h: "h = c # cs" using host by (cases h) (auto simp: is_valid_host_def)
    have bracket: "c \<noteq> CHR ''[''" using is_valid_host_free[OF host, of "CHR ''[''"] h by auto
    show ?thesis
    proof (cases p)
      case None
      with rest have "a = h" by (simp add: a name)
      moreover have "split_once (CHR '':'') h = None" using name(1) by (simp add: split_once_None_iff)
      ultimately show ?thesis using bracket h None by (simp add: parse_authority_def)
    next
      case (Some n)
      with rest obtain digits where digits: "a = h @ CHR '':'' # digits" "port_spelling digits n" by (auto simp: a name suffix_spelling_def)
      have "split_once (CHR '':'') a = Some (h, digits)" using name(1) digits(1) by (simp add: split_once_Some_iff)
      moreover have "parse_port digits = Ok n" using digits(2) port Some by (simp add: parse_port_iff)
      ultimately show ?thesis using bracket h Some digits(1) by (simp add: parse_authority_def)
    qed
  qed
qed

lemma authority_str_spelling: "authority_spelling (authority_str h p) h p"
proof -
  let ?rest = "case p of Some n \<Rightarrow> '':'' @ decimal_string n | None \<Rightarrow> []"
  have "port_spelling (decimal_string n) n" for n
    using decimal_string_digits[of n] by (auto simp: port_spelling_def)
  then have "suffix_spelling ?rest p" by (cases p) simp_all
  note rest = this
  show ?thesis
  proof (cases "CHR '':'' \<in> set h")
    case True
    then have "authority_str h p = CHR ''['' # h @ CHR '']'' # ?rest"
      by (simp add: authority_str_def host_for_authority_def contains_any_iff)
    from authority_spellingI(1)[OF this rest] show ?thesis .
  next
    case False
    then have "authority_str h p = h @ ?rest"
      by (simp add: authority_str_def host_for_authority_def contains_any_iff)
    from authority_spellingI(2)[OF this False rest] show ?thesis .
  qed
qed

lemma authority_spelling_free:
  assumes "authority_spelling a h p" "is_valid_host h"
  shows "a \<noteq> [] \<and> \<not> contains_any a [SLASH, CHR ''?'', CHR ''#'', CHR ''@'']"
proof -
  let ?bad = "{SLASH, CHR ''?'', CHR ''#'', CHR ''@''}"
  obtain name rest where a: "a = name @ rest" "name = ''['' @ h @ '']'' \<or> CHR '':'' \<notin> set h \<and> name = h" "suffix_spelling rest p"
    using assms(1) by (auto simp: authority_spelling_def)
  have plain: "c \<notin> set ds" if "list_all is_ascii_digit ds" "c \<in> ?bad" for ds c
  proof
    assume "c \<in> set ds"
    with that(1) have "is_ascii_digit c" by (simp add: list_all_iff)
    with that(2) show False by (auto simp: is_ascii_digit_def)
  qed
  have digits: "c \<notin> set t" if t: "port_spelling t n" and c: "c \<in> ?bad" for t n c
  proof -
    obtain ds where ds: "t = ds \<or> t = CHR ''+'' # ds" "list_all is_ascii_digit ds" using t by (auto simp: port_spelling_def)
    have "c \<noteq> CHR ''+''" using c by auto
    with ds plain[OF ds(2) c] show ?thesis by auto
  qed
  have rest: "c \<notin> set rest" if c: "c \<in> ?bad" for c
  proof (cases p)
    case (Some n)
    then obtain t where t: "rest = CHR '':'' # t" "port_spelling t n" using a(3) by (auto simp: suffix_spelling_def)
    have "c \<noteq> CHR '':''" using c by auto
    with t digits[OF t(2) c] show ?thesis by simp
  qed (use a(3) in simp)
  have host: "c \<notin> set h" if "c \<in> ?bad" for c using is_valid_host_free[OF assms(2), of c] that by blast
  have name: "c \<notin> set name" if c: "c \<in> ?bad" for c
  proof -
    have "c \<noteq> CHR ''[''" "c \<noteq> CHR '']''" using c by auto
    with a(2) host[OF c] show ?thesis by auto
  qed
  have "name \<noteq> []" using a(2) assms(2) by (auto simp: is_valid_host_def)
  with name rest a(1) show ?thesis by (auto simp: contains_any_iff)
qed

lemma split_once_str_parts: "split_once_str p s = Some (a, b) \<Longrightarrow> s = a @ p @ b"
proof (induction p s arbitrary: a rule: split_once_str.induct)
  case (2 p c cs)
  show ?case
  proof (cases "prefix p (c # cs)")
    case True
    with "2.prems" show ?thesis by (auto simp: prefix_def)
  next
    case False
    with "2.prems" obtain a' where "split_once_str p cs = Some (a', b)" "a = c # a'" by auto
    with "2.IH"[OF False] show ?thesis by simp
  qed
qed (simp split: if_splits)

lemma parse_scheme_text: "parse_scheme t b = Ok s \<Longrightarrow> t = scheme_str s"
  by (auto simp: parse_scheme_def split: if_splits)

lemma parse_upstream_spelling:
  assumes "parse_upstream v insecure = Ok u"
  shows "\<exists>text. v = scheme_str (uo_scheme u) @ ''://'' @ text \<and> authority_spelling text (uo_host u) (uo_port u)"
proof -
  obtain s a scheme host port where split: "split_once_str ''://'' v = Some (s, a)" and scheme: "parse_scheme s insecure = Ok scheme"
    and authority: "parse_authority a = Ok (host, port)" and u: "u = \<lparr>uo_scheme = scheme, uo_host = host, uo_port = port\<rparr>"
    using assms by (simp add: parse_upstream_def Let_def split: if_splits prod.splits) blast
  from split_once_str_parts[OF split] parse_scheme_text[OF scheme] parse_authority_sound[OF authority] u
  show ?thesis by auto
qed

lemma parse_upstream_accepts:
  assumes valid: "valid_origin insecure u" and spelling: "authority_spelling text (uo_host u) (uo_port u)"
  shows "parse_upstream (scheme_str (uo_scheme u) @ ''://'' @ text) insecure = Ok u"
proof -
  have host: "is_valid_host (uo_host u)" using valid by (simp add: valid_origin_def)
  have auth: "parse_authority text = Ok (uo_host u, uo_port u)"
    using valid by (intro parse_authority_complete[OF spelling]) (auto simp: valid_origin_def)
  have scheme: "parse_scheme (scheme_str (uo_scheme u)) insecure = Ok (uo_scheme u)"
    using valid by (simp add: parse_scheme_str valid_origin_def)
  have ip: "\<not> (contains_any (uo_host u) [CHR '':''] \<and> parse_ip (uo_host u) = None)"
    "\<not> (uo_scheme u = Http \<and> \<not> (case parse_ip (uo_host u) of Some a \<Rightarrow> is_loopback a | None \<Rightarrow> False))"
    using valid by (auto simp: valid_origin_def contains_any_iff)
  show ?thesis
    unfolding parse_upstream_def split_scheme scheme auth Let_def ok_or.simps and_then.simps prod.case
    using authority_spelling_free[OF spelling host] ip host by (simp add: scheme auth)
qed

text \<open>C35. The texts of an origin. A text is accepted as an origin exactly when the origin is valid (a legal
  host, a nonzero port in 16 bits, cleartext only when opted in and only to a loopback address) and
  the text is one of its spellings: the scheme, the host, bare or in brackets, and the port with any
  leading zeros and plus sign. A host with a colon needs the brackets; that any other host may have
  them too is what the code does, though not what a URL allows. Among these texts is the canonical
  one, so every valid origin is read back from it, and equal canonical texts are equal origins.\<close>

theorem upstream_origin_roundtrip:
  "(parse_upstream v insecure = Ok u \<longleftrightarrow> valid_origin insecure u
      \<and> (\<exists>text. v = scheme_str (uo_scheme u) @ ''://'' @ text \<and> authority_spelling text (uo_host u) (uo_port u)))
   \<and> (parse_upstream (origin_str u) insecure = Ok u \<longleftrightarrow> valid_origin insecure u)"
proof
  show "parse_upstream v insecure = Ok u \<longleftrightarrow> valid_origin insecure u
      \<and> (\<exists>text. v = scheme_str (uo_scheme u) @ ''://'' @ text \<and> authority_spelling text (uo_host u) (uo_port u))"
    using parse_upstream_valid parse_upstream_spelling parse_upstream_accepts by blast
  show "parse_upstream (origin_str u) insecure = Ok u \<longleftrightarrow> valid_origin insecure u"
    unfolding origin_str_authority using parse_upstream_valid parse_upstream_accepts[OF _ authority_str_spelling] by blast
qed

subsection \<open>The validated configuration\<close>

lemma parse_timeout_Ok: "parse_timeout s k = Ok n \<Longrightarrow> 0 < n \<and> n \<le> MAX_TIMEOUT_MS"
  by (auto simp: parse_timeout_def bind_eq_Some_conv split: if_splits)

lemma parse_bounded_usize_Ok: "parse_bounded_usize s k lo hi = Ok n \<Longrightarrow> lo \<le> n \<and> n \<le> hi"
  by (auto simp: parse_bounded_usize_def bind_eq_Some_conv split: if_splits)

lemma parse_listen_Ok:
  "parse_listen s = Ok t \<Longrightarrow> t = s \<and> (\<exists>ip port. parse_socket_addr s = Some (ip, port) \<and> (port = 0 \<longrightarrow> is_loopback ip))"
  by (auto simp: parse_listen_def split: if_splits)

lemma colon_lowercase: "CHR '':'' \<in> set h \<Longrightarrow> CHR '':'' \<in> set (lowercase h)"
  by (force simp: lowercase_def to_ascii_lowercase_def byte_defs image_iff)

lemma parse_allowed_hosts_Ok:
  assumes "parse_allowed_hosts s u = Ok hosts"
  shows "lowercase (uo_host u) \<in> set hosts" "h \<in> set hosts \<Longrightarrow> is_valid_host h \<and> CHR '':'' \<notin> set h"
  using assms by (auto simp: parse_allowed_hosts_def Let_def list_ex_iff contains_any_iff split: if_splits)

lemma if_Err_eq_Ok: "(if P then Err x else r) = Ok a \<longleftrightarrow> \<not> P \<and> r = Ok a"
  by simp

lemma ex_unit: "(\<exists>u. P u) \<longleftrightarrow> P ()"
  by (metis old.unit.exhaust)

lemma from_maps_parts:
  assumes "from_maps f e = Ok c"
  shows "\<exists>s. parse_listen s = Ok (cf_listen c)"
    and "\<exists>s. parse_upstream s (cf_allow_insecure_loopback c) = Ok (cf_upstream c)"
    and "\<exists>s. validated_repository_parse s = Ok (cf_repository c)"
    and "\<exists>s. parse_allowed_hosts s (cf_upstream c) = Ok (cf_allowed_hosts c)"
    and "\<exists>s. parse_timeout s ''CONNECT_TIMEOUT_MS'' = Ok (cf_connect_timeout c)"
    and "\<exists>s. parse_timeout s ''REQUEST_TIMEOUT_MS'' = Ok (cf_request_timeout c)"
    and "cf_connect_timeout c \<le> cf_request_timeout c"
    and "\<exists>s. parse_bounded_usize s ''MAX_TARGET_BYTES'' 1 MAX_TARGET_BYTES = Ok (max_target_bytes (cf_inbound_limits c))"
    and "\<exists>s. parse_bounded_usize s ''MAX_HEADER_COUNT'' 1 MAX_HEADER_COUNT = Ok (max_header_count (cf_inbound_limits c))"
    and "\<exists>s. parse_bounded_usize s ''MAX_HEADER_BYTES'' 1 MAX_HEADER_BYTES = Ok (max_header_bytes (cf_inbound_limits c))"
    and "\<exists>s. parse_bounded_usize s ''MAX_BODY_BYTES'' 0 (64 * 1024 * 1024) = Ok (max_body_bytes (cf_inbound_limits c))"
    and "parse_token_credentials f e = Ok (cf_token_credentials c)"
    and "reject_unknown_environment_keys e = Ok ()"
proof -
  define at where "at key default = (case lookup f e key of Some v \<Rightarrow> v | None \<Rightarrow> default)" for key default
  obtain listen loopback upstream repository hosts connect request target count bytes body enabled level credentials
    where facts: "parse_listen (at ''LISTEN_ADDR'' DEFAULT_LISTEN) = Ok listen"
      "parse_upstream (at ''UPSTREAM'' DEFAULT_UPSTREAM) loopback = Ok upstream"
      "validated_repository_parse (at ''REPOSITORY'' DEFAULT_REPOSITORY) = Ok repository"
      "parse_allowed_hosts (at ''ALLOWED_HOSTS'' DEFAULT_ALLOWED_HOSTS) upstream = Ok hosts"
      "parse_timeout (at ''CONNECT_TIMEOUT_MS'' ''5000'') ''CONNECT_TIMEOUT_MS'' = Ok connect"
      "parse_timeout (at ''REQUEST_TIMEOUT_MS'' ''60000'') ''REQUEST_TIMEOUT_MS'' = Ok request"
      "\<not> connect > request"
      "parse_bounded_usize (at ''MAX_TARGET_BYTES'' ''8192'') ''MAX_TARGET_BYTES'' 1 MAX_TARGET_BYTES = Ok target"
      "parse_bounded_usize (at ''MAX_HEADER_COUNT'' ''64'') ''MAX_HEADER_COUNT'' 1 MAX_HEADER_COUNT = Ok count"
      "parse_bounded_usize (at ''MAX_HEADER_BYTES'' ''16384'') ''MAX_HEADER_BYTES'' 1 MAX_HEADER_BYTES = Ok bytes"
      "parse_bounded_usize (at ''MAX_BODY_BYTES'' ''67108864'') ''MAX_BODY_BYTES'' 0 (64 * 1024 * 1024) = Ok body"
      "parse_token_credentials f e = Ok credentials"
      "reject_unknown_environment_keys e = Ok ()"
    and c: "c = \<lparr>cf_listen = listen, cf_upstream = upstream, cf_repository = repository, cf_allowed_hosts = hosts,
           cf_connect_timeout = connect, cf_request_timeout = request,
           cf_inbound_limits = \<lparr>max_target_bytes = target, max_header_count = count,
             max_header_bytes = bytes, max_body_bytes = body\<rparr>,
           cf_enabled_protocols = enabled, cf_log_level = level, cf_allow_insecure_loopback = loopback,
           cf_token_credentials = credentials\<rparr>"
    using assms unfolding from_maps_def Let_def at_def[symmetric] and_then_eq_Ok map_err_eq_Ok if_Err_eq_Ok sum.inject ex_unit
    by (elim exE conjE) (rule that, assumption+, erule sym)
  show "\<exists>s. parse_listen s = Ok (cf_listen c)"
    "\<exists>s. parse_upstream s (cf_allow_insecure_loopback c) = Ok (cf_upstream c)"
    "\<exists>s. validated_repository_parse s = Ok (cf_repository c)"
    "\<exists>s. parse_allowed_hosts s (cf_upstream c) = Ok (cf_allowed_hosts c)"
    "\<exists>s. parse_timeout s ''CONNECT_TIMEOUT_MS'' = Ok (cf_connect_timeout c)"
    "\<exists>s. parse_timeout s ''REQUEST_TIMEOUT_MS'' = Ok (cf_request_timeout c)"
    "cf_connect_timeout c \<le> cf_request_timeout c"
    "\<exists>s. parse_bounded_usize s ''MAX_TARGET_BYTES'' 1 MAX_TARGET_BYTES = Ok (max_target_bytes (cf_inbound_limits c))"
    "\<exists>s. parse_bounded_usize s ''MAX_HEADER_COUNT'' 1 MAX_HEADER_COUNT = Ok (max_header_count (cf_inbound_limits c))"
    "\<exists>s. parse_bounded_usize s ''MAX_HEADER_BYTES'' 1 MAX_HEADER_BYTES = Ok (max_header_bytes (cf_inbound_limits c))"
    "\<exists>s. parse_bounded_usize s ''MAX_BODY_BYTES'' 0 (64 * 1024 * 1024) = Ok (max_body_bytes (cf_inbound_limits c))"
    "parse_token_credentials f e = Ok (cf_token_credentials c)"
    "reject_unknown_environment_keys e = Ok ()"
    using facts c by (simp_all, metis+)
qed

text \<open>C15. A configuration that loads is safe: the upstream is a valid origin whose host has no colon (so
  never an IPv6 address) and is on the allow list, the allow list holds host names only, cleartext is
  used only with the opt-in and only to a loopback address, port zero is listened on only on a loopback
  address, the connect deadline is positive, at most the request deadline, and that is at most ten
  minutes, and every limit is within its bounds.\<close>

theorem config_safe:
  assumes "from_maps file_values environment = Ok c"
  shows "valid_origin (cf_allow_insecure_loopback c) (cf_upstream c)
    \<and> lowercase (uo_host (cf_upstream c)) \<in> set (cf_allowed_hosts c)
    \<and> CHR '':'' \<notin> set (uo_host (cf_upstream c))
    \<and> list_all (\<lambda>h. is_valid_host h \<and> CHR '':'' \<notin> set h) (cf_allowed_hosts c)
    \<and> (\<exists>ip port. parse_socket_addr (cf_listen c) = Some (ip, port) \<and> (port = 0 \<longrightarrow> is_loopback ip))
    \<and> repository_spec (repo_str (cf_repository c))
    \<and> 0 < cf_connect_timeout c \<and> cf_connect_timeout c \<le> cf_request_timeout c \<and> cf_request_timeout c \<le> 600000
    \<and> (let l = cf_inbound_limits c in
        1 \<le> max_target_bytes l \<and> max_target_bytes l \<le> 65536 \<and> 1 \<le> max_header_count l \<and> max_header_count l \<le> 256
        \<and> 1 \<le> max_header_bytes l \<and> max_header_bytes l \<le> 131072 \<and> max_body_bytes l \<le> 67108864)"
proof -
  note parts = from_maps_parts[OF assms]
  obtain s where hosts: "parse_allowed_hosts s (cf_upstream c) = Ok (cf_allowed_hosts c)" using parts(4) by blast
  have host: "lowercase (uo_host (cf_upstream c)) \<in> set (cf_allowed_hosts c)" by (rule parse_allowed_hosts_Ok(1)[OF hosts])
  have no_colon: "CHR '':'' \<notin> set (uo_host (cf_upstream c))"
    using parse_allowed_hosts_Ok(2)[OF hosts host] colon_lowercase by blast
  have allowed: "list_all (\<lambda>h. is_valid_host h \<and> CHR '':'' \<notin> set h) (cf_allowed_hosts c)"
    using parse_allowed_hosts_Ok(2)[OF hosts] by (simp add: list_all_iff)
  have origin: "valid_origin (cf_allow_insecure_loopback c) (cf_upstream c)"
    using parts(2) parse_upstream_valid by blast
  have repository: "repository_spec (repo_str (cf_repository c))"
    using parts(3) by (auto simp: validated_repository_parse_eq split: if_splits) (metis validated_repository.sel)
  have times: "0 < cf_connect_timeout c" "cf_request_timeout c \<le> 600000"
    using parts(5,6) parse_timeout_Ok by (fastforce simp: MAX_TIMEOUT_MS_def)+
  have limits: "let l = cf_inbound_limits c in
        1 \<le> max_target_bytes l \<and> max_target_bytes l \<le> 65536 \<and> 1 \<le> max_header_count l \<and> max_header_count l \<le> 256
        \<and> 1 \<le> max_header_bytes l \<and> max_header_bytes l \<le> 131072 \<and> max_body_bytes l \<le> 67108864"
    using parts(8-11) by (auto dest!: parse_bounded_usize_Ok
        simp: MAX_TARGET_BYTES_def MAX_HEADER_COUNT_def MAX_HEADER_BYTES_def Let_def)
  have listen: "\<exists>ip port. parse_socket_addr (cf_listen c) = Some (ip, port) \<and> (port = 0 \<longrightarrow> is_loopback ip)"
    using parts(1) parse_listen_Ok by blast
  show ?thesis
    by (intro conjI origin host no_colon allowed listen repository times(1) parts(7) times(2) limits)
qed

theorem config_safe_witness:
  "from_maps sample_settings sample_environment = Ok sample_config
   \<and> lowercase (uo_host (cf_upstream sample_config)) \<in> set (cf_allowed_hosts sample_config)"
  using config_safe[OF sample_config] sample_config by simp

end
