(* ===== verification/Server.thy ===== *)
theory Server
  imports Gateway_Safety Config
begin

text \<open>
  \<open>src/server.rs\<close>: the health endpoints, the placeholder handler and the life of the listener, and
  the composition in \<open>src/main.rs\<close>: a service from its configuration, and what it answers to the links
  of its own listings.
\<close>

subsection \<open>Requests\<close>

definition health_response :: "bool \<Rightarrow> string \<Rightarrow> reply option" where
  "health_response ready method =
     (let body = (if ready then ''ok'' else ''not ready'') @ [CHR 0x0A] in
      build_reply (if ready then 200 else 503)
        [Text ''cache-control'' ''no-store'', Text ''content-type'' ''text/plain; charset=utf-8'',
         Value ''content-length'' (decimal_string (length body)), Text ''x-content-type-options'' ''nosniff'']
        (Fixed (if method = ''HEAD'' then [] else body)))"

definition dispatch :: "(request \<Rightarrow> reply option io) \<Rightarrow> request \<Rightarrow> reply option io" where
  "dispatch handler request =
     (if req_method request \<in> {''GET'', ''HEAD''} \<and> req_path request = ''/healthz''
      then Return (health_response True (req_method request))
      else if req_method request \<in> {''GET'', ''HEAD''} \<and> req_path request = ''/readyz''
      then Return (health_response True (req_method request))
      else handler request)"

definition unavailable_handler :: "library \<Rightarrow> enabled_protocols \<Rightarrow> inbound_limits \<Rightarrow> request \<Rightarrow> reply option io" where
  "unavailable_handler lib enabled limits request =
     (case validate_request (lib_base64url lib) (lib_base64url_decode lib) request enabled limits of
        Inr _ \<Rightarrow> fail_with Unexpected
      | Inl error \<Rightarrow> fail_with (Inbound error))"

subsection \<open>A service from its configuration\<close>

definition client_new :: "config \<Rightarrow> client" where
  "client_new c = \<lparr>cl_origin = origin_str (cf_upstream c), cl_credentials = cf_token_credentials c\<rparr>"

definition serve_request :: "library \<Rightarrow> config \<Rightarrow> request \<Rightarrow> string option list \<Rightarrow> reply option io" where
  "serve_request lib c request body =
     dispatch (\<lambda>request. handle_gateway lib (client_new c) request body (repo_str (cf_repository c)) (cf_inbound_limits c)) request"

subsection \<open>The listener\<close>

text \<open>
  The accept loop with its set of connection tasks. The set keeps a task that has ended until the set
  is dropped, since nothing joins it; \<open>True\<close> is a running task. The watch holds the shutdown flag; the
  owner sends it and waits, or drops the server and aborts the loop.
\<close>

datatype accept_loop = Accepting "bool list" | Stopped

record server =
  sv_loop :: accept_loop
  sv_shutdown :: bool

definition server_start :: server where
  "server_start = \<lparr>sv_loop = Accepting [], sv_shutdown = False\<rparr>"

datatype server_event = Accepted | Accept_failed | Ended nat | Shutdown_sent | Shutdown_seen | Dropped

inductive serve :: "server \<Rightarrow> server_event \<Rightarrow> server \<Rightarrow> bool" where
  accepted: "sv_loop s = Accepting cs \<Longrightarrow> serve s Accepted (s\<lparr>sv_loop := Accepting (cs @ [True])\<rparr>)"
| accept_failed: "sv_loop s = Accepting cs \<Longrightarrow> serve s Accept_failed (s\<lparr>sv_loop := Stopped\<rparr>)"
| ended: "sv_loop s = Accepting cs \<Longrightarrow> i < length cs \<Longrightarrow> cs ! i \<Longrightarrow>
    serve s (Ended i) (s\<lparr>sv_loop := Accepting (cs[i := False])\<rparr>)"
| shutdown_sent: "serve s Shutdown_sent (s\<lparr>sv_shutdown := True\<rparr>)"
| shutdown_seen: "sv_loop s = Accepting cs \<Longrightarrow> sv_shutdown s \<Longrightarrow> serve s Shutdown_seen (s\<lparr>sv_loop := Stopped\<rparr>)"
| dropped: "serve s Dropped (s\<lparr>sv_loop := Stopped, sv_shutdown := True\<rparr>)"

inductive_cases serve_stopped: "serve s e s'"

inductive serves :: "server \<Rightarrow> server_event list \<Rightarrow> server \<Rightarrow> bool" where
  serves_Nil: "serves s [] s"
| serves_snoc: "serves s es t \<Longrightarrow> serve t e u \<Longrightarrow> serves s (es @ [e]) u"

subsection \<open>Health\<close>

lemma health_response_Some:
  "health_response ready method = Some \<lparr>rp_status = (if ready then 200 else 503),
     rp_headers = [(''cache-control'', ''no-store''), (''content-type'', ''text/plain; charset=utf-8''),
       (''content-length'', decimal_string (if ready then 3 else 10)), (''x-content-type-options'', ''nosniff'')],
     rp_body = Fixed (if method = ''HEAD'' then [] else (if ready then ''ok'' else ''not ready'') @ [CHR 0x0A])\<rparr>"
  by (cases ready; simp add: health_response_def build_reply_def header_value_from_def Let_def printable_Cons; simp add: eval_nat_numeral)

subsection \<open>The upstream of a service\<close>

lemma obeys_serve_request:
  "obeys (policy lib (client_new c) (repo_str (cf_repository c)) (req_method request)
     (header_get (req_headers request) ''authorization'')) (serve_request lib c request body)"
  unfolding serve_request_def dispatch_def using obeys_handle_gateway by simp

text \<open>A request under an origin.\<close>

definition under :: "string \<Rightarrow> string \<Rightarrow> bool" where
  "under origin u \<longleftrightarrow> (\<exists>path. u = origin @ SLASH # path)"

lemma policy_under:
  "policy lib c repository m authorization past (Sent q x) \<Longrightarrow> under (cl_origin c) (out_uri q)"
  by (erule policy.cases)
    (auto simp: upstream_uri_def under_def token_endpoint_def prefix_def)

lemma complies_event: "complies P [] tr \<Longrightarrow> e \<in> set tr \<Longrightarrow> \<exists>past. P past e"
  unfolding complies_def by (metis in_set_conv_decomp append_Nil)

lemma served_under:
  assumes "advance (serve_request lib c request body) tr q" and "Sent r x \<in> set tr"
  shows "under (origin_str (cf_upstream c)) (out_uri r)"
proof -
  have "complies (policy lib (client_new c) (repo_str (cf_repository c)) (req_method request)
     (header_get (req_headers request) ''authorization'')) [] tr"
    by (rule obeys_complies[OF obeys_serve_request assms(1)])
  from complies_event[OF this assms(2)] show ?thesis
    using policy_under[where c = "client_new c"] by (auto simp: client_new_def)
qed

lemma loaded_origin:
  assumes "from_maps file_values environment = Ok c"
  shows "valid_origin (cf_allow_insecure_loopback c) (cf_upstream c)"
    and "lowercase (uo_host (cf_upstream c)) \<in> set (cf_allowed_hosts c)"
proof -
  note parts = from_maps_parts[OF assms]
  show "valid_origin (cf_allow_insecure_loopback c) (cf_upstream c)" using parts(2) parse_upstream_valid by blast
  show "lowercase (uo_host (cf_upstream c)) \<in> set (cf_allowed_hosts c)" using parts(4) parse_allowed_hosts_Ok(1) by blast
qed

subsection \<open>The life of the listener\<close>

lemma serves_append: "serves s es t \<Longrightarrow> serves t fs u \<Longrightarrow> serves s (es @ fs) u"
  by (rotate_tac, induction rule: serves.induct) (auto simp: serves_snoc simp flip: append_assoc)

lemma filter_list_update_False:
  "i < length cs \<Longrightarrow> cs ! i \<Longrightarrow> Suc (length (filter id (cs[i := False]))) = length (filter id cs)"
  by (induction cs arbitrary: i) (auto split: nat.splits simp: nth_Cons)

definition is_ended :: "server_event \<Rightarrow> bool" where
  "is_ended e \<longleftrightarrow> (\<exists>i. e = Ended i)"

lemma is_ended_simps [simp]:
  "is_ended (Ended i)" "\<not> is_ended Accepted" "\<not> is_ended Accept_failed" "\<not> is_ended Shutdown_sent"
  "\<not> is_ended Shutdown_seen" "\<not> is_ended Dropped"
  by (simp_all add: is_ended_def)

lemma server_invariant:
  "serves s0 es s \<Longrightarrow> s0 = server_start \<Longrightarrow>
     (case sv_loop s of
        Accepting cs \<Rightarrow> length cs = length (filter (\<lambda>e. e = Accepted) es)
          \<and> length (filter id cs) + length (filter is_ended es) = length cs
          \<and> sv_shutdown s = (Shutdown_sent \<in> set es)
      | Stopped \<Rightarrow> \<exists>e \<in> {Accept_failed, Shutdown_seen, Dropped}. e \<in> set es)"
proof (induction rule: serves.induct)
  case (serves_Nil s)
  then show ?case by (simp add: server_start_def)
next
  case (serves_snoc s es t e u)
  note IH = serves_snoc.IH[OF serves_snoc.prems]
  from serves_snoc.hyps(2) show ?case
  proof cases
    case (ended cs i)
    show ?thesis using IH ended filter_list_update_False[OF ended(4,5)] by auto
  qed (use IH in \<open>auto split: accept_loop.splits\<close>)
qed

lemma server_stopped: "serve s e s' \<Longrightarrow> sv_loop s = Stopped \<Longrightarrow> sv_loop s' = Stopped \<and> e \<in> {Shutdown_sent, Dropped}"
  by (erule serve_stopped) auto

text \<open>The life of the listener: as long as it accepts, its set holds one task for every connection ever
  accepted (ended ones stay until the end), of which the running ones are the accepted less the ended,
  and the shutdown flag says whether the owner has sent the shutdown; once sent, the loop can stop at
  the next step. It stops only by a failed accept, the shutdown or the drop of its owner, and then
  accepts nothing more.\<close>

lemma server_lifecycle:
  assumes "serves server_start es s"
  shows "case sv_loop s of
      Accepting cs \<Rightarrow> length cs = length (filter (\<lambda>e. e = Accepted) es)
        \<and> length (filter id cs) + length (filter is_ended es) = length cs
        \<and> sv_shutdown s = (Shutdown_sent \<in> set es)
        \<and> (Shutdown_sent \<in> set es \<longrightarrow> serve s Shutdown_seen (s\<lparr>sv_loop := Stopped\<rparr>))
    | Stopped \<Rightarrow> (\<exists>e \<in> {Accept_failed, Shutdown_seen, Dropped}. e \<in> set es)
        \<and> (\<forall>e s'. serve s e s' \<longrightarrow> sv_loop s' = Stopped \<and> e \<in> {Shutdown_sent, Dropped})"
  using server_invariant[OF assms refl] server_stopped serve.shutdown_seen
  by (fastforce split: accept_loop.splits)

lemma server_lifecycle_witness:
  "serves server_start [Accepted, Accepted, Ended 0, Shutdown_sent]
      \<lparr>sv_loop = Accepting [False, True], sv_shutdown = True\<rparr>
   \<and> serve \<lparr>sv_loop = Accepting [False, True], sv_shutdown = True\<rparr> Shutdown_seen \<lparr>sv_loop = Stopped, sv_shutdown = True\<rparr>"
proof -
  let ?s = "\<lambda>cs b. \<lparr>sv_loop = Accepting cs, sv_shutdown = b\<rparr>"
  have "serves server_start [] (?s [] False)" using serves_Nil[of server_start] by (simp add: server_start_def)
  from serves_snoc[OF this accepted[of _ "[]"]] have "serves server_start [Accepted] (?s [True] False)" by simp
  from serves_snoc[OF this accepted[of _ "[True]"]]
  have "serves server_start [Accepted, Accepted] (?s [True, True] False)" by simp
  from serves_snoc[OF this ended[of _ "[True, True]" 0]]
  have "serves server_start [Accepted, Accepted, Ended 0] (?s [False, True] False)" by simp
  from serves_snoc[OF this shutdown_sent]
  have run: "serves server_start [Accepted, Accepted, Ended 0, Shutdown_sent] (?s [False, True] True)" by simp
  from server_lifecycle[OF run] run show ?thesis by simp
qed

subsection \<open>Requests of a configured service\<close>

definition demo_environment :: settings where
  "demo_environment = [(''REPOSITORY'', ''acme/demo''), (''TOKEN_PASSWORD'', ''p''), (''TOKEN_USERNAME'', ''u'')]"

definition demo_config :: config where
  "demo_config = \<lparr>cf_listen = ''127.0.0.1:8080'',
     cf_upstream = \<lparr>uo_scheme = Https, uo_host = ''ghcr.io'', uo_port = None\<rparr>,
     cf_repository = ValidatedRepository ''acme/demo'', cf_allowed_hosts = [''ghcr.io''],
     cf_connect_timeout = 5000, cf_request_timeout = 60000,
     cf_inbound_limits = inbound_limits_default,
     cf_enabled_protocols = enabled_none, cf_log_level = Info,
     cf_allow_insecure_loopback = False,
     cf_token_credentials = Some \<lparr>tc_username = ''u'', tc_password = ''p''\<rparr>\<rparr>"

lemma demo_lookup:
  "lookup [] demo_environment key =
     map_of [(''REPOSITORY'', ''acme/demo''), (''TOKEN_PASSWORD'', ''p''), (''TOKEN_USERNAME'', ''u'')] key"
  by (simp add: lookup_def demo_environment_def bt_get_def)

lemma demo_parts:
  "reject_unknown_environment_keys demo_environment = Ok ()"
  "validated_repository_parse ''acme/demo'' = Ok (ValidatedRepository ''acme/demo'')"
  "parse_allowed_hosts DEFAULT_ALLOWED_HOSTS \<lparr>uo_scheme = Https, uo_host = ''ghcr.io'', uo_port = None\<rparr> = Ok [''ghcr.io'']"
  "parse_protocols DEFAULT_FRONTENDS = Ok enabled_none"
  "token_credentials_new ''u'' ''p'' = Some \<lparr>tc_username = ''u'', tc_password = ''p''\<rparr>"
  by code_simp+

lemma demo_origin: "origin_str \<lparr>uo_scheme = Https, uo_host = ''ghcr.io'', uo_port = None\<rparr> = ''https://ghcr.io''"
  by code_simp

lemma demo_config: "from_maps [] demo_environment = Ok demo_config"
  by (simp add: from_maps_def demo_lookup demo_parts parse_bool_def default_upstream
     default_listen[unfolded DEFAULT_LISTEN_def] sample_numbers sample_numbers[simplified] log_level_parse_def
     parse_token_credentials_def Let_def demo_config_def DEFAULT_LISTEN_def inbound_limits_default_def)

text \<open>C6. A service started from a configuration that loads sends nothing outside its upstream: whatever the
  client asks and whatever is answered, every request goes to a path under the configured origin (the
  token requests too), and that origin is a valid one whose host is on the allow list.\<close>

theorem service_confined:
  assumes "from_maps file_values environment = Ok c"
    and "advance (serve_request lib c request body) tr q" and "Sent r x \<in> set tr"
  shows "under (origin_str (cf_upstream c)) (out_uri r)
    \<and> valid_origin (cf_allow_insecure_loopback c) (cf_upstream c)
    \<and> lowercase (uo_host (cf_upstream c)) \<in> set (cf_allowed_hosts c)"
  using served_under[OF assms(2,3)] loaded_origin[OF assms(1)] by simp

theorem service_confined_witness:
  "under ''https://ghcr.io'' ''https://ghcr.io/token?service=ghcr.io&scope=repository:acme/demo:pull''"
proof -
  have client: "client_new demo_config = sample_client"
    by (simp add: client_new_def demo_config_def sample_client_def demo_origin)
  have run: "advance (serve_request sample_lib demo_config (sample_get ''/v2/acme/demo/manifests/v1'') [])
      sample_trace (Return x)" if "exec (handle_gateway sample_lib sample_client (sample_get ''/v2/acme/demo/manifests/v1'') []
      ''acme/demo'' inbound_limits_default) sample_trace x" for x
    unfolding serve_request_def dispatch_def client using that
    by (simp add: sample_get_def demo_config_def)
  show ?thesis
    using service_confined[OF demo_config run[OF sample_run],
        of "read_request ''GET'' ''https://ghcr.io/token?service=ghcr.io&scope=repository:acme/demo:pull''
          ''application/json'' (Some ''Basic abc'')" "Answered (answer 200 [] ''{}'')"]
    by (simp add: sample_trace_def demo_config_def demo_origin read_request_def)
qed

lemma decimal_three: "decimal_string 3 = ''3''"
  by code_simp

text \<open>The health endpoints answer locally: a GET or HEAD of \<open>/healthz\<close> or \<open>/readyz\<close> is answered with status 200,
  the length of the text \<open>ok\<close> and, for GET, the text, whatever the handler is, with no contact with the
  upstream and never to be stored; every other request goes to the handler.\<close>

lemma health_checks_local:
  "dispatch handler request =
     (if req_path request \<in> {''/healthz'', ''/readyz''} \<and> req_method request \<in> {''GET'', ''HEAD''}
      then Return (Some \<lparr>rp_status = 200,
        rp_headers = [(''cache-control'', ''no-store''), (''content-type'', ''text/plain; charset=utf-8''),
          (''content-length'', ''3''), (''x-content-type-options'', ''nosniff'')],
        rp_body = Fixed (if req_method request = ''GET'' then ''ok'' @ [CHR 0x0A] else [])\<rparr>)
      else handler request)"
  by (auto simp: dispatch_def health_response_Some decimal_three)

subsection \<open>The links of a listing\<close>

text \<open>The names the service answers itself: the health endpoints, and all that is below the distribution
  interface.\<close>

definition reserved_path :: "string \<Rightarrow> bool" where
  "reserved_path path \<longleftrightarrow> starts_with path ''v2/'' \<or> path \<in> {''healthz'', ''readyz''}"

text \<open>The request that follows the link of an entry.\<close>

definition follows :: "request \<Rightarrow> directory_entry \<Rightarrow> bool" where
  "follows request v \<longleftrightarrow> req_path request = ''/'' @ entry_path v \<and> req_path_and_query request = Some (''/'' @ entry_path v)"

lemma follows_dispatch:
  assumes "follows request v" "\<not> reserved_path (entry_path v)" "parse_request_path (''/'' @ entry_path v) = Ok (entry_path v)"
    and valid: "is_ok (validate_autoindex_request request (cf_inbound_limits c))"
    and v: "inbound_authorization request = Ok authorization"
  shows "serve_request lib c request body =
    or_oci_error (autoindex_snapshot_io lib (client_new c) (repo_str (cf_repository c)) authorization) True (\<lambda>snapshot.
      serve_path lib (client_new c) request (repo_str (cf_repository c)) authorization
        (authorization \<noteq> None \<or> has_token_broker (client_new c)) (entry_path v) (as_index snapshot))"
proof -
  have path: "req_path request = SLASH # entry_path v" "req_path_and_query request = Some (SLASH # entry_path v)"
    using assms(1) by (simp_all add: follows_def)
  have target: "validate_autoindex_request request (cf_inbound_limits c) = Ok (SLASH # entry_path v)"
    using valid path(2) by (auto simp: validate_autoindex_request_def is_ok_iff split: if_splits)
  have handler: "serve_request lib c request body = handle_autoindex lib (client_new c) request (repo_str (cf_repository c)) (cf_inbound_limits c)"
    using assms(2) path(1) by (auto simp: serve_request_def dispatch_def handle_gateway_def reserved_path_def)
  show ?thesis unfolding handler handle_autoindex_def target sum.case v using assms(3) by simp
qed

lemma serve_path_file:
  assumes "index_object idx path = Some object"
  shows "serve_path lib c request repository authorization authenticated path idx =
    or_oci_error (blob lib c repository (descriptor_new (vo_media_type object) (vo_digest object) (vo_size object)) authorization) False
      (\<lambda>body. Return (representation (req_method request) authenticated (header_get (req_headers request) ''if-none-match'')
         (descriptor_new (vo_media_type object) (vo_digest object) (vo_size object)) body))"
  using assms by (simp add: serve_path_def Let_def)

lemma serve_path_directory:
  assumes "index_wf idx" "children idx p = Ok es" "ends_with p ''/''"
  shows "\<exists>x html. serve_path lib c request repository authorization authenticated p idx = Return (Some x)
    \<and> render_directory_html p es = Ok html \<and> rp_status x = 200
    \<and> rp_body x = Fixed (if req_method request = ''HEAD'' then [] else html)"
proof -
  have none: "index_object idx p = None"
  proof (rule ccontr)
    assume "index_object idx p \<noteq> None"
    then obtain obj where "bt_get (objects idx) (RelativePath p) = Some obj" by (auto simp: index_object_def)
    then have "file_path (RelativePath p)" using index_wf_get[OF assms(1)] by blast
    with assms(3) show False by (simp add: file_path_def is_directory_def)
  qed
  obtain html where html: "render_directory_html p es = Ok html"
  proof (cases "p = []")
    case True
    then show thesis using that by (simp add: render_directory_html_def)
  next
    case False
    then obtain path where "relative_path_parse p = Ok path" "is_directory path"
      using assms(2) by (cases "relative_path_parse p") (auto simp: children_def split: if_splits)
    then show thesis using that False by (simp add: render_directory_html_def)
  qed
  have built: "\<exists>x. build_reply status hs body = Some x \<and> rp_status x = status \<and> rp_body x = body"
    if "list_all field_ok hs" for status hs body using build_reply_Some[OF that] by blast
  have "serve_path lib c request repository authorization authenticated p idx = Return (directory_reply authenticated (req_method request) p es)"
    using none assms(2,3) by (simp add: serve_path_def)
  moreover have "\<exists>x. directory_reply authenticated (req_method request) p es = Some x \<and> rp_status x = 200
      \<and> rp_body x = Fixed (if req_method request = ''HEAD'' then [] else html)"
    unfolding directory_reply_def html sum.case by (rule built) (simp_all add: printable_Cons)
  ultimately show ?thesis using html by auto
qed

text \<open>C25. No dead links. The link of an entry of a listing, unless it is one of the names that the service
  answers itself (\<open>healthz\<close>, \<open>readyz\<close> and everything below \<open>v2/\<close>, which can be listed but not reached),
  is answered from the index at the entry's own path: a GET or HEAD that passes the checks of headers
  and size is dispatched by the service to the lookup of that path. In the index the entry was listed
  from, the lookup of a file reads the blob the index names for it, and the lookup of a directory is
  answered with status 200 and a listing that is not empty.\<close>

theorem listing_links_resolve:
  assumes "index_wf idx" "children idx d = Ok es" "v \<in> set es" and "\<not> reserved_path (entry_path v)"
    and "follows request v" "is_ok (validate_autoindex_request request (cf_inbound_limits c))"
    and "inbound_authorization request = Ok authorization"
    and defs: "repository = repo_str (cf_repository c)" "authenticated \<longleftrightarrow> authorization \<noteq> None \<or> has_token_broker (client_new c)"
  shows "serve_request lib c request body =
      or_oci_error (autoindex_snapshot_io lib (client_new c) repository authorization) True (\<lambda>snapshot.
        serve_path lib (client_new c) request repository authorization authenticated (entry_path v) (as_index snapshot))
    \<and> (case v of
         File obj \<Rightarrow> (let descriptor = descriptor_new (vo_media_type obj) (vo_digest obj) (vo_size obj) in
           serve_path lib (client_new c) request repository authorization authenticated (entry_path v) idx =
             or_oci_error (blob lib (client_new c) repository descriptor authorization) False (\<lambda>body.
               Return (representation (req_method request) authenticated
                 (header_get (req_headers request) ''if-none-match'') descriptor body)))
       | Directory p \<Rightarrow> \<exists>e es' html x. children idx p = Ok (e # es') \<and> render_directory_html p (e # es') = Ok html
           \<and> serve_path lib (client_new c) request repository authorization authenticated (entry_path v) idx = Return (Some x)
           \<and> rp_status x = 200 \<and> rp_body x = Fixed (if req_method request = ''HEAD'' then [] else html))"
proof -
  note found = listing_entry_found[OF assms(1-3)]
  note first = follows_dispatch[OF assms(5,4) conjunct1[OF found] assms(6,7), folded defs]
  show ?thesis
  proof (cases v)
    case (File obj)
    then have "index_object idx (entry_path v) = Some obj" using found by simp
    with first File serve_path_file show ?thesis by (simp add: Let_def)
  next
    case (Directory p)
    then obtain e es' where es': "children idx p = Ok (e # es')" "ends_with p ''/''" "entry_path v = p"
      using found by (auto simp: entry_path_def)
    from first serve_path_directory[OF assms(1) es'(1,2)] es'(1) show ?thesis
      unfolding Directory directory_entry.case es'(3)[unfolded Directory] by blast
  qed
qed

theorem listing_links_resolve_witness:
  "\<exists>x. serve_path sample_lib (client_new demo_config) (sample_get ''/pypi/'') ''acme/demo'' None True ''pypi/'' example_index = Return (Some x)
     \<and> rp_status x = 200"
proof -
  have es: "children example_index [] = Ok [File (example_object ''README.txt''), Directory ''pypi/'']"
    by code_simp
  have v: "Directory ''pypi/'' \<in> set [File (example_object ''README.txt''), Directory ''pypi/'']" by simp
  have free: "\<not> reserved_path (entry_path (Directory ''pypi/''))" by (simp add: reserved_path_def entry_path_def)
  have follows: "follows (sample_get ''/pypi/'') (Directory ''pypi/'')" by (simp add: follows_def sample_get_def entry_path_def)
  have valid: "is_ok (validate_autoindex_request (sample_get ''/pypi/'') (cf_inbound_limits demo_config))"
    by (simp add: validate_autoindex_request_def validate_headers_def inbound_eval sample_get_def demo_config_def inbound_limits_default_def)
  have authorization: "inbound_authorization (sample_get ''/pypi/'') = Ok None"
    by (simp add: inbound_authorization_def sample_get_def header_get_all_def)
  have repository: "''acme/demo'' = repo_str (cf_repository demo_config)" by (simp add: demo_config_def)
  have broker: "True \<longleftrightarrow> None \<noteq> (None :: string option) \<or> has_token_broker (client_new demo_config)"
    by (simp add: has_token_broker_def client_new_def demo_config_def)
  from listing_links_resolve[OF example_index_wf es v free follows valid authorization repository broker, of sample_lib "[]"]
  show ?thesis by (auto simp: entry_path_def)
qed

end
