(* ===== verification/File_Tree.thy ===== *)
theory File_Tree
  imports Ordered_Map "HOL-Library.Product_Lexorder"
begin

text \<open>
  The file system as the publisher and the file commands see it: paths and their components
  (\<open>std::path\<close> on Unix) and trees of files. A file has the length its metadata states and the bytes
  that reading it yields (\<open>None\<close>: it cannot be read); a directory has its entries in the order of
  \<open>read_dir\<close> and a bit that says whether it can be listed.
\<close>

subsection \<open>Paths\<close>

datatype path_component = RootDir | CurDir | ParentDir | Normal string

definition is_absolute :: "string \<Rightarrow> bool" where
  "is_absolute p \<longleftrightarrow> starts_with p [SLASH]"

definition path_components :: "string \<Rightarrow> path_component list" where
  "path_components p =
     (let segments = split_on SLASH p in
      (if is_absolute p then [RootDir] else if hd segments = ''.'' then [CurDir] else [])
      @ map (\<lambda>s. if s = ''..'' then ParentDir else Normal s) (filter (\<lambda>s. s \<noteq> [] \<and> s \<noteq> ''.'') segments))"

text \<open>Paths are ordered by their components, and those in the order of the enumeration.\<close>

fun component_rank :: "path_component \<Rightarrow> nat \<times> string" where
  "component_rank RootDir = (1, [])"
| "component_rank CurDir = (2, [])"
| "component_rank ParentDir = (3, [])"
| "component_rank (Normal s) = (4, s)"

instantiation path_component :: linorder
begin

definition less_eq_path_component :: "path_component \<Rightarrow> path_component \<Rightarrow> bool" where
  "c \<le> d \<longleftrightarrow> component_rank c \<le> component_rank d"

definition less_path_component :: "path_component \<Rightarrow> path_component \<Rightarrow> bool" where
  "c < d \<longleftrightarrow> component_rank c < component_rank d"

instance
proof
  fix c d e :: path_component
  have inj: "component_rank c = component_rank d \<Longrightarrow> c = d"
    by (cases c; cases d) simp_all
  show "c \<le> d \<Longrightarrow> d \<le> c \<Longrightarrow> c = d"
    unfolding less_eq_path_component_def by (intro inj) (rule order_antisym)
  show "c \<le> d \<Longrightarrow> d \<le> e \<Longrightarrow> c \<le> e"
    unfolding less_eq_path_component_def by (rule order_trans)
  show "c \<le> c" "c \<le> d \<or> d \<le> c"
    unfolding less_eq_path_component_def by (rule order_refl, rule linear)
  show "c < d \<longleftrightarrow> c \<le> d \<and> \<not> d \<le> c"
    unfolding less_eq_path_component_def less_path_component_def by (rule less_le_not_le)
qed

end

text \<open>A name in a directory.\<close>

definition file_name_ok :: "string \<Rightarrow> bool" where
  "file_name_ok n \<longleftrightarrow> n \<noteq> [] \<and> SLASH \<notin> set n \<and> n \<noteq> ''.'' \<and> n \<noteq> ''..''"

lemma path_components_join:
  assumes "list_all file_name_ok ns"
  shows "path_components (join_with SLASH ns) = map Normal ns"
proof (cases ns)
  case Nil
  then show ?thesis by (simp add: path_components_def is_absolute_def)
next
  case (Cons n ms)
  have n: "n \<noteq> []" "SLASH \<notin> set n" "n \<noteq> ''.''" using assms Cons by (simp_all add: file_name_ok_def)
  have segments: "split_on SLASH (join_with SLASH ns) = ns"
    using assms by (intro split_on_join) (auto simp: Cons list_all_iff file_name_ok_def)
  have "prefix n (join_with SLASH ns)"
    using prefix_hd_join[of ns SLASH] Cons by simp
  then have "\<not> is_absolute (join_with SLASH ns)"
    using n by (cases n) (auto simp: is_absolute_def prefix_def)
  moreover have "filter (\<lambda>s. s \<noteq> [] \<and> s \<noteq> ''.'') ns = ns"
    using assms by (auto simp: list_all_iff file_name_ok_def intro!: filter_True)
  moreover have "map (\<lambda>s. if s = ''..'' then ParentDir else Normal s) ns = map Normal ns"
    using assms by (auto simp: list_all_iff file_name_ok_def)
  ultimately show ?thesis
    using n by (simp add: path_components_def segments Let_def) (simp add: Cons)
qed

subsection \<open>Trees\<close>

datatype node =
    FileNode nat "string option"
  | DirNode bool "(string \<times> node) list"
  | SymlinkNode
  | OtherNode

fun find_node :: "node \<Rightarrow> string list \<Rightarrow> node option" where
  "find_node n [] = Some n"
| "find_node (DirNode listable entries) (name # names) =
     (case map_of entries name of Some n \<Rightarrow> find_node n names | None \<Rightarrow> None)"
| "find_node _ (name # names) = None"

fun is_directory_node :: "node \<Rightarrow> bool" where
  "is_directory_node (DirNode _ _) = True"
| "is_directory_node _ = False"

text \<open>A regular file has nothing below it.\<close>

lemma find_node_append:
  "find_node n (p @ q) = (case find_node n p of Some m \<Rightarrow> find_node m q | None \<Rightarrow> None)"
  by (induction n p rule: find_node.induct) (auto split: option.splits)

lemma find_file_leaf: "find_node n p = Some (FileNode l b) \<Longrightarrow> q \<noteq> [] \<Longrightarrow> find_node n (p @ q) = None"
  by (cases q) (simp_all add: find_node_append)

fun wf_node :: "node \<Rightarrow> bool" where
  "wf_node (DirNode _ entries) \<longleftrightarrow>
     distinct (map fst entries) \<and> list_all (\<lambda>(name, n). file_name_ok name \<and> wf_node n) entries"
| "wf_node _ \<longleftrightarrow> True"

text \<open>Writing: a missing parent, or a directory in the way, is an error.\<close>

fun entry_update :: "string \<Rightarrow> node \<Rightarrow> (string \<times> node) list \<Rightarrow> (string \<times> node) list" where
  "entry_update name n [] = [(name, n)]"
| "entry_update name n ((m, o') # es) = (if m = name then (m, n) # es else (m, o') # entry_update name n es)"

fun write_node :: "node \<Rightarrow> string list \<Rightarrow> string \<Rightarrow> node option" where
  "write_node (FileNode _ _) [] bytes = Some (FileNode (length bytes) (Some bytes))"
| "write_node (DirNode listable entries) [name] bytes =
     (case map_of entries name of
        None \<Rightarrow> Some (DirNode listable (entry_update name (FileNode (length bytes) (Some bytes)) entries))
      | Some n \<Rightarrow> map_option (\<lambda>n. DirNode listable (entry_update name n entries)) (write_node n [] bytes))"
| "write_node (DirNode listable entries) (name # names) bytes =
     (case map_of entries name of
        None \<Rightarrow> None
      | Some n \<Rightarrow> map_option (\<lambda>n. DirNode listable (entry_update name n entries)) (write_node n names bytes))"
| "write_node _ _ bytes = None"

fun create_dir_all :: "node \<Rightarrow> string list \<Rightarrow> node option" where
  "create_dir_all (DirNode listable entries) [] = Some (DirNode listable entries)"
| "create_dir_all (DirNode listable entries) (name # names) =
     map_option (\<lambda>n. DirNode listable (entry_update name n entries))
       (create_dir_all (case map_of entries name of Some n \<Rightarrow> n | None \<Rightarrow> DirNode True []) names)"
| "create_dir_all _ _ = None"

fun remove_file :: "node \<Rightarrow> string list \<Rightarrow> node option" where
  "remove_file (DirNode listable entries) [name] =
     (case map_of entries name of
        Some (DirNode _ _) \<Rightarrow> None
      | Some _ \<Rightarrow> Some (DirNode listable (filter (\<lambda>(m, _). m \<noteq> name) entries))
      | None \<Rightarrow> None)"
| "remove_file (DirNode listable entries) (name # names) =
     (case map_of entries name of
        None \<Rightarrow> None
      | Some n \<Rightarrow> map_option (\<lambda>n. DirNode listable (entry_update name n entries)) (remove_file n names))"
| "remove_file _ _ = None"

lemma map_of_entry_update: "map_of (entry_update name n es) = (map_of es)(name \<mapsto> n)"
  by (induction name n es rule: entry_update.induct) auto

subsection \<open>A tree as a map from paths to contents\<close>

definition file_bytes :: "node \<Rightarrow> string list \<Rightarrow> string option" where
  "file_bytes n p = (case find_node n p of Some (FileNode l c) \<Rightarrow> c | _ \<Rightarrow> None)"

lemma file_bytes_simps [simp]:
  "file_bytes (FileNode l c) [] = c" "file_bytes (FileNode l c) (x # p) = None"
  "file_bytes (DirNode b es) [] = None"
  "file_bytes (DirNode b es) (x # p) = (case map_of es x of Some n \<Rightarrow> file_bytes n p | None \<Rightarrow> None)"
  "file_bytes SymlinkNode p = None" "file_bytes OtherNode p = None"
  by (cases p; auto simp: file_bytes_def split: option.splits)+

lemma write_node_bytes: "write_node n p b = Some n' \<Longrightarrow> file_bytes n' = (file_bytes n)(p \<mapsto> b)"
proof (induction n p b arbitrary: n' rule: write_node.induct)
  case (1 l c bytes)
  show ?case
  proof
    fix q show "file_bytes n' q = ((file_bytes (FileNode l c))([] \<mapsto> bytes)) q" using 1 by (cases q) auto
  qed
next
  case (2 listable es name bytes)
  show ?case
  proof
    fix q
    show "file_bytes n' q = ((file_bytes (DirNode listable es))([name] \<mapsto> bytes)) q"
    proof (cases "map_of es name")
      case None
      have "file_bytes (FileNode l (Some bytes)) r = (if r = [] then Some bytes else None)" for l r by (cases r) simp_all
      with None 2 show ?thesis by (cases q) (auto simp: map_of_entry_update)
    next
      case (Some n)
      then obtain m where "write_node n [] bytes = Some m" "n' = DirNode listable (entry_update name m es)"
        using "2.prems" by auto
      with Some "2.IH"[OF Some] show ?thesis by (cases q) (auto simp: map_of_entry_update)
    qed
  qed
next
  case (3 listable es name v va bytes)
  then obtain n m where n: "map_of es name = Some n" "write_node n (v # va) bytes = Some m"
    "n' = DirNode listable (entry_update name m es)" by (auto split: option.splits)
  show ?case
  proof
    fix q
    show "file_bytes n' q = ((file_bytes (DirNode listable es))(name # v # va \<mapsto> bytes)) q"
      using n "3.IH"[OF n(1,2)] by (cases q) (auto simp: map_of_entry_update)
  qed
qed simp_all

lemma file_bytes_empty: "file_bytes (DirNode b []) = Map.empty"
  by (rule ext, case_tac x) simp_all

lemma create_dir_all_bytes: "create_dir_all n p = Some n' \<Longrightarrow> file_bytes n' = file_bytes n"
proof (induction n p arbitrary: n' rule: create_dir_all.induct)
  case (2 listable es name names)
  let ?n = "case map_of es name of Some n \<Rightarrow> n | None \<Rightarrow> DirNode True []"
  obtain m where m: "create_dir_all ?n names = Some m" "n' = DirNode listable (entry_update name m es)"
    using "2.prems" by auto
  show ?case
  proof
    fix q
    show "file_bytes n' q = file_bytes (DirNode listable es) q"
      using m(2) "2.IH"[OF m(1)] by (cases q) (auto simp: map_of_entry_update file_bytes_empty split: option.splits)
  qed
qed simp_all

lemma map_of_filter_key: "map_of (filter (\<lambda>(m, _). m \<noteq> k) es) = (map_of es)(k := None)"
  by (induction es) auto

lemma remove_file_bytes: "remove_file n p = Some n' \<Longrightarrow> file_bytes n' = (file_bytes n)(p := None)"
proof (induction n p arbitrary: n' rule: remove_file.induct)
  case (1 listable es name)
  then obtain m where m: "map_of es name = Some m" "\<not> is_directory_node m" "n' = DirNode listable (filter (\<lambda>(m, _). m \<noteq> name) es)"
    by (auto split: option.splits node.splits)
  have leaf: "r \<noteq> [] \<Longrightarrow> file_bytes m r = None" for r using m(2) by (cases m; cases r) simp_all
  show ?case
  proof
    fix q
    show "file_bytes n' q = ((file_bytes (DirNode listable es))([name] := None)) q"
      using m leaf by (cases q) (auto simp: map_of_filter_key)
  qed
next
  case (2 listable es name v va)
  then obtain n m where n: "map_of es name = Some n" "remove_file n (v # va) = Some m"
    "n' = DirNode listable (entry_update name m es)" by (auto split: option.splits)
  show ?case
  proof
    fix q
    show "file_bytes n' q = ((file_bytes (DirNode listable es))(name # v # va := None)) q"
      using n "2.IH"[OF n(1,2)] by (cases q) (auto simp: map_of_entry_update)
  qed
qed simp_all

text \<open>Trees the program builds: listable directories with proper names, and readable files.\<close>

fun built :: "node \<Rightarrow> bool" where
  "built (FileNode l c) \<longleftrightarrow> (case c of Some b \<Rightarrow> l = length b | None \<Rightarrow> False)"
| "built (DirNode listable es) \<longleftrightarrow> listable \<and> distinct (map fst es) \<and> list_all (\<lambda>(name, n). file_name_ok name \<and> built n) es"
| "built _ \<longleftrightarrow> False"

lemma built_wf: "built n \<Longrightarrow> wf_node n"
  by (induction n rule: built.induct) (auto simp: list_all_iff split: option.splits)

lemma built_entry:
  "built (DirNode b es) \<Longrightarrow> map_of es name = Some n \<Longrightarrow> file_name_ok name \<and> built n"
  by (auto simp: list_all_iff dest!: map_of_SomeD)

lemma built_find: "built n \<Longrightarrow> find_node n p = Some m \<Longrightarrow> built m"
proof (induction n p rule: find_node.induct)
  case (2 listable es name names)
  then obtain n where n: "map_of es name = Some n" "find_node n names = Some m" by (auto split: option.splits)
  have "built n" using built_entry[OF "2.prems"(1) n(1)] by simp
  then show ?case by (rule "2.IH"[OF n(1) _ n(2)])
qed simp_all

lemma file_bytes_built:
  "built n \<Longrightarrow> file_bytes n p = Some b \<longleftrightarrow> find_node n p = Some (FileNode (length b) (Some b))"
proof
  assume n: "built n" and "file_bytes n p = Some b"
  then obtain l where l: "find_node n p = Some (FileNode l (Some b))"
    by (cases "find_node n p" rule: option.exhaust; cases "the (find_node n p)") (simp_all add: file_bytes_def)
  with built_find[OF n l] show "find_node n p = Some (FileNode (length b) (Some b))" by simp
qed (simp add: file_bytes_def)

lemma set_entry_update: "set (entry_update name n es) \<subseteq> insert (name, n) (set es)"
  by (induction name n es rule: entry_update.induct) auto

lemma fst_entry_update: "fst ` set (entry_update name n es) = insert name (fst ` set es)"
  by (induction name n es rule: entry_update.induct) auto

lemma distinct_entry_update: "distinct (map fst es) \<Longrightarrow> distinct (map fst (entry_update name n es))"
  by (induction name n es rule: entry_update.induct) (auto simp: fst_entry_update[folded set_map] simp del: set_map)

lemma built_update:
  "built (DirNode b es) \<Longrightarrow> file_name_ok name \<Longrightarrow> built n \<Longrightarrow> built (DirNode b (entry_update name n es))"
  using set_entry_update[of name n es] distinct_entry_update[of es name n] by (auto simp: list_all_iff)

lemma built_write_node:
  "built n \<Longrightarrow> list_all file_name_ok p \<Longrightarrow> write_node n p b = Some n' \<Longrightarrow> built n'"
proof (induction n p b arbitrary: n' rule: write_node.induct)
  case (2 listable es name bytes)
  show ?case
  proof (cases "map_of es name")
    case None
    then have "n' = DirNode listable (entry_update name (FileNode (length bytes) (Some bytes)) es)" "file_name_ok name"
      using "2.prems" by simp_all
    then show ?thesis using built_update[OF "2.prems"(1), of name "FileNode (length bytes) (Some bytes)"]
      by (simp del: built.simps(2))
  next
    case (Some n)
    then obtain m where "write_node n [] bytes = Some m" "n' = DirNode listable (entry_update name m es)"
      using "2.prems" by auto
    moreover from this have "built m" using Some "2.IH"[OF Some] built_entry[OF "2.prems"(1) Some] by simp
    moreover have "file_name_ok name" using "2.prems"(2) by simp
    ultimately show ?thesis using built_update[OF "2.prems"(1)] by (simp del: built.simps(2))
  qed
next
  case (3 listable es name v va bytes)
  then obtain n m where n: "map_of es name = Some n" "write_node n (v # va) bytes = Some m"
    "n' = DirNode listable (entry_update name m es)" by (auto split: option.splits)
  have "built n" using built_entry[OF "3.prems"(1) n(1)] by simp
  moreover have "list_all file_name_ok (v # va)" "file_name_ok name" using "3.prems"(2) by simp_all
  ultimately show ?case unfolding n(3) using "3.IH"[OF n(1) _ _ n(2)] built_update[OF "3.prems"(1)] by blast
qed auto

lemma built_create_dir_all:
  "built n \<Longrightarrow> list_all file_name_ok p \<Longrightarrow> create_dir_all n p = Some n' \<Longrightarrow> built n'"
proof (induction n p arbitrary: n' rule: create_dir_all.induct)
  case (2 listable es name names)
  let ?n = "case map_of es name of Some n \<Rightarrow> n | None \<Rightarrow> DirNode True []"
  obtain m where m: "create_dir_all ?n names = Some m" "n' = DirNode listable (entry_update name m es)"
    using "2.prems" by auto
  have "built ?n" using built_entry[OF "2.prems"(1)] by (auto split: option.splits)
  moreover have "list_all file_name_ok names" "file_name_ok name" using "2.prems"(2) by simp_all
  ultimately show ?case unfolding m(2) using "2.IH"[OF _ _ m(1)] built_update[OF "2.prems"(1)] by blast
qed auto

lemma built_remove_file: "built n \<Longrightarrow> remove_file n p = Some n' \<Longrightarrow> built n'"
proof (induction n p arbitrary: n' rule: remove_file.induct)
  case (1 listable es name)
  then show ?case
    by (auto simp: list_all_iff distinct_map_filter split: option.splits node.splits)
next
  case (2 listable es name v va)
  then obtain n m where n: "map_of es name = Some n" "remove_file n (v # va) = Some m"
    "n' = DirNode listable (entry_update name m es)" by (auto split: option.splits)
  have "file_name_ok name" "built n" using built_entry[OF "2.prems"(1) n(1)] by simp_all
  then show ?case unfolding n(3) using "2.IH"[OF n(1) _ n(2)] built_update[OF "2.prems"(1)] by blast
qed auto

subsection \<open>The store the program works on\<close>

text \<open>A store of files, seen as a map from paths to contents, with the operations of \<open>std::fs\<close> that change
  it. Its clients write files below directories they make first.\<close>

locale file_store =
  fixes contents :: "'s \<Rightarrow> string list \<Rightarrow> string option"
    and put :: "'s \<Rightarrow> string list \<Rightarrow> string \<Rightarrow> 's option"
    and make_dirs :: "'s \<Rightarrow> string list \<Rightarrow> 's option"
    and delete :: "'s \<Rightarrow> string list \<Rightarrow> 's option"
    and inv :: "'s \<Rightarrow> bool"
  assumes put_contents: "put s p b = Some s' \<Longrightarrow> contents s' = (contents s)(p \<mapsto> b)"
    and make_dirs_contents: "make_dirs s p = Some s' \<Longrightarrow> contents s' = contents s"
    and delete_contents: "delete s p = Some s' \<Longrightarrow> contents s' = (contents s)(p := None)"
    and put_inv: "inv s \<Longrightarrow> list_all file_name_ok p \<Longrightarrow> put s p b = Some s' \<Longrightarrow> inv s'"
    and make_dirs_inv: "inv s \<Longrightarrow> list_all file_name_ok p \<Longrightarrow> make_dirs s p = Some s' \<Longrightarrow> inv s'"
    and delete_inv: "inv s \<Longrightarrow> delete s p = Some s' \<Longrightarrow> inv s'"
begin

text \<open>A file below the directories that lead to it.\<close>

definition put_below :: "'s \<Rightarrow> string list \<Rightarrow> string \<Rightarrow> 's option" where
  "put_below s p b = Option.bind (make_dirs s (butlast p)) (\<lambda>s. put s p b)"

lemma put_below_contents: "put_below s p b = Some s' \<Longrightarrow> contents s' = (contents s)(p \<mapsto> b)"
  by (auto simp: put_below_def bind_eq_Some_conv put_contents make_dirs_contents)

lemma put_below_inv:
  assumes "inv s" "list_all file_name_ok p" "put_below s p b = Some s'"
  shows "inv s'"
proof -
  obtain t where "make_dirs s (butlast p) = Some t" "put t p b = Some s'"
    using assms(3) by (auto simp: put_below_def bind_eq_Some_conv)
  moreover have "list_all file_name_ok (butlast p)"
    using assms(2) by (auto simp: list_all_iff dest: in_set_butlastD)
  ultimately show ?thesis using assms(1,2) make_dirs_inv put_inv by blast
qed

fun delete_all :: "'s \<Rightarrow> string list list \<Rightarrow> 's option" where
  "delete_all s [] = Some s"
| "delete_all s (p # ps) = Option.bind (delete s p) (\<lambda>s. delete_all s ps)"

lemma delete_all_contents:
  "delete_all s ps = Some s' \<Longrightarrow> contents s' = (contents s) |` (- set ps)"
proof (induction ps arbitrary: s)
  case (Cons p ps)
  then obtain t where "delete s p = Some t" "delete_all t ps = Some s'" by (auto simp: bind_eq_Some_conv)
  with Cons.IH[of t] delete_contents[of s p t] show ?case by (auto simp: restrict_map_def fun_eq_iff)
qed (simp add: restrict_map_def)

lemma delete_all_inv: "inv s \<Longrightarrow> delete_all s ps = Some s' \<Longrightarrow> inv s'"
  by (induction ps arbitrary: s) (auto simp: bind_eq_Some_conv dest: delete_inv)

end

interpretation tree: file_store file_bytes write_node create_dir_all remove_file built
  by unfold_locales (blast intro: write_node_bytes create_dir_all_bytes remove_file_bytes built_write_node
      built_create_dir_all built_remove_file)+

end
