(* ===== verification/Publisher.thy ===== *)
theory Publisher
  imports File_Tree Oci "HOL-Library.Option_ord"
begin

text \<open>
  \<open>src/publisher.rs\<close>: an OCI image layout from a tree of files. The root is the node it names
  (\<open>None\<close>: no such file); the writer of JSON values and SHA-256 are the record \<open>publisher_lib\<close>. Writing a
  layout changes the destination, a node or \<open>None\<close>; every file operation takes the next of a list
  of bits, which says whether it fails.
\<close>

subsection \<open>Constants and data\<close>

definition EMPTY_CONFIG :: string where "EMPTY_CONFIG = ''{}''"
definition OCI_LAYOUT_VERSION :: string where "OCI_LAYOUT_VERSION = ''1.0.0''"
definition MAX_PUBLICATION_BYTES :: nat where "MAX_PUBLICATION_BYTES = 64 * 1024 * 1024"
definition MAX_PUBLICATION_FILES :: nat where "MAX_PUBLICATION_FILES = 10000"
definition REF_NAME_ANNOTATION :: string where "REF_NAME_ANNOTATION = ''org.opencontainers.image.ref.name''"

datatype publisher_error =
    InvalidRoot | PublisherIo | UnsupportedFileType | PublisherInvalidPath | DuplicatePath | LimitExceeded
  | EmptyPublication | DestinationExists | PublisherInvalidReference | InvalidArguments

fun publisher_error_message :: "publisher_error \<Rightarrow> string" where
  "publisher_error_message InvalidRoot = ''publisher input root is invalid''"
| "publisher_error_message PublisherIo = ''publisher filesystem operation failed''"
| "publisher_error_message UnsupportedFileType = ''publisher accepts regular files and directories only''"
| "publisher_error_message PublisherInvalidPath = ''publisher file path is not safe for autoindex''"
| "publisher_error_message DuplicatePath = ''publisher input contains a duplicate relative path''"
| "publisher_error_message LimitExceeded = ''publisher input exceeds configured limits''"
| "publisher_error_message EmptyPublication = ''publisher input contains no files''"
| "publisher_error_message DestinationExists = ''OCI layout destination already exists''"
| "publisher_error_message PublisherInvalidReference = ''OCI layout reference is invalid''"
| "publisher_error_message InvalidArguments = ''publisher arguments are invalid''"

record publication_blob =
  pb_digest :: string
  pb_bytes :: string

record publication =
  pn_manifest :: string
  pn_manifest_digest :: string
  pn_manifest_size :: nat
  pn_blobs :: "publication_blob list"
  pn_paths :: "string list"

record publisher_descriptor =
  pd_media_type :: string
  pd_digest :: string
  pd_size :: nat
  pd_annotations :: "(string, string) btree"

definition descriptor_plain :: "string \<Rightarrow> string \<Rightarrow> nat \<Rightarrow> publisher_descriptor" where
  "descriptor_plain media_type digest sz =
     \<lparr>pd_media_type = media_type, pd_digest = digest, pd_size = sz, pd_annotations = []\<rparr>"

record publisher_manifest =
  pm_schema_version :: nat
  pm_media_type :: string
  pm_annotations :: "(string, string) btree"
  pm_config :: publisher_descriptor
  pm_layers :: "publisher_descriptor list"

record layout_descriptor =
  ld_media_type :: string
  ld_digest :: string
  ld_size :: nat
  ld_annotations :: "(string, string) btree"

record layout_index =
  li_schema_version :: nat
  li_manifests :: "layout_descriptor list"

record publisher_lib =
  pl_sha :: "string \<Rightarrow> string"
  pl_json :: "json \<Rightarrow> string option"

text \<open>The derived \<open>Serialize\<close> implementations.\<close>

definition descriptor_value :: "publisher_descriptor \<Rightarrow> json" where
  "descriptor_value d = JObj
     ([(''mediaType'', JStr (pd_media_type d)), (''digest'', JStr (pd_digest d)), (''size'', JNum (PosInt (pd_size d)))]
      @ (if pd_annotations d = [] then [] else [(''annotations'', string_map_value (pd_annotations d))]))"

definition manifest_value :: "publisher_manifest \<Rightarrow> json" where
  "manifest_value m = JObj
     [(''schemaVersion'', JNum (PosInt (pm_schema_version m))), (''mediaType'', JStr (pm_media_type m)),
      (''annotations'', string_map_value (pm_annotations m)), (''config'', descriptor_value (pm_config m)),
      (''layers'', JArr (map descriptor_value (pm_layers m)))]"

definition layout_value :: "string \<Rightarrow> json" where
  "layout_value version = JObj [(''imageLayoutVersion'', JStr version)]"

definition layout_descriptor_value :: "layout_descriptor \<Rightarrow> json" where
  "layout_descriptor_value d = JObj
     [(''mediaType'', JStr (ld_media_type d)), (''digest'', JStr (ld_digest d)), (''size'', JNum (PosInt (ld_size d))),
      (''annotations'', string_map_value (ld_annotations d))]"

definition index_value :: "layout_index \<Rightarrow> json" where
  "index_value i = JObj
     [(''schemaVersion'', JNum (PosInt (li_schema_version i))), (''manifests'', JArr (map layout_descriptor_value (li_manifests i)))]"

text \<open>\<open>serde_json::to_vec\<close>.\<close>

definition pl_manifest_json :: "publisher_lib \<Rightarrow> publisher_manifest \<Rightarrow> string option" where
  "pl_manifest_json lib m = pl_json lib (manifest_value m)"

definition pl_layout_json :: "publisher_lib \<Rightarrow> string \<Rightarrow> string option" where
  "pl_layout_json lib version = pl_json lib (layout_value version)"

definition pl_index_json :: "publisher_lib \<Rightarrow> layout_index \<Rightarrow> string option" where
  "pl_index_json lib i = pl_json lib (index_value i)"

definition digest_bytes :: "publisher_lib \<Rightarrow> string \<Rightarrow> string" where
  "digest_bytes lib bytes = ''sha256:'' @ pl_sha lib bytes"

subsection \<open>Paths and files\<close>

fun validate_root :: "node option \<Rightarrow> publisher_error + unit" where
  "validate_root (Some (DirNode _ _)) = Ok ()"
| "validate_root _ = Err InvalidRoot"

fun title_parts :: "path_component list \<Rightarrow> publisher_error + string list" where
  "title_parts [] = Ok []"
| "title_parts (Normal part # cs) =
     (if is_utf8 part then and_then (title_parts cs) (\<lambda>parts. Ok (part # parts)) else Err PublisherInvalidPath)"
| "title_parts (_ # cs) = Err PublisherInvalidPath"

definition relative_title :: "string \<Rightarrow> publisher_error + string" where
  "relative_title path =
     (if is_absolute path then Err PublisherInvalidPath
      else and_then (title_parts (path_components path)) (\<lambda>parts.
        if parts = [] then Err PublisherInvalidPath else Ok (join_with SLASH parts)))"

text \<open>\<open>validate_source_path\<close> walks down from the root and returns the path below it.\<close>

fun walk_source :: "node \<Rightarrow> string list \<Rightarrow> path_component list \<Rightarrow> publisher_error + string list" where
  "walk_source root current [] = Ok current"
| "walk_source root current (Normal part # cs) =
     (case find_node root (current @ [part]) of
        None \<Rightarrow> Err PublisherIo
      | Some SymlinkNode \<Rightarrow> Err UnsupportedFileType
      | Some _ \<Rightarrow> walk_source root (current @ [part]) cs)"
| "walk_source root current (_ # cs) = Err PublisherInvalidPath"

definition validate_source_path :: "node \<Rightarrow> string \<Rightarrow> publisher_error + string list" where
  "validate_source_path root relative =
     and_then (relative_title relative) (\<lambda>title.
     and_then (map_err (\<lambda>_. PublisherInvalidPath) (relative_path_parse title)) (\<lambda>_.
     walk_source root [] (path_components relative)))"

text \<open>The metadata of a regular file, and its bytes, which must be as many as the metadata states.\<close>

fun regular_file :: "node option \<Rightarrow> publisher_error + (nat \<times> string option)" where
  "regular_file None = Err PublisherIo"
| "regular_file (Some (FileNode len bytes)) = Ok (len, bytes)"
| "regular_file (Some _) = Err UnsupportedFileType"

definition read_exactly :: "nat \<Rightarrow> string option \<Rightarrow> publisher_error + string" where
  "read_exactly file_size contents =
     and_then (ok_or PublisherIo contents) (\<lambda>bytes. if length bytes \<noteq> file_size then Err PublisherIo else Ok bytes)"

definition file_layer :: "string \<Rightarrow> string \<Rightarrow> nat \<Rightarrow> publisher_descriptor" where
  "file_layer title digest file_size =
     \<lparr>pd_media_type = media_type_for title, pd_digest = digest, pd_size = file_size,
      pd_annotations = bt_insert VISIBILITY_ANNOTATION ''true'' (bt_insert TITLE_ANNOTATION title [])\<rparr>"

subsection \<open>A publication from a list of files\<close>

record collection =
  co_titles :: "(string, unit) btree"
  co_blobs :: "(string, publication_blob) btree"
  co_layers :: "publisher_descriptor list"
  co_total_bytes :: nat

definition add_file :: "publisher_lib \<Rightarrow> node \<Rightarrow> collection \<Rightarrow> string \<Rightarrow> publisher_error + collection" where
  "add_file lib root c relative =
     and_then (relative_title relative) (\<lambda>title.
     and_then (map_err (\<lambda>_. PublisherInvalidPath) (relative_path_parse title)) (\<lambda>_.
     if bt_contains_key (co_titles c) title then Err DuplicatePath
     else let titles = bt_insert title () (co_titles c) in
     if length titles > MAX_PUBLICATION_FILES then Err LimitExceeded
     else
     and_then (validate_source_path root relative) (\<lambda>source.
     and_then (regular_file (find_node root source)) (\<lambda>(file_size, contents).
     if file_size > MAX_PUBLICATION_BYTES
        \<or> (case checked_add (co_total_bytes c) file_size of None \<Rightarrow> True | Some n \<Rightarrow> n > MAX_PUBLICATION_BYTES)
     then Err LimitExceeded
     else
     and_then (read_exactly file_size contents) (\<lambda>bytes.
       let digest = digest_bytes lib bytes;
           new = \<not> bt_contains_key (co_blobs c) digest
       in Ok \<lparr>co_titles = titles,
              co_blobs = (if new then bt_insert digest \<lparr>pb_digest = digest, pb_bytes = bytes\<rparr> (co_blobs c) else co_blobs c),
              co_layers = co_layers c @ [file_layer title digest file_size],
              co_total_bytes = (if new then co_total_bytes c + file_size else co_total_bytes c)\<rparr>)))))"

fun add_files :: "publisher_lib \<Rightarrow> node \<Rightarrow> collection \<Rightarrow> string list \<Rightarrow> publisher_error + collection" where
  "add_files lib root c [] = Ok c"
| "add_files lib root c (path # paths) = and_then (add_file lib root c path) (\<lambda>c. add_files lib root c paths)"

definition collection_empty :: collection where
  "collection_empty = \<lparr>co_titles = [], co_blobs = [], co_layers = [], co_total_bytes = 0\<rparr>"

definition layer_title :: "publisher_descriptor \<Rightarrow> string option" where
  "layer_title d = bt_get (pd_annotations d) TITLE_ANNOTATION"

definition publication_manifest :: "publisher_lib \<Rightarrow> publisher_descriptor list \<Rightarrow> publisher_manifest" where
  "publication_manifest lib layers =
     \<lparr>pm_schema_version = 2, pm_media_type = MANIFEST_MEDIA_TYPE,
      pm_annotations = bt_insert PUBLISHER_ANNOTATION PUBLISHER_VERSION [],
      pm_config = descriptor_plain EMPTY_CONFIG_MEDIA_TYPE (digest_bytes lib EMPTY_CONFIG) (length EMPTY_CONFIG),
      pm_layers = layers\<rparr>"

definition finish :: "publisher_lib \<Rightarrow> collection \<Rightarrow> publisher_error + publication" where
  "finish lib c =
     (if co_layers c = [] then Err EmptyPublication
      else let layers = sort_key layer_title (co_layers c) in
        and_then (ok_or PublisherIo (pl_manifest_json lib (publication_manifest lib layers))) (\<lambda>manifest.
          Ok \<lparr>pn_manifest = manifest, pn_manifest_digest = digest_bytes lib manifest, pn_manifest_size = length manifest,
              pn_blobs = sort_key pb_digest (bt_values (co_blobs c)
                 @ [\<lparr>pb_digest = digest_bytes lib EMPTY_CONFIG, pb_bytes = EMPTY_CONFIG\<rparr>]),
              pn_paths = List.map_filter layer_title layers\<rparr>))"

definition from_files :: "publisher_lib \<Rightarrow> node option \<Rightarrow> string list \<Rightarrow> publisher_error + publication" where
  "from_files lib root paths =
     and_then (validate_root root) (\<lambda>_.
     and_then (add_files lib (the root) collection_empty paths) (finish lib))"

subsection \<open>A publication from a directory\<close>

text \<open>Sorting the entries does not change their size.\<close>

lemma size_list_conv: "size_list f xs = sum_list (map f xs) + length xs"
  by (induction xs) auto

lemma size_list_sort [simp]: "size_list f (sort_key k xs) = size_list f xs"
proof -
  have "sum_list (map f (sort_key k xs)) = sum_mset (image_mset f (mset (sort_key k xs)))"
    by (simp only: mset_map[symmetric] sum_mset_sum_list)
  also have "\<dots> = sum_list (map f xs)"
    by (simp add: sum_mset_sum_list flip: mset_map)
  finally show ?thesis by (simp add: size_list_conv)
qed

text \<open>The walk takes the entries of a directory in the order of their names.\<close>

function collect_files :: "node \<Rightarrow> string list \<Rightarrow> nat \<Rightarrow> string list \<Rightarrow> publisher_error + string list"
  and collect_entries :: "(string \<times> node) list \<Rightarrow> string list \<Rightarrow> nat \<Rightarrow> string list \<Rightarrow> publisher_error + string list" where
  "collect_files directory path depth files =
     (if depth > MAX_PATH_SEGMENTS then Err LimitExceeded
      else (case directory of
        DirNode True entries \<Rightarrow> collect_entries (sort_key fst entries) path depth files
      | _ \<Rightarrow> Err PublisherIo))"
| "collect_entries [] path depth files = Ok files"
| "collect_entries ((name, n) # es) path depth files =
     (case n of
        SymlinkNode \<Rightarrow> Err UnsupportedFileType
      | DirNode _ _ \<Rightarrow>
          and_then (collect_files n (path @ [name]) (depth + 1) files) (collect_entries es path depth)
      | FileNode _ _ \<Rightarrow>
          let relative = join_with SLASH (path @ [name]) in
          and_then (relative_title relative) (\<lambda>_.
            if length (files @ [relative]) > MAX_PUBLICATION_FILES then Err LimitExceeded
            else collect_entries es path depth (files @ [relative]))
      | OtherNode \<Rightarrow> Err UnsupportedFileType)"
  by pat_completeness auto

termination
  by (relation "measure (\<lambda>x. case x of Inl (n, _) \<Rightarrow> 2 * size n | Inr (es, _) \<Rightarrow> Suc (2 * size_list (size_prod (\<lambda>_. 0) size) es))")
    auto

definition from_directory :: "publisher_lib \<Rightarrow> node option \<Rightarrow> publisher_error + publication" where
  "from_directory lib root =
     and_then (validate_root root) (\<lambda>_.
     and_then (collect_files (the root) [] 0 []) (\<lambda>relative_files.
     from_files lib root (sort_key path_components relative_files)))"

subsection \<open>The layout\<close>

definition validate_reference :: "string \<Rightarrow> publisher_error + unit" where
  "validate_reference reference =
     (case reference of
        [] \<Rightarrow> Err PublisherInvalidReference
      | first # bytes \<Rightarrow>
          if length reference > 128 \<or> \<not> is_ascii_alphanumeric first \<and> first \<noteq> CHR ''_''
             \<or> \<not> list_all (\<lambda>byte. is_ascii_alphanumeric byte \<or> byte \<in> set ''_.-'') bytes
          then Err PublisherInvalidReference else Ok ())"

text \<open>The destination and the bits of the operations to come.\<close>

record disk =
  dk_destination :: "node option"
  dk_faults :: "bool list"

definition disk_op :: "(node option \<Rightarrow> node option option) \<Rightarrow> disk \<Rightarrow> (publisher_error + unit) \<times> disk" where
  "disk_op f d =
     (let fails = (case dk_faults d of [] \<Rightarrow> False | b # _ \<Rightarrow> b);
          d = d\<lparr>dk_faults := tl (dk_faults d)\<rparr>
      in case (if fails then None else f (dk_destination d)) of
           None \<Rightarrow> (Err PublisherIo, d)
         | Some n \<Rightarrow> (Ok (), d\<lparr>dk_destination := n\<rparr>))"

definition inside :: "(node \<Rightarrow> node option) \<Rightarrow> node option \<Rightarrow> node option option" where
  "inside f n = map_option Some (Option.bind n f)"

type_synonym disk_action = "disk \<Rightarrow> (publisher_error + unit) \<times> disk"

fun run_actions :: "disk_action list \<Rightarrow> disk_action" where
  "run_actions [] d = (Ok (), d)"
| "run_actions (a # as) d = (case a d of (Err e, d) \<Rightarrow> (Err e, d) | (Ok _, d) \<Rightarrow> run_actions as d)"

text \<open>\<open>fs::write\<close> of something that may fail to be encoded.\<close>

definition store :: "string list \<Rightarrow> string option \<Rightarrow> disk_action" where
  "store path contents d =
     (case contents of
        None \<Rightarrow> (Err PublisherIo, d)
      | Some bytes \<Rightarrow> disk_op (inside (\<lambda>n. write_node n path bytes)) d)"

definition blob_directory :: "string list" where
  "blob_directory = [''blobs'', ''sha256'']"

definition write_blob :: "string \<Rightarrow> string \<Rightarrow> disk_action" where
  "write_blob digest bytes d =
     (case strip_prefix ''sha256:'' digest of
        None \<Rightarrow> (Err PublisherInvalidPath, d)
      | Some hex \<Rightarrow> store (blob_directory @ [hex]) (Some bytes) d)"

definition publication_index :: "publication \<Rightarrow> string \<Rightarrow> layout_index" where
  "publication_index p reference =
     \<lparr>li_schema_version = 2,
      li_manifests = [\<lparr>ld_media_type = MANIFEST_MEDIA_TYPE, ld_digest = pn_manifest_digest p,
        ld_size = pn_manifest_size p, ld_annotations = bt_insert REF_NAME_ANNOTATION reference []\<rparr>]\<rparr>"

definition write_layout_contents :: "publisher_lib \<Rightarrow> publication \<Rightarrow> string \<Rightarrow> disk_action" where
  "write_layout_contents lib p reference = run_actions
     ([disk_op (inside (\<lambda>n. create_dir_all n blob_directory))]
      @ map (\<lambda>blob. write_blob (pb_digest blob) (pb_bytes blob)) (pn_blobs p)
      @ [write_blob (pn_manifest_digest p) (pn_manifest p),
         store [''oci-layout''] (pl_layout_json lib OCI_LAYOUT_VERSION),
         store [''index.json''] (pl_index_json lib (publication_index p reference))])"

definition create_destination :: disk_action where
  "create_destination d =
     (case dk_destination d of
        Some _ \<Rightarrow> (Err DestinationExists, d)
      | None \<Rightarrow> disk_op (\<lambda>_. Some (Some (DirNode True []))) d)"

definition write_oci_layout :: "publisher_lib \<Rightarrow> publication \<Rightarrow> string \<Rightarrow> disk_action" where
  "write_oci_layout lib p reference d =
     (case validate_reference reference of
        Err e \<Rightarrow> (Err e, d)
      | Ok _ \<Rightarrow> (case create_destination d of
          (Err e, d) \<Rightarrow> (Err e, d)
        | (Ok _, d) \<Rightarrow> (case write_layout_contents lib p reference d of
            (Err e, d) \<Rightarrow> (Err e, snd (disk_op (\<lambda>_. Some None) d))
          | (Ok _, d) \<Rightarrow> (Ok (), d))))"

end
