(* ===== verification/Json_Text.thy ===== *)
theory Json_Text
  imports Json
begin

text \<open>
  The text of a JSON value (RFC 8259), written as \<open>serde_json\<close> does without spaces, and a reader of such
  texts. The crate calls \<open>serde_json\<close>, which is a parameter of the model; this pair is an instance that
  keeps its contract, \<open>json_codec\<close>. The reader takes no surrogate pairs.
\<close>

text \<open>Whatever is written is read back.\<close>

locale json_codec =
  fixes encode :: "json \<Rightarrow> string option" and decode :: "string \<Rightarrow> json option"
  assumes decode_encode: "encode v = Some bytes \<Longrightarrow> decode bytes = Some v"
begin

lemma encode_inject: "encode v = Some bytes \<Longrightarrow> encode w = Some bytes \<Longrightarrow> v = w"
  by (metis decode_encode option.inject)

end

subsection \<open>Writing\<close>

definition hex_char :: "nat \<Rightarrow> char" where
  "hex_char n = (if n < 10 then char_of (48 + n) else char_of (87 + n))"

definition escape_byte :: "char \<Rightarrow> string" where
  "escape_byte c =
     (if c = DQUOTE then [BACKSLASH, DQUOTE]
      else if c = BACKSLASH then [BACKSLASH, BACKSLASH]
      else if c = CHR 0x08 then BACKSLASH # ''b''
      else if c = CHR 0x09 then BACKSLASH # ''t''
      else if c = CHR 0x0A then BACKSLASH # ''n''
      else if c = CHR 0x0C then BACKSLASH # ''f''
      else if c = CHR 0x0D then BACKSLASH # ''r''
      else if byte_val c < (32::nat) then BACKSLASH # ''u00'' @ [hex_char (byte_val c div 16), hex_char (byte_val c mod 16)]
      else [c])"

definition string_text :: "string \<Rightarrow> string" where
  "string_text s = DQUOTE # concat (map escape_byte s) @ [DQUOTE]"

fun number_text :: "json_number \<Rightarrow> string" where
  "number_text (PosInt n) = decimal_string n"
| "number_text (NegInt i) = CHR ''-'' # decimal_string (nat (- i))"
| "number_text (Float t) = t"

function json_text :: "json \<Rightarrow> string" where
  "json_text JNull = ''null''"
| "json_text (JBool b) = (if b then ''true'' else ''false'')"
| "json_text (JNum n) = number_text n"
| "json_text (JStr s) = string_text s"
| "json_text (JArr vs) = CHR ''['' # join_with (CHR '','') (map json_text vs) @ '']''"
| "json_text (JObj ms) = CHR ''{'' # join_with (CHR '','') (map (\<lambda>m. string_text (fst m) @ CHR '':'' # json_text (snd m)) ms) @ ''}''"
| "json_text JSkip = []"
  by pat_completeness auto

termination
  by (relation "measure size") (use size_member in \<open>fastforce intro: le_imp_less_Suc size_list_estimation'\<close>)+

subsection \<open>Reading\<close>

definition is_json_space :: "char \<Rightarrow> bool" where
  "is_json_space c \<longleftrightarrow> c \<in> {CHR '' '', CHR 0x09, CHR 0x0A, CHR 0x0D}"

definition skip_spaces :: "string \<Rightarrow> string" where
  "skip_spaces s = dropWhile is_json_space s"

definition number_char :: "char \<Rightarrow> bool" where
  "number_char c \<longleftrightarrow> is_ascii_digit c \<or> c \<in> set ''+-.eE''"

definition is_integer :: "string \<Rightarrow> bool" where
  "is_integer t \<longleftrightarrow> t \<noteq> [] \<and> list_all is_ascii_digit t \<and> (hd t = CHR ''0'' \<longrightarrow> tl t = [])"

text \<open>A fraction and an exponent.\<close>

definition is_exponent :: "string \<Rightarrow> bool" where
  "is_exponent t \<longleftrightarrow> t = [] \<or> hd t \<in> set ''eE''
     \<and> (let ds = (if tl t \<noteq> [] \<and> hd (tl t) \<in> set ''+-'' then tl (tl t) else tl t) in ds \<noteq> [] \<and> list_all is_ascii_digit ds)"

definition is_float :: "string \<Rightarrow> bool" where
  "is_float t \<longleftrightarrow>
     (let u = (if t \<noteq> [] \<and> hd t = CHR ''-'' then tl t else t); rest = dropWhile is_ascii_digit u in
      is_integer (takeWhile is_ascii_digit u)
      \<and> (if rest \<noteq> [] \<and> hd rest = CHR ''.''
         then tl rest \<noteq> [] \<and> is_ascii_digit (hd (tl rest)) \<and> is_exponent (dropWhile is_ascii_digit (tl rest))
         else is_exponent rest))"

definition read_json_number :: "string \<Rightarrow> json_number option" where
  "read_json_number t =
     (if is_integer t \<and> decimal_val t < U64_LIMIT then Some (PosInt (decimal_val t))
      else if t \<noteq> [] \<and> hd t = CHR ''-'' \<and> is_integer (tl t) \<and> 0 < decimal_val (tl t) \<and> decimal_val (tl t) \<le> 2 ^ 63
      then Some (NegInt (- int (decimal_val (tl t))))
      else if is_float t then Some (Float t) else None)"

definition hex_value :: "char \<Rightarrow> nat option" where
  "hex_value c =
     (let n = byte_val c in
      if 48 \<le> n \<and> n \<le> 57 then Some (n - 48) else if 97 \<le> n \<and> n \<le> 102 then Some (n - 87)
      else if 65 \<le> n \<and> n \<le> 70 then Some (n - 55) else None)"

text \<open>A code point other than a surrogate, as UTF-8.\<close>

definition code_point :: "nat \<Rightarrow> string option" where
  "code_point n =
     (if n < 128 then Some [char_of n]
      else if n < 2048 then Some [char_of (192 + n div 64), char_of (128 + n mod 64)]
      else if 0xD800 \<le> n \<and> n < 0xE000 then None
      else Some [char_of (224 + n div 4096), char_of (128 + n div 64 mod 64), char_of (128 + n mod 64)])"

definition short_escape :: "char \<Rightarrow> char option" where
  "short_escape e = map_of [(DQUOTE, DQUOTE), (BACKSLASH, BACKSLASH), (SLASH, SLASH), (CHR ''b'', CHR 0x08),
     (CHR ''t'', CHR 0x09), (CHR ''n'', CHR 0x0A), (CHR ''f'', CHR 0x0C), (CHR ''r'', CHR 0x0D)] e"

definition read_hex4 :: "string \<Rightarrow> string option" where
  "read_hex4 ds = Option.bind (those (map hex_value ds)) (\<lambda>ns.
     if length ns = 4 then code_point (foldl (\<lambda>n d. 16 * n + d) 0 ns) else None)"

text \<open>The bytes of a string after its opening quote, and what follows its closing quote.\<close>

function read_chars :: "string \<Rightarrow> (string \<times> string) option" where
  "read_chars [] = None"
| "read_chars (c # s) =
     (if c = DQUOTE then Some ([], s)
      else if c = BACKSLASH then
        (case s of
           [] \<Rightarrow> None
         | e # s \<Rightarrow>
             (case short_escape e of
                Some b \<Rightarrow> map_option (\<lambda>(t, r). (b # t, r)) (read_chars s)
              | None \<Rightarrow>
                  if e = CHR ''u''
                  then Option.bind (read_hex4 (take 4 s)) (\<lambda>bs. map_option (\<lambda>(t, r). (bs @ t, r)) (read_chars (drop 4 s)))
                  else None))
      else if byte_val c < (32::nat) then None
      else map_option (\<lambda>(t, r). (c # t, r)) (read_chars s))"
  by pat_completeness auto

termination
  by (relation "measure length") auto

text \<open>A value with the fuel for its nesting and its members; a text of \<open>n\<close> bytes needs at most \<open>n + 1\<close>.\<close>

definition read_literal :: "string \<Rightarrow> json \<Rightarrow> string \<Rightarrow> (json \<times> string) option" where
  "read_literal word v s = (if starts_with s word then Some (v, drop (length word) s) else None)"

definition read_key :: "string \<Rightarrow> (string \<times> string) option" where
  "read_key s =
     (case skip_spaces s of
        c # s \<Rightarrow> if c = DQUOTE then Option.bind (read_chars s) (\<lambda>(k, s).
            case skip_spaces s of c # s \<Rightarrow> if c = CHR '':'' then Some (k, s) else None | [] \<Rightarrow> None) else None
      | [] \<Rightarrow> None)"

fun read_value :: "nat \<Rightarrow> string \<Rightarrow> (json \<times> string) option"
  and read_items :: "nat \<Rightarrow> string \<Rightarrow> (json list \<times> string) option"
  and read_members :: "nat \<Rightarrow> string \<Rightarrow> ((string \<times> json) list \<times> string) option" where
  "read_value 0 s = None"
| "read_value (Suc n) s =
     (case skip_spaces s of
        [] \<Rightarrow> None
      | c # t \<Rightarrow>
          if c = DQUOTE then map_option (\<lambda>(s, r). (JStr s, r)) (read_chars t)
          else if c = CHR ''['' then
            (case skip_spaces t of
               d # u \<Rightarrow> if d = CHR '']'' then Some (JArr [], u) else map_option (\<lambda>(vs, r). (JArr vs, r)) (read_items n t)
             | [] \<Rightarrow> None)
          else if c = CHR ''{'' then
            (case skip_spaces t of
               d # u \<Rightarrow> if d = CHR ''}'' then Some (JObj [], u) else map_option (\<lambda>(ms, r). (JObj ms, r)) (read_members n t)
             | [] \<Rightarrow> None)
          else if c = CHR ''n'' then read_literal ''null'' JNull (c # t)
          else if c = CHR ''t'' then read_literal ''true'' (JBool True) (c # t)
          else if c = CHR ''f'' then read_literal ''false'' (JBool False) (c # t)
          else map_option (\<lambda>k. (JNum k, dropWhile number_char (c # t))) (read_json_number (takeWhile number_char (c # t))))"
| "read_items 0 s = None"
| "read_items (Suc n) s =
     Option.bind (read_value n s) (\<lambda>(v, s).
       case skip_spaces s of
         [] \<Rightarrow> None
       | c # s \<Rightarrow>
           if c = CHR '','' then map_option (\<lambda>(vs, r). (v # vs, r)) (read_items n s)
           else if c = CHR '']'' then Some ([v], s) else None)"
| "read_members 0 s = None"
| "read_members (Suc n) s =
     Option.bind (read_key s) (\<lambda>(k, s).
     Option.bind (read_value n s) (\<lambda>(v, s).
       case skip_spaces s of
         [] \<Rightarrow> None
       | c # s \<Rightarrow>
           if c = CHR '','' then map_option (\<lambda>(ms, r). ((k, v) # ms, r)) (read_members n s)
           else if c = CHR ''}'' then Some ([(k, v)], s) else None))"

definition read_json :: "string \<Rightarrow> json option" where
  "read_json s = Option.bind (read_value (length s + 1) s) (\<lambda>(v, r). if skip_spaces r = [] then Some v else None)"

subsection \<open>What is written is read back\<close>

lemma hex_values: "m < 16 \<Longrightarrow> hex_value (hex_char m) = Some m" "hex_value (CHR ''0'') = Some 0"
  by (simp_all add: hex_value_def hex_char_def)

lemma read_escapes: "k < 32 \<Longrightarrow> read_hex4 (''00'' @ [hex_char (k div 16), hex_char (k mod 16)]) = Some [char_of k]"
  using hex_values by (simp add: read_hex4_def code_point_def)

lemma read_escape: "read_chars (escape_byte c @ r) = map_option (\<lambda>(t, r). (c # t, r)) (read_chars r)"
proof -
  consider (short) "c \<in> {DQUOTE, BACKSLASH, CHR 0x08, CHR 0x09, CHR 0x0A, CHR 0x0C, CHR 0x0D}"
    | (control) "c \<notin> {DQUOTE, BACKSLASH, CHR 0x08, CHR 0x09, CHR 0x0A, CHR 0x0C, CHR 0x0D}" "byte_val c < (32::nat)"
    | (plain) "c \<notin> {DQUOTE, BACKSLASH, CHR 0x08, CHR 0x09, CHR 0x0A, CHR 0x0C, CHR 0x0D}" "\<not> byte_val c < (32::nat)"
    by auto
  then show ?thesis
  proof cases
    case short
    then show ?thesis by (elim insertE) (simp_all add: escape_byte_def short_escape_def)
  next
    case control
    have "read_hex4 (''00'' @ [hex_char (byte_val c div 16), hex_char (byte_val c mod 16)]) = Some [c]"
      using read_escapes control(2) by simp
    then show ?thesis using control by (simp add: escape_byte_def short_escape_def)
  next
    case plain
    then show ?thesis by (simp add: escape_byte_def)
  qed
qed

lemma read_string: "read_chars (concat (map escape_byte s) @ DQUOTE # r) = Some (s, r)"
  by (induction s) (simp_all add: read_escape del: read_chars.simps(2), simp)

text \<open>The values that have a text.\<close>

function writable :: "json \<Rightarrow> bool" where
  "writable JNull = True"
| "writable (JBool b) = True"
| "writable (JNum n) = (read_json_number (number_text n) = Some n \<and> list_all number_char (number_text n))"
| "writable (JStr s) = True"
| "writable (JArr vs) = (\<forall>v \<in> set vs. writable v)"
| "writable (JObj ms) = (\<forall>m \<in> set ms. writable (snd m))"
| "writable JSkip = False"
  by pat_completeness auto

termination
  by (relation "measure size") (use size_member in \<open>fastforce intro: le_imp_less_Suc size_list_estimation'\<close>)+

definition write_json :: "json \<Rightarrow> string option" where
  "write_json v = (if writable v then Some (json_text v) else None)"

text \<open>Numbers of the sizes that structures hold.\<close>

lemma integer_text: "is_integer (decimal_string n)"
proof (induction n rule: decimal_string.induct)
  case (1 n)
  show ?case
  proof (cases "n < 10")
    case True
    then show ?thesis using digit_char[of n] by (subst decimal_string.simps) (simp add: is_integer_def)
  next
    case False
    let ?p = "decimal_string (n div 10)"
    have p: "is_integer ?p" using 1 False by simp
    have "?p \<noteq> ''0''"
    proof
      assume "?p = ''0''"
      then have "decimal_val ?p = 0" by (simp add: decimal_val_def digit_val_def)
      with False show False by simp
    qed
    with p have "hd ?p \<noteq> CHR ''0''" "?p \<noteq> []" "list_all is_ascii_digit ?p" by (auto simp: is_integer_def neq_Nil_conv)
    then show ?thesis using False digit_char[of "n mod 10"] by (subst decimal_string.simps) (simp add: is_integer_def)
  qed
qed

lemma writable_number: "n < U64_LIMIT \<Longrightarrow> writable (JNum (PosInt n))"
  using integer_text[of n] by (simp add: read_json_number_def is_integer_def number_char_def list_all_iff)

subsection \<open>Values\<close>

definition delimits :: "string \<Rightarrow> bool" where
  "delimits r \<longleftrightarrow> r = [] \<or> \<not> number_char (hd r)"

definition opens :: "char \<Rightarrow> bool" where
  "opens c \<longleftrightarrow> \<not> is_json_space c \<and> c \<notin> {CHR '']'', CHR ''}'', CHR '',''}"

lemma number_first:
  assumes "read_json_number t = Some n"
  shows "t \<noteq> [] \<and> (hd t = CHR ''-'' \<or> is_ascii_digit (hd t))"
proof -
  have integer: "u \<noteq> [] \<and> is_ascii_digit (hd u)" if "is_integer u" for u
    using that by (cases u) (auto simp: is_integer_def)
  have float: ?thesis if "is_float t"
  proof -
    let ?u = "if t \<noteq> [] \<and> hd t = CHR ''-'' then tl t else t"
    have "is_integer (takeWhile is_ascii_digit ?u)" using that by (simp add: is_float_def Let_def split: if_splits)
    from integer[OF this] show ?thesis by (cases t) (auto split: if_splits)
  qed
  show ?thesis using assms integer float by (auto simp: read_json_number_def split: if_splits)
qed

lemma text_first:
  assumes "writable v"
  shows "json_text v \<noteq> [] \<and> opens (hd (json_text v))"
proof (cases v)
  case (JNum n)
  with assms number_first[of "number_text n" n] show ?thesis
    by (auto simp: opens_def is_json_space_def is_ascii_digit_def)
qed (use assms in \<open>auto simp: opens_def is_json_space_def string_text_def\<close>)

lemma skip_opens: "t \<noteq> [] \<Longrightarrow> opens (hd t) \<Longrightarrow> skip_spaces (t @ r) = t @ r"
  by (cases t) (auto simp: opens_def skip_spaces_def)

lemma skip_simps [simp]:
  "skip_spaces [] = []"
  "\<not> is_json_space c \<Longrightarrow> skip_spaces (c # s) = c # s"
  by (simp_all add: skip_spaces_def)

lemma punctuation [simp]:
  "\<not> is_json_space (CHR '','')" "\<not> is_json_space (CHR '']'')" "\<not> is_json_space (CHR ''}'')" "\<not> is_json_space (CHR '':'')"
  "\<not> is_json_space (CHR ''['')" "\<not> is_json_space (CHR ''{'')" "\<not> is_json_space DQUOTE"
  by (simp_all add: is_json_space_def)

lemma delimiters [simp]: "delimits (CHR '','' # r)" "delimits (CHR '']'' # r)" "delimits (CHR ''}'' # r)"
  by (simp_all add: delimits_def number_char_def is_ascii_digit_def)

lemma read_json_number_text:
  assumes "writable (JNum n)" "delimits r" "0 < k"
  shows "read_value k (number_text n @ r) = Some (JNum n, r)"
proof -
  let ?t = "number_text n"
  have t: "read_json_number ?t = Some n" "list_all number_char ?t" using assms(1) by simp_all
  obtain c cs where c: "?t = c # cs" using number_first[OF t(1)] by (cases ?t) auto
  have first: "c = CHR ''-'' \<or> is_ascii_digit c" using number_first[OF t(1)] c by simp
  have take: "takeWhile number_char (?t @ r) = ?t" "dropWhile number_char (?t @ r) = r"
    using t(2) assms(2) by (cases r; auto simp: list_all_iff delimits_def)+
  have "\<not> is_json_space c" "c \<notin> {DQUOTE, CHR ''['', CHR ''{'', CHR ''n'', CHR ''t'', CHR ''f''}"
    using first by (auto simp: is_json_space_def is_ascii_digit_def)
  then show ?thesis
    using assms(3) take t(1) c by (cases k) simp_all
qed

lemma read_items_text:
  assumes "\<And>v r n. v \<in> set vs \<Longrightarrow> delimits r \<Longrightarrow> length (json_text v) < n \<Longrightarrow> read_value n (json_text v @ r) = Some (v, r)"
    and "vs \<noteq> []" "length (join_with (CHR '','') (map json_text vs)) + 1 < n"
  shows "read_items n (join_with (CHR '','') (map json_text vs) @ CHR '']'' # r) = Some (vs, r)"
  using assms
proof (induction vs arbitrary: n rule: induct_list012)
  case (2 v)
  then show ?case by (cases n) simp_all
next
  case (3 v w vs)
  then obtain m where m: "n = Suc m" by (cases n) simp_all
  have "read_items m (join_with (CHR '','') (map json_text (w # vs)) @ CHR '']'' # r) = Some (w # vs, r)"
    using "3.prems" m by (intro "3.IH"(2)) auto
  then show ?case using "3.prems" m by simp
qed simp

lemma read_key_text: "read_key (string_text k @ CHR '':'' # r) = Some (k, r)"
  by (simp add: read_key_def string_text_def read_string)

abbreviation member_text :: "string \<times> json \<Rightarrow> string" where
  "member_text m \<equiv> string_text (fst m) @ CHR '':'' # json_text (snd m)"

lemma read_members_text:
  assumes "\<And>v r n. v \<in> set ms \<Longrightarrow> delimits r \<Longrightarrow> length (json_text (snd v)) < n \<Longrightarrow>
      read_value n (json_text (snd v) @ r) = Some (snd v, r)"
    and "ms \<noteq> []" "length (join_with (CHR '','') (map member_text ms)) + 1 < n"
  shows "read_members n (join_with (CHR '','') (map member_text ms) @ CHR ''}'' # r) = Some (ms, r)"
  using assms
proof (induction ms arbitrary: n rule: induct_list012)
  case (2 v)
  then show ?case by (cases n) (simp_all add: read_key_text)
next
  case (3 v w vs)
  then obtain m where m: "n = Suc m" by (cases n) simp_all
  have "read_members m (join_with (CHR '','') (map member_text (w # vs)) @ CHR ''}'' # r) = Some (w # vs, r)"
    using "3.prems" m by (intro "3.IH"(2)) auto
  then show ?case using "3.prems" m by (simp add: read_key_text)
qed simp

lemma join_first: "xs \<noteq> [] \<Longrightarrow> hd xs \<noteq> [] \<Longrightarrow> join_with d xs \<noteq> [] \<and> hd (join_with d xs) = hd (hd xs)"
  by (cases xs rule: remdups_adj.cases) auto

lemma read_writable:
  "writable v \<Longrightarrow> delimits r \<Longrightarrow> length (json_text v) < n \<Longrightarrow> read_value n (json_text v @ r) = Some (v, r)"
proof (induction v arbitrary: n r rule: json_text.induct)
  case (3 k)
  then show ?case using read_json_number_text[of k r n] by simp
next
  case (4 s)
  then show ?case by (cases n) (simp_all add: string_text_def read_string)
next
  case (5 vs)
  then obtain m where m: "n = Suc m" by (cases n) simp_all
  show ?case
  proof (cases "vs = []")
    case False
    let ?j = "join_with (CHR '','') (map json_text vs)"
    have "?j \<noteq> []" "opens (hd ?j)"
      using False "5.prems"(1) text_first[of "hd vs"] join_first[of "map json_text vs"] by (auto simp: hd_map)
    then obtain d u where d: "?j = d # u" "opens d" by (cases ?j) auto
    have "read_items m (?j @ CHR '']'' # r) = Some (vs, r)"
      using "5.prems" "5.IH" False m by (intro read_items_text) auto
    then show ?thesis using m d by (simp add: opens_def)
  qed (simp add: m)
next
  case (6 ms)
  then obtain m where m: "n = Suc m" by (cases n) simp_all
  show ?case
  proof (cases "ms = []")
    case False
    let ?j = "join_with (CHR '','') (map member_text ms)"
    have "member_text (hd ms) \<noteq> [] \<and> hd (member_text (hd ms)) = DQUOTE" by (simp add: string_text_def)
    then have "?j \<noteq> []" "hd ?j = DQUOTE" using False join_first[of "map member_text ms"] by (simp_all add: hd_map)
    then obtain u where d: "?j = DQUOTE # u" by (cases ?j) auto
    have "read_members m (?j @ CHR ''}'' # r) = Some (ms, r)"
      using "6.prems" "6.IH" False m by (intro read_members_text) auto
    then show ?thesis using m d by simp
  qed (simp add: m)
next
  case 1
  then show ?case by (cases n) (simp_all add: read_literal_def is_json_space_def)
next
  case (2 b)
  then show ?case by (cases n; cases b) (simp_all add: read_literal_def is_json_space_def)
qed simp

interpretation json: json_codec write_json read_json
proof
  fix v bytes
  assume "write_json v = Some bytes"
  then have w: "writable v" "bytes = json_text v" by (auto simp: write_json_def split: if_splits)
  have "read_value (length bytes + 1) (json_text v @ []) = Some (v, [])"
    using w by (intro read_writable) (simp_all add: delimits_def)
  then show "read_json bytes = Some v" by (simp add: read_json_def w(2) skip_spaces_def)
qed

end
