(* ===== verification/Publication.thy ===== *)
theory Publication
  imports Publisher Json_Text
begin

text \<open>
  What a publication holds: the files of the tree it was made from. The client reads its manifest
  back as an index with one object per file; the layout on disk is complete or absent.
\<close>

subsection \<open>What one file adds\<close>

text \<open>A file of the tree under its title, with its bytes.\<close>

definition publishable :: "node \<Rightarrow> string \<Rightarrow> string \<Rightarrow> bool" where
  "publishable root t b \<longleftrightarrow> length b \<le> MAX_PUBLICATION_BYTES
     \<and> (\<exists>segs. path_spec segs False \<and> t = path_string segs False
          \<and> find_node root segs = Some (FileNode (length b) (Some b)))"

definition layer_for :: "publisher_lib \<Rightarrow> string \<times> string \<Rightarrow> publisher_descriptor" where
  "layer_for lib f = file_layer (fst f) (digest_bytes lib (snd f)) (length (snd f))"

definition blob_for :: "publisher_lib \<Rightarrow> string \<Rightarrow> publication_blob" where
  "blob_for lib b = \<lparr>pb_digest = digest_bytes lib b, pb_bytes = b\<rparr>"

definition extend :: "publisher_lib \<Rightarrow> collection \<Rightarrow> string \<times> string \<Rightarrow> collection" where
  "extend lib c f =
     (let digest = digest_bytes lib (snd f); new = \<not> bt_contains_key (co_blobs c) digest in
      \<lparr>co_titles = bt_insert (fst f) () (co_titles c),
       co_blobs = (if new then bt_insert digest (blob_for lib (snd f)) (co_blobs c) else co_blobs c),
       co_layers = co_layers c @ [layer_for lib f],
       co_total_bytes = (if new then co_total_bytes c + length (snd f) else co_total_bytes c)\<rparr>)"

lemma title_parts_Ok: "title_parts cs = Ok parts \<longleftrightarrow> cs = map Normal parts \<and> list_all is_utf8 parts"
proof (induction cs arbitrary: parts rule: title_parts.induct)
  case (2 part cs)
  show ?case
  proof (cases "is_utf8 part")
    case True
    then show ?thesis using "2.IH"[OF True] by (cases parts) auto
  next
    case False
    then show ?thesis by (cases parts) auto
  qed
qed (auto simp: eq_commute[of _ "map Normal _"] map_eq_Cons_conv)

lemma path_components_Normal:
  assumes "path_components p = map Normal parts"
  shows "list_all file_name_ok parts"
proof -
  have "file_name_ok s" if "s \<in> set parts" for s
  proof -
    have "Normal s \<in> set (path_components p)" using that assms by simp
    then have "s \<in> set (split_on SLASH p)" "s \<noteq> []" "s \<noteq> ''.''" "s \<noteq> ''..''"
      by (auto simp: path_components_def Let_def split: if_splits)
    then show ?thesis using split_on_sep_free[of s SLASH p] by (simp add: file_name_ok_def)
  qed
  then show ?thesis by (simp add: list_all_iff)
qed

lemma relative_title_Ok:
  assumes "relative_title p = Ok t"
  shows "\<exists>segs. path_components p = map Normal segs \<and> segs \<noteq> [] \<and> list_all file_name_ok segs
     \<and> list_all is_utf8 segs \<and> t = join_with SLASH segs"
  using assms path_components_Normal by (auto simp: relative_title_def title_parts_Ok split: if_splits)

lemma split_file_names: "segs \<noteq> [] \<Longrightarrow> list_all file_name_ok segs \<Longrightarrow> split_on SLASH (join_with SLASH segs) = segs"
  by (rule split_on_join) (auto simp: list_all_iff file_name_ok_def)

lemma title_segments:
  assumes segs: "segs \<noteq> []" "list_all file_name_ok segs"
    and parsed: "relative_path_parse (join_with SLASH segs) = Ok q"
  shows "path_spec segs False \<and> join_with SLASH segs = path_string segs False"
proof -
  obtain ss where ss: "path_spec ss (is_directory q)" "join_with SLASH segs = path_string ss (is_directory q)"
    using relative_path_parse_sound[OF parsed] by blast
  then have "segs = ss @ (if is_directory q then [[]] else [])"
    using split_path_string[of ss "is_directory q"] split_file_names[OF segs] by (simp add: path_spec_def)
  moreover have "[] \<notin> set segs" using segs(2) by (auto simp: list_all_iff file_name_ok_def)
  ultimately show ?thesis using ss by (auto split: if_splits)
qed

lemma walk_source_Ok: "walk_source root cur (map Normal parts) = Ok source \<Longrightarrow> source = cur @ parts"
  by (induction parts arbitrary: cur) (fastforce split: option.splits node.splits)+

lemma regular_file_Ok: "regular_file n = Ok (l, c) \<longleftrightarrow> n = Some (FileNode l c)"
  by (cases n rule: regular_file.cases) auto

lemma add_file_Ok:
  assumes "add_file lib root c path = Ok c'"
  shows "\<exists>t b. relative_title path = Ok t \<and> publishable root t b \<and> \<not> bt_contains_key (co_titles c) t
     \<and> length (bt_insert t () (co_titles c)) \<le> MAX_PUBLICATION_FILES
     \<and> co_total_bytes c + length b \<le> MAX_PUBLICATION_BYTES \<and> c' = extend lib c (t, b)"
proof -
  obtain t q source l contents b where t: "relative_title path = Ok t" and q: "relative_path_parse t = Ok q"
    and new: "\<not> bt_contains_key (co_titles c) t" "length (bt_insert t () (co_titles c)) \<le> MAX_PUBLICATION_FILES"
    and source: "validate_source_path root path = Ok source" and found: "find_node root source = Some (FileNode l contents)"
    and fits: "l \<le> MAX_PUBLICATION_BYTES" "case checked_add (co_total_bytes c) l of None \<Rightarrow> False | Some n \<Rightarrow> n \<le> MAX_PUBLICATION_BYTES"
    and bytes: "read_exactly l contents = Ok b"
    and c': "c' = \<lparr>co_titles = bt_insert t () (co_titles c),
              co_blobs = (if \<not> bt_contains_key (co_blobs c) (digest_bytes lib b)
                 then bt_insert (digest_bytes lib b) \<lparr>pb_digest = digest_bytes lib b, pb_bytes = b\<rparr> (co_blobs c) else co_blobs c),
              co_layers = co_layers c @ [file_layer t (digest_bytes lib b) l],
              co_total_bytes = (if \<not> bt_contains_key (co_blobs c) (digest_bytes lib b) then co_total_bytes c + l else co_total_bytes c)\<rparr>"
    using assms unfolding add_file_def Let_def and_then_eq_Ok map_err_eq_Ok
    by (auto simp: regular_file_Ok not_less split: if_splits option.splits)
  obtain segs where segs: "path_components path = map Normal segs" "segs \<noteq> []" "list_all file_name_ok segs" "t = join_with SLASH segs"
    using relative_title_Ok[OF t] by blast
  have spec: "path_spec segs False" "t = path_string segs False"
    using title_segments[OF segs(2,3)] q segs(4) by auto
  have "source = segs"
    using source segs(1) walk_source_Ok[of root "[]" segs source] by (auto simp: validate_source_path_def)
  moreover have b: "contents = Some b" "length b = l"
    using bytes by (auto simp: read_exactly_def split: if_splits)
  ultimately have "publishable root t b"
    using found fits(1) spec by (auto simp: publishable_def)
  moreover have "co_total_bytes c + l \<le> MAX_PUBLICATION_BYTES"
    using fits(2) by (auto simp: checked_add_def split: if_splits)
  ultimately show ?thesis
    using t new c' b by (auto simp: extend_def layer_for_def blob_for_def Let_def)
qed

subsection \<open>The collection\<close>

lemma length_bt_insert_new: "\<not> bt_contains_key m k \<Longrightarrow> length (bt_insert k v m) = Suc (length m)"
  by (induction k v m rule: bt_insert.induct) (auto simp: bt_contains_key_def bt_get_def)

lemma mset_bt_insert: "\<not> bt_contains_key m k \<Longrightarrow> mset (bt_insert k v m) = add_mset (k, v) (mset m)"
  by (induction k v m rule: bt_insert.induct) (auto simp: bt_contains_key_def bt_get_def)

lemma sum_bt_insert:
  fixes f :: "'v \<Rightarrow> nat"
  assumes "\<not> bt_contains_key m k"
  shows "sum_list (map f (bt_values (bt_insert k v m))) = f v + sum_list (map f (bt_values m))"
proof -
  have "sum_mset (image_mset (f \<circ> snd) (mset (bt_insert k v m))) = f v + sum_mset (image_mset (f \<circ> snd) (mset m))"
    by (simp add: mset_bt_insert[OF assms])
  then show ?thesis
    by (simp only: mset_map[symmetric] sum_mset_sum_list bt_values_def map_map)
qed

text \<open>The state of the loop after the files \<open>fs\<close>.\<close>

definition collected_files :: "publisher_lib \<Rightarrow> node \<Rightarrow> (string \<times> string) list \<Rightarrow> collection \<Rightarrow> bool" where
  "collected_files lib root fs c \<longleftrightarrow>
     co_layers c = map (layer_for lib) fs \<and> distinct (map fst fs)
     \<and> (\<forall>f \<in> set fs. publishable root (fst f) (snd f))
     \<and> bt_wf (co_titles c) \<and> (\<forall>t. bt_contains_key (co_titles c) t \<longleftrightarrow> t \<in> fst ` set fs)
     \<and> length (co_titles c) = length fs \<and> length fs \<le> MAX_PUBLICATION_FILES
     \<and> bt_wf (co_blobs c)
     \<and> (\<forall>d blob. bt_get (co_blobs c) d = Some blob \<longrightarrow> (\<exists>f \<in> set fs. blob = blob_for lib (snd f) \<and> d = digest_bytes lib (snd f)))
     \<and> (\<forall>f \<in> set fs. bt_contains_key (co_blobs c) (digest_bytes lib (snd f)))
     \<and> co_total_bytes c = sum_list (map (\<lambda>blob. length (pb_bytes blob)) (bt_values (co_blobs c)))
     \<and> co_total_bytes c \<le> MAX_PUBLICATION_BYTES"

lemma collected_empty: "collected_files lib root [] collection_empty"
  by (simp add: collected_files_def collection_empty_def bt_simps bt_contains_key_def bt_values_def)

lemma collected_extend:
  assumes inv: "collected_files lib root fs c" and f: "publishable root t b" and new: "\<not> bt_contains_key (co_titles c) t"
    and files: "length (bt_insert t () (co_titles c)) \<le> MAX_PUBLICATION_FILES"
    and total: "co_total_bytes c + length b \<le> MAX_PUBLICATION_BYTES"
  shows "collected_files lib root (fs @ [(t, b)]) (extend lib c (t, b))"
proof -
  note inv' = inv[unfolded collected_files_def]
  have titles: "bt_contains_key (bt_insert t () (co_titles c)) s \<longleftrightarrow> s = t \<or> s \<in> fst ` set fs" for s
    using inv' by (auto simp: bt_contains_key_def bt_simps)
  show ?thesis
  proof (cases "bt_contains_key (co_blobs c) (digest_bytes lib b)")
    case True
    show ?thesis
      using inv' f new files total True length_bt_insert_new[OF new, of "()"]
      unfolding collected_files_def extend_def Let_def
      by (simp add: titles bt_wf_insert)
  next
    case False
    have blobs: "bt_get (bt_insert (digest_bytes lib b) (blob_for lib b) (co_blobs c)) d =
        (if d = digest_bytes lib b then Some (blob_for lib b) else bt_get (co_blobs c) d)" for d
      using inv' by (simp add: bt_simps)
    have contains: "bt_contains_key (bt_insert (digest_bytes lib b) (blob_for lib b) (co_blobs c)) d
       \<longleftrightarrow> d = digest_bytes lib b \<or> bt_contains_key (co_blobs c) d" for d
      by (simp add: bt_contains_key_def blobs)
    have size: "length (pb_bytes (blob_for lib b)) = length b" by (simp add: blob_for_def)
    show ?thesis
      using inv' f new files total False length_bt_insert_new[OF new, of "()"]
      unfolding collected_files_def extend_def Let_def
      by (simp add: titles bt_wf_insert sum_bt_insert blobs contains size)
  qed
qed

lemma add_files_Ok:
  assumes "add_files lib root c paths = Ok c'" "collected_files lib root fs c"
  shows "\<exists>gs. collected_files lib root (fs @ gs) c' \<and> map (relative_title) paths = map (\<lambda>f. Ok (fst f)) gs"
  using assms
proof (induction paths arbitrary: c fs)
  case Nil
  then show ?case by (intro exI[of _ "[]"]) simp
next
  case (Cons path paths)
  then obtain d where d: "add_file lib root c path = Ok d" "add_files lib root d paths = Ok c'" by auto
  obtain t b where tb: "relative_title path = Ok t" "publishable root t b" "\<not> bt_contains_key (co_titles c) t"
    "length (bt_insert t () (co_titles c)) \<le> MAX_PUBLICATION_FILES"
    "co_total_bytes c + length b \<le> MAX_PUBLICATION_BYTES" "d = extend lib c (t, b)"
    using add_file_Ok[OF d(1)] by blast
  have "collected_files lib root (fs @ [(t, b)]) d"
    unfolding tb(6) by (rule collected_extend[OF Cons.prems(2) tb(2-5)])
  from Cons.IH[OF d(2) this] obtain gs where "collected_files lib root (fs @ (t, b) # gs) c'"
    "map relative_title paths = map (\<lambda>f. Ok (fst f)) gs" by auto
  with tb(1) show ?case by (intro exI[of _ "(t, b) # gs"]) simp
qed

subsection \<open>The finished publication\<close>

lemma insort_key_map: "insort_key k (g x) (map g xs) = map g (insort_key (\<lambda>x. k (g x)) x xs)"
  by (induction xs) auto

lemma sort_key_map: "sort_key k (map g xs) = map g (sort_key (\<lambda>x. k (g x)) xs)"
  by (induction xs) (auto simp: insort_key_map)

lemma sort_key_cong_order:
  assumes "\<And>x y. k x \<le> k y \<longleftrightarrow> l x \<le> l y"
  shows "sort_key k xs = sort_key l xs"
proof -
  have "insort_key k x xs = insort_key l x xs" for x xs
    by (induction xs) (simp_all add: assms)
  then show ?thesis by (induction xs) simp_all
qed

lemma annotations_differ: "TITLE_ANNOTATION \<noteq> VISIBILITY_ANNOTATION"
  by (simp add: TITLE_ANNOTATION_def VISIBILITY_ANNOTATION_def)

lemma layer_annotations:
  "bt_get (pd_annotations (layer_for lib f)) = [TITLE_ANNOTATION \<mapsto> fst f, VISIBILITY_ANNOTATION \<mapsto> ''true'']"
  "length (pd_annotations (layer_for lib f)) = 2"
proof -
  show "bt_get (pd_annotations (layer_for lib f)) = [TITLE_ANNOTATION \<mapsto> fst f, VISIBILITY_ANNOTATION \<mapsto> ''true'']"
    by (simp add: layer_for_def file_layer_def bt_simps del: bt_insert.simps)
  have "\<not> bt_contains_key (bt_insert TITLE_ANNOTATION (fst f) []) VISIBILITY_ANNOTATION"
    using annotations_differ by (simp add: bt_contains_key_def bt_get_def)
  then show "length (pd_annotations (layer_for lib f)) = 2"
    by (simp add: layer_for_def file_layer_def length_bt_insert_new del: bt_insert.simps) simp
qed

lemma layer_title_for [simp]: "layer_title (layer_for lib f) = Some (fst f)"
  using annotations_differ by (simp add: layer_title_def layer_annotations)

text \<open>The layers of a publication are those of its files in the order of their titles.\<close>

lemma sorted_layers:
  "sort_key layer_title (map (layer_for lib) fs) = map (layer_for lib) (sort_key fst fs)"
proof -
  have "sort_key layer_title (map (layer_for lib) fs) = map (layer_for lib) (sort_key (\<lambda>f. Some (fst f)) fs)"
    by (simp add: sort_key_map)
  also have "sort_key (\<lambda>f. Some (fst f)) fs = sort_key fst fs"
    by (rule sort_key_cong_order) simp
  finally show ?thesis .
qed

definition publication_of :: "publisher_lib \<Rightarrow> (string \<times> string) list \<Rightarrow> publication_blob list \<Rightarrow> string \<Rightarrow> publication" where
  "publication_of lib fs blobs manifest =
     \<lparr>pn_manifest = manifest, pn_manifest_digest = digest_bytes lib manifest, pn_manifest_size = length manifest,
      pn_blobs = sort_key pb_digest (blobs @ [blob_for lib EMPTY_CONFIG]),
      pn_paths = map fst (sort_key fst fs)\<rparr>"

lemma from_files_Ok:
  assumes "from_files lib (Some root) paths = Ok p"
  shows "\<exists>fs c manifest. collected_files lib root fs c \<and> fs \<noteq> [] \<and> map relative_title paths = map (\<lambda>f. Ok (fst f)) fs
     \<and> pl_manifest_json lib (publication_manifest lib (map (layer_for lib) (sort_key fst fs))) = Some manifest
     \<and> p = publication_of lib fs (bt_values (co_blobs c)) manifest"
proof -
  obtain c where c: "add_files lib root collection_empty paths = Ok c" "finish lib c = Ok p"
    using assms by (auto simp: from_files_def)
  obtain fs where fs: "collected_files lib root fs c" "map relative_title paths = map (\<lambda>f. Ok (fst f)) fs"
    using add_files_Ok[OF c(1) collected_empty] by auto
  have layers: "co_layers c = map (layer_for lib) fs" using fs(1) by (simp add: collected_files_def)
  have titles: "List.map_filter layer_title (map (layer_for lib) gs) = map fst gs" for gs
    by (induction gs) (simp_all add: List.map_filter_simps)
  from c(2) obtain manifest where "fs \<noteq> []"
    "pl_manifest_json lib (publication_manifest lib (map (layer_for lib) (sort_key fst fs))) = Some manifest"
    "p = publication_of lib fs (bt_values (co_blobs c)) manifest"
    by (auto simp: finish_def Let_def layers sorted_layers titles publication_of_def blob_for_def split: if_splits)
  with fs show ?thesis by blast
qed

subsection \<open>The manifest is a native one\<close>

text \<open>What the decoder of the client reads from the encoding of a descriptor or manifest.\<close>

definition read_descriptor :: "publisher_descriptor \<Rightarrow> descriptor" where
  "read_descriptor d = \<lparr>d_media_type = pd_media_type d, d_digest = pd_digest d, d_size = pd_size d,
     d_annotations = pd_annotations d, d_extra = []\<rparr>"

definition read_manifest :: "publisher_manifest \<Rightarrow> manifest" where
  "read_manifest m = \<lparr>m_schema_version = pm_schema_version m, m_media_type = pm_media_type m,
     m_annotations = pm_annotations m, m_config = read_descriptor (pm_config m),
     m_layers = map read_descriptor (pm_layers m), m_extra = []\<rparr>"

definition object_for :: "publisher_lib \<Rightarrow> string \<times> string \<Rightarrow> visible_object" where
  "object_for lib f = \<lparr>vo_path = RelativePath (fst f), vo_digest = digest_bytes lib (snd f),
     vo_media_type = media_type_for (fst f), vo_size = length (snd f)\<rparr>"

lemma sorted_windows2: "sorted_wrt R xs \<Longrightarrow> list_all (\<lambda>(a, b). R a b) (windows2 xs)"
  by (induction xs rule: induct_list012) (auto simp: windows2_def)

lemma sorted_wrt_pairs:
  "distinct xs \<Longrightarrow> (\<And>x y. x \<in> set xs \<Longrightarrow> y \<in> set xs \<Longrightarrow> x \<noteq> y \<Longrightarrow> R x y) \<Longrightarrow> sorted_wrt R xs"
  by (induction xs) auto

text \<open>Two files of a tree are apart: nothing is below a regular file.\<close>

lemma publishable_separate:
  assumes a: "publishable root t b" and a': "publishable root t' b'" and ne: "t \<noteq> t'"
  shows "separate (RelativePath t) (RelativePath t')"
proof -
  have apart: "\<not> prefix segs segs'"
    if "find_node root segs = Some (FileNode l c)" "find_node root segs' \<noteq> None" "segs \<noteq> segs'"
    for segs segs' l c
  proof
    assume "prefix segs segs'"
    then obtain q where q: "segs' = segs @ q" by (auto simp: prefix_def)
    with that(3) have "q \<noteq> []" by auto
    with that(2) q find_file_leaf[OF that(1), of q] show False by simp
  qed
  obtain segs where segs: "path_spec segs False" "t = path_string segs False"
    "find_node root segs = Some (FileNode (length b) (Some b))" using a by (auto simp: publishable_def)
  obtain segs' where segs': "path_spec segs' False" "t' = path_string segs' False"
    "find_node root segs' = Some (FileNode (length b') (Some b'))" using a' by (auto simp: publishable_def)
  have comps: "components (RelativePath t) = segs" "components (RelativePath t') = segs'"
    using components_path_string[of segs False] components_path_string[of segs' False] segs(1,2) segs'(1,2)
    by (simp_all add: path_spec_def valid_segments_def)
  show ?thesis
    using apart[OF segs(3), of segs'] apart[OF segs'(3), of segs] segs(2,3) segs'(2,3) ne
    unfolding separate_def comps parallel_def by auto
qed

lemma valid_media_types:
  "m \<in> {''text/html'', ''application/json'', ''application/xml'', ''text/plain; charset=utf-8'', ''application/vnd.rpm'',
     ''application/vnd.debian.binary-package'', ''application/zstd'', ''application/gzip'', ''application/octet-stream'',
     EMPTY_CONFIG_MEDIA_TYPE}
   \<Longrightarrow> m \<noteq> [] \<and> length m \<le> 256 \<and> list_all is_ascii m \<and> trim_str m = m
     \<and> \<not> list_ex (\<lambda>byte. byte_val byte < (32::nat) \<or> byte_val byte = (127::nat)) m"
  by (elim insertE; hypsubst?; (code_simp | simp))

lemma media_type_for_cases:
  "media_type_for t \<in> {''text/html'', ''application/json'', ''application/xml'', ''text/plain; charset=utf-8'', ''application/vnd.rpm'',
     ''application/vnd.debian.binary-package'', ''application/zstd'', ''application/gzip'', ''application/octet-stream''}"
  unfolding media_type_for_def Let_def by (simp only: insert_iff simp_thms split: if_split)

text \<open>The members that the derived \<open>Serialize\<close> writes are the ones that the derived \<open>Deserialize\<close> reads.\<close>

definition descriptor_sizes :: "publisher_descriptor \<Rightarrow> bool" where
  "descriptor_sizes d \<longleftrightarrow> pd_size d < U64_LIMIT \<and> bt_wf (pd_annotations d)"

definition manifest_sizes :: "publisher_manifest \<Rightarrow> bool" where
  "manifest_sizes m \<longleftrightarrow> pm_schema_version m < 256 \<and> bt_wf (pm_annotations m)
     \<and> descriptor_sizes (pm_config m) \<and> list_all descriptor_sizes (pm_layers m)"

lemma file_layer_sizes [simp]: "descriptor_sizes (file_layer t d n) \<longleftrightarrow> n < U64_LIMIT" "pd_size (file_layer t d n) = n"
proof -
  have "bt_wf (pd_annotations (file_layer t d n))" by (simp add: file_layer_def bt_simps del: bt_insert.simps)
  then show "descriptor_sizes (file_layer t d n) \<longleftrightarrow> n < U64_LIMIT" by (simp add: descriptor_sizes_def) (simp add: file_layer_def)
qed (simp add: file_layer_def)

lemma descriptor_json: "descriptor_sizes d \<Longrightarrow> descriptor_of_json (descriptor_value d) = Some (read_descriptor d)"
  by (simp add: descriptor_sizes_def descriptor_value_def read_descriptor_def required_def defaulted_def DESCRIPTOR_FIELDS_def
      as_string_map_value)

lemma manifest_json: "manifest_sizes m \<Longrightarrow> manifest_of_json (manifest_value m) = Some (read_manifest m)"
  by (simp add: manifest_sizes_def manifest_value_def read_manifest_def required_def defaulted_def MANIFEST_FIELDS_def
      as_string_map_value as_u8_def descriptor_json o_def list_all_iff those_map_eq)

lemma collected_total:
  "collected_files lib root fs c \<Longrightarrow> sum_list (map (\<lambda>blob. length (pb_bytes blob)) (bt_values (co_blobs c))) \<le> MAX_PUBLICATION_BYTES"
  by (simp add: collected_files_def)

lemma collected_blobs:
  assumes "collected_files lib root fs c"
  shows "blob \<in> set (bt_values (co_blobs c)) \<Longrightarrow> \<exists>f \<in> set fs. blob = blob_for lib (snd f)"
    and "f \<in> set fs \<Longrightarrow> \<exists>blob \<in> set (bt_values (co_blobs c)). pb_digest blob = digest_bytes lib (snd f)"
proof -
  have wf: "bt_wf (co_blobs c)" using assms by (simp add: collected_files_def)
  have get: "bt_get (co_blobs c) d = Some blob \<Longrightarrow> \<exists>f \<in> set fs. blob = blob_for lib (snd f) \<and> d = digest_bytes lib (snd f)" for d blob
    using assms by (simp add: collected_files_def)
  show "blob \<in> set (bt_values (co_blobs c)) \<Longrightarrow> \<exists>f \<in> set fs. blob = blob_for lib (snd f)"
    using get by (auto simp: bt_values_set[OF wf])
  assume "f \<in> set fs"
  then obtain blob where blob: "bt_get (co_blobs c) (digest_bytes lib (snd f)) = Some blob"
    using assms by (auto simp: collected_files_def bt_contains_key_def)
  with get[OF blob] show "\<exists>blob \<in> set (bt_values (co_blobs c)). pb_digest blob = digest_bytes lib (snd f)"
    by (intro bexI[of _ blob]) (auto simp: bt_values_set[OF wf] blob_for_def)
qed

text \<open>The contract of the libraries: a JSON text is read back, and SHA-256 is 64 lowercase hexadecimal
  digits, with the known value at the empty configuration.\<close>

locale publisher_contract =
  json_codec "pl_json lib" json_of for lib :: publisher_lib and json_of :: "string \<Rightarrow> json option" +
  assumes sha_hex: "oci_valid_digest (digest_bytes lib b) = Ok (digest_bytes lib b)"
    and sha_empty: "digest_bytes lib EMPTY_CONFIG = EMPTY_CONFIG_DIGEST"
begin

lemma manifest_read:
  assumes "pl_manifest_json lib m = Some bytes" "manifest_sizes m"
  shows "from_slice json_of manifest_of_json bytes = Some (read_manifest m)"
  using assms decode_encode manifest_json by (simp add: pl_manifest_json_def from_slice_def)

lemma publication_sizes:
  assumes "\<forall>f \<in> set fs. publishable root (fst f) (snd f)"
  shows "manifest_sizes (publication_manifest lib (map (layer_for lib) fs))"
proof -
  have "list_all descriptor_sizes (map (layer_for lib) fs)"
    using assms by (fastforce simp: list_all_iff layer_for_def publishable_def MAX_PUBLICATION_BYTES_def)
  then show ?thesis
    by (simp add: manifest_sizes_def publication_manifest_def descriptor_sizes_def descriptor_plain_def EMPTY_CONFIG_def bt_wf_def)
qed

lemma layer_facts:
  "descriptor_title (read_descriptor (layer_for lib f)) = Some (fst f)"
  "is_autoindex_visible (read_descriptor (layer_for lib f))"
  "is_native_publisher_layer (read_descriptor (layer_for lib f))"
proof -
  let ?d = "read_descriptor (layer_for lib f)"
  have anns: "d_annotations ?d = pd_annotations (layer_for lib f)" by (simp add: read_descriptor_def)
  show title: "descriptor_title ?d = Some (fst f)"
    using annotations_differ by (simp add: descriptor_title_def anns layer_annotations)
  show vis: "is_autoindex_visible ?d" by (simp add: is_autoindex_visible_def anns layer_annotations)
  have "d_extra ?d = []" "d_media_type ?d = media_type_for (fst f)"
    by (simp_all add: read_descriptor_def layer_for_def file_layer_def)
  then show "is_native_publisher_layer ?d"
    using title vis by (simp add: is_native_publisher_layer_def anns layer_annotations(2))
qed

lemma valid_descriptor:
  assumes "d_digest d = digest_bytes lib b" "d_size d \<le> MAX_ARTIFACT_BYTES"
    and "d_media_type d = media_type_for t \<or> d_media_type d = EMPTY_CONFIG_MEDIA_TYPE"
  shows "validate_descriptor d = Ok ()"
proof -
  note valid = valid_media_types[of "d_media_type d"]
  have "d_media_type d \<noteq> [] \<and> length (d_media_type d) \<le> 256 \<and> list_all is_ascii (d_media_type d)
     \<and> trim_str (d_media_type d) = d_media_type d
     \<and> \<not> list_ex (\<lambda>byte. byte_val byte < (32::nat) \<or> byte_val byte = (127::nat)) (d_media_type d)"
    using assms(3) media_type_for_cases[of t] by (intro valid) auto
  then show ?thesis
    using assms(1,2) sha_hex[of b] unfolding validate_descriptor_def Let_def by simp
qed

lemma layer_valid:
  assumes "publishable root (fst f) (snd f)"
  shows "layer_ok (read_descriptor (layer_for lib f))" "layer_object (read_descriptor (layer_for lib f)) = object_for lib f"
proof -
  have "validate_descriptor (read_descriptor (layer_for lib f)) = Ok ()"
    using assms by (intro valid_descriptor[of _ "snd f" "fst f"])
      (simp_all add: read_descriptor_def layer_for_def file_layer_def publishable_def MAX_PUBLICATION_BYTES_def MAX_ARTIFACT_BYTES_def)
  then show "layer_ok (read_descriptor (layer_for lib f))"
    using assms layer_facts(1)[of f] by (auto simp: layer_ok_def publishable_def)
  show "layer_object (read_descriptor (layer_for lib f)) = object_for lib f"
    using layer_facts(1)[of f] by (simp add: layer_object_def object_for_def) (simp add: read_descriptor_def layer_for_def file_layer_def)
qed

lemma native_manifest:
  assumes files: "\<forall>f \<in> set fs. publishable root (fst f) (snd f)" and titles: "sorted_wrt (<) (map fst fs)" and ne: "fs \<noteq> []"
  defines "m \<equiv> read_manifest (publication_manifest lib (map (layer_for lib) fs))"
  shows "manifest_ok m" "crud_compatible m" "layer_object ` set (visible_layers m) = object_for lib ` set fs"
proof -
  have layers: "m_layers m = map (\<lambda>f. read_descriptor (layer_for lib f)) fs"
    by (simp add: m_def read_manifest_def publication_manifest_def)
  have visible: "visible_layers m = m_layers m"
    unfolding visible_layers_def layers using layer_facts(2) by (simp add: filter_map o_def)
  have objs: "map layer_object (visible_layers m) = map (object_for lib) fs"
    using files layer_valid(2)[of root] by (simp add: visible layers)
  have config: "m_config m = descriptor_new EMPTY_CONFIG_MEDIA_TYPE EMPTY_CONFIG_DIGEST 2"
    using sha_empty by (simp add: m_def read_manifest_def publication_manifest_def read_descriptor_def descriptor_plain_def
      descriptor_new_def EMPTY_CONFIG_def)
  have fixed: "m_schema_version m = 2" "m_media_type m = MANIFEST_MEDIA_TYPE" "m_extra m = []"
    "m_annotations m = [(PUBLISHER_ANNOTATION, PUBLISHER_VERSION)]"
    by (simp_all add: m_def read_manifest_def publication_manifest_def)
  have "validate_descriptor (m_config m) = Ok ()"
    using sha_empty by (intro valid_descriptor[of _ EMPTY_CONFIG]) (simp_all add: config descriptor_new_def MAX_ARTIFACT_BYTES_def)
  then have standard: "validate_standard_manifest m = Ok ()" by (simp add: validate_standard_manifest_def fixed)
  have "list_all layer_ok (visible_layers m)"
    using files layer_valid(1)[of root] by (simp add: visible layers list_all_iff)
  moreover have "mutually_separate (map (object_for lib) fs)"
    unfolding mutually_separate_def sorted_wrt_map
  proof (rule sorted_wrt_pairs)
    show "distinct fs" using titles by (metis distinct_map strict_sorted_iff)
    fix f g assume fg: "f \<in> set fs" "g \<in> set fs" "f \<noteq> g"
    have "inj_on fst (set fs)" using titles by (metis distinct_map strict_sorted_iff)
    then have "fst f \<noteq> fst g" using fg by (auto dest: inj_onD)
    then show "separate (vo_path (object_for lib f)) (vo_path (object_for lib g))"
      using publishable_separate[of root "fst f" "snd f" "fst g" "snd g"] files fg by (simp add: object_for_def)
  qed
  ultimately show "manifest_ok m" using standard by (simp add: manifest_ok_def objs)
  have "list_all (\<lambda>(a, b). fst a < fst b) (windows2 fs)"
    using titles sorted_windows2[of "\<lambda>a b. fst a < fst b" fs] by (simp add: sorted_wrt_map)
  then have windows: "list_all (\<lambda>(a, b). case (descriptor_title a, descriptor_title b) of
           (Some left, Some right) \<Rightarrow> left < right | _ \<Rightarrow> False) (windows2 (m_layers m))"
    unfolding layers windows2_def using layer_facts(1)
    by (induction fs rule: induct_list012) simp_all
  show "crud_compatible m"
    using ne windows layer_facts(3) unfolding crud_compatible_def fixed config
    by (simp add: layers list_all_iff descriptor_new_def bt_get_def)
  show "layer_object ` set (visible_layers m) = object_for lib ` set fs"
    using objs by (metis set_map)
qed

text \<open>The client accepts what the publisher makes.\<close>

lemma published_projection:
  assumes "from_files lib (Some root) paths = Ok p"
  shows "\<exists>s. parse_autoindex_manifest (from_slice json_of manifest_of_json) (pn_manifest p) = Ok s \<and> as_crud_compatible s \<and> index_wf (as_index s)
     \<and> (\<exists>fs. set (index_objects (as_index s)) = object_for lib ` set fs \<and> set (pn_paths p) = fst ` set fs
          \<and> (\<forall>f \<in> set fs. publishable root (fst f) (snd f)) \<and> map relative_title paths = map (\<lambda>f. Ok (fst f)) fs
          \<and> (\<forall>f \<in> set fs. \<exists>blob \<in> set (pn_blobs p). pb_digest blob = digest_bytes lib (snd f)))"
proof -
  obtain fs c manifest where fs: "collected_files lib root fs c" "fs \<noteq> []" "map relative_title paths = map (\<lambda>f. Ok (fst f)) fs"
    and manifest: "pl_manifest_json lib (publication_manifest lib (map (layer_for lib) (sort_key fst fs))) = Some manifest"
    and p: "p = publication_of lib fs (bt_values (co_blobs c)) manifest"
    using from_files_Ok[OF assms] by blast
  let ?gs = "sort_key fst fs"
  have files: "\<forall>f \<in> set ?gs. publishable root (fst f) (snd f)" and dist: "distinct (map fst ?gs)"
    using fs(1) by (auto simp: collected_files_def distinct_map)
  have titles: "sorted_wrt (<) (map fst ?gs)" using dist by (simp add: strict_sorted_iff)
  have ne: "?gs \<noteq> []" using fs(2) by (metis set_sort set_empty)
  note native = native_manifest[OF files titles ne]
  note de = manifest_read[OF manifest publication_sizes[OF files]]
  obtain s where s: "parse_autoindex_manifest (from_slice json_of manifest_of_json) manifest = Ok s"
    using parse_autoindex_manifest_Ok(1)[where de = "from_slice json_of manifest_of_json" and bytes = manifest, OF de] native(1) by (auto simp: is_ok_iff)
  have blobs: "\<forall>f \<in> set fs. \<exists>blob \<in> set (pn_blobs p). pb_digest blob = digest_bytes lib (snd f)"
    using collected_blobs(2)[OF fs(1)] by (auto simp: p publication_of_def)
  show ?thesis
    using s parse_autoindex_manifest_Ok(2)[where de = "from_slice json_of manifest_of_json" and bytes = manifest, OF de s] native(2,3) files fs(3) blobs
    by (intro exI[of _ s] conjI exI[of _ fs]) (simp_all add: p publication_of_def)
qed

end

subsection \<open>The walk finds every file\<close>

definition files_below :: "node \<Rightarrow> string list set" where
  "files_below n = {segs. \<exists>l c. find_node n segs = Some (FileNode l c)}"

lemma files_below_simps:
  "files_below (FileNode l c) = {[]}" "files_below SymlinkNode = {}" "files_below OtherNode = {}"
proof -
  show "files_below (FileNode l c) = {[]}"
    by (rule set_eqI, case_tac x) (auto simp: files_below_def)
  show "files_below SymlinkNode = {}" "files_below OtherNode = {}"
    by (auto simp: files_below_def) (case_tac x, simp_all)+
qed

lemma files_below_directory:
  assumes "distinct (map fst es)"
  shows "files_below (DirNode b es) = {name # segs | name segs n. (name, n) \<in> set es \<and> segs \<in> files_below n}"
proof (rule set_eqI)
  fix p
  show "p \<in> files_below (DirNode b es) \<longleftrightarrow> p \<in> {name # segs | name segs n. (name, n) \<in> set es \<and> segs \<in> files_below n}"
    using assms by (cases p) (auto simp: files_below_def split: option.splits dest: map_of_is_SomeI[OF assms] intro: map_of_is_SomeI)
qed

lemma collect_files_set:
  "wf_node n \<Longrightarrow> collect_files n path depth fs = Ok r \<Longrightarrow>
     \<exists>new. r = fs @ new \<and> set new = (\<lambda>segs. join_with SLASH (path @ segs)) ` files_below n"
  "distinct (map fst es) \<Longrightarrow> list_all (\<lambda>(name, n). wf_node n) es \<Longrightarrow> collect_entries es path depth fs = Ok r \<Longrightarrow>
     \<exists>new. r = fs @ new \<and> set new = (\<lambda>segs. join_with SLASH (path @ segs)) ` files_below (DirNode True es)"
proof (induction n path depth fs and es path depth fs arbitrary: r and r rule: collect_files_collect_entries.induct)
  case (1 directory path depth fs)
  then obtain es where d: "directory = DirNode True es" "\<not> depth > MAX_PATH_SEGMENTS"
    "collect_entries (sort_key fst es) path depth fs = Ok r"
    by (auto split: if_splits node.splits bool.splits)
  have wf: "distinct (map fst es)" "list_all (\<lambda>(name, n). wf_node n) es"
    using "1.prems"(1) d(1) by (auto simp: list_all_iff)
  have dist: "distinct (map fst (sort_key fst es))" using wf(1) by (simp add: distinct_map)
  have "files_below (DirNode True (sort_key fst es)) = files_below (DirNode True es)"
    by (simp add: files_below_directory[OF dist] files_below_directory[OF wf(1)])
  with "1.IH"[OF d(2,1) refl dist _ d(3)] wf(2) d(1) show ?case by (simp add: list_all_iff)
next
  case (2 path depth fs)
  then show ?case by (simp add: files_below_directory)
next
  case (3 name n es path depth fs)
  have dist: "distinct (map fst es)" and wf: "wf_node n" "list_all (\<lambda>(name, n). wf_node n) es"
    using "3.prems" by simp_all
  let ?join = "\<lambda>segs. join_with SLASH (path @ segs)"
  have split: "?join ` files_below (DirNode True ((name, n) # es))
     = (\<lambda>segs. join_with SLASH ((path @ [name]) @ segs)) ` files_below n \<union> ?join ` files_below (DirNode True es)"
    using "3.prems"(1) dist by (auto simp: files_below_directory image_iff) blast+
  show ?case
  proof (cases n)
    case (FileNode l c)
    have rest: "collect_entries es path depth (fs @ [?join [name]]) = Ok r" "\<exists>t. relative_title (?join [name]) = Ok t"
      "\<not> length (fs @ [?join [name]]) > MAX_PUBLICATION_FILES"
      using "3.prems"(3) FileNode by (auto simp: Let_def split: if_splits)
    then obtain new where "r = (fs @ [?join [name]]) @ new" "set new = ?join ` files_below (DirNode True es)"
      using "3.IH"(1)[OF FileNode refl] dist wf(2) by auto
    then show ?thesis
      using split[unfolded FileNode files_below_simps] by (intro exI[of _ "?join [name] # new"]) (simp add: FileNode)
  next
    case (DirNode b ds)
    obtain q where q: "collect_files n (path @ [name]) (depth + 1) fs = Ok q" "collect_entries es path depth q = Ok r"
      using "3.prems"(3) DirNode by auto
    obtain new1 where n1: "q = fs @ new1" "set new1 = (\<lambda>segs. join_with SLASH ((path @ [name]) @ segs)) ` files_below n"
      using "3.IH"(2)[OF DirNode wf(1) q(1)] by blast
    obtain new2 where n2: "r = q @ new2" "set new2 = ?join ` files_below (DirNode True es)"
      using "3.IH"(3)[OF DirNode dist wf(2) q(2)] by blast
    show ?thesis unfolding split by (intro exI[of _ "new1 @ new2"]) (simp add: n1 n2)
  qed (use "3.prems"(3) in simp_all)
qed

lemma find_node_names: "wf_node n \<Longrightarrow> find_node n segs = Some m \<Longrightarrow> list_all file_name_ok segs"
proof (induction n segs rule: find_node.induct)
  case (2 listable es name names)
  then obtain n where n: "map_of es name = Some n" "find_node n names = Some m" by (auto split: option.splits)
  then have "(name, n) \<in> set es" by (simp add: map_of_SomeD)
  with "2.prems"(1) have "file_name_ok name" "wf_node n" by (auto simp: list_all_iff)
  with "2.IH"[OF n(1) _ n(2)] show ?case by simp
qed simp_all

lemma from_directory_files:
  assumes wf: "wf_node root" and p: "from_directory lib (Some root) = Ok p"
  shows "\<exists>paths. from_files lib (Some root) paths = Ok p \<and> set paths = join_with SLASH ` files_below root
     \<and> (\<exists>b es. root = DirNode b es)"
proof -
  obtain rel where rel: "validate_root (Some root) = Ok ()" "collect_files root [] 0 [] = Ok rel"
    "from_files lib (Some root) (sort_key path_components rel) = Ok p"
    using p by (auto simp: from_directory_def)
  moreover have "set rel = join_with SLASH ` files_below root"
    using collect_files_set(1)[OF wf rel(2)] by auto
  moreover have "\<exists>b es. root = DirNode b es" using rel(1) by (cases root) auto
  ultimately show ?thesis by (intro exI[of _ "sort_key path_components rel"]) simp
qed

context publisher_contract
begin

lemma published_directory:
  assumes wf: "wf_node root" and p: "from_directory lib (Some root) = Ok p"
  shows "\<exists>s. parse_autoindex_manifest (from_slice json_of manifest_of_json) (pn_manifest p) = Ok s \<and> as_crud_compatible s \<and> index_wf (as_index s)
     \<and> set (index_objects (as_index s)) = {object_for lib (join_with SLASH segs, b) | segs b.
          find_node root segs = Some (FileNode (length b) (Some b))}
     \<and> set (pn_paths p) = join_with SLASH ` files_below root"
proof -
  obtain paths es b0 where paths: "from_files lib (Some root) paths = Ok p" "set paths = join_with SLASH ` files_below root"
    "root = DirNode b0 es" using from_directory_files[OF assms] by blast
  obtain s fs where s: "parse_autoindex_manifest (from_slice json_of manifest_of_json) (pn_manifest p) = Ok s" "as_crud_compatible s" "index_wf (as_index s)"
    and objs: "set (index_objects (as_index s)) = object_for lib ` set fs" "set (pn_paths p) = fst ` set fs"
    and files: "\<forall>f \<in> set fs. publishable root (fst f) (snd f)" and titles: "map relative_title paths = map (\<lambda>f. Ok (fst f)) fs"
    using published_projection[OF paths(1)] by blast
  have names: "segs \<noteq> [] \<and> list_all file_name_ok segs" if below: "segs \<in> files_below root" for segs
  proof -
    obtain l c where found: "find_node root segs = Some (FileNode l c)" using below by (auto simp: files_below_def)
    then have "segs \<noteq> []" using paths(3) by auto
    with find_node_names[OF wf found] show ?thesis by simp
  qed
  have title: "t = path" if parsed: "relative_title path = Ok t" and given: "path \<in> set paths" for t path
  proof -
    obtain segs where segs: "path = join_with SLASH segs" "segs \<in> files_below root" using given paths(2) by auto
    obtain ss where ss: "path_components path = map Normal ss" "t = join_with SLASH ss" using relative_title_Ok[OF parsed] by blast
    have "map Normal ss = map Normal segs" using path_components_join names[OF segs(2)] segs(1) ss(1) by simp
    then have "ss = segs" by (metis list.inj_map_strong path_component.inject)
    with segs(1) ss(2) show ?thesis by simp
  qed
  have set_titles: "Ok ` fst ` set fs = relative_title ` set paths"
    using arg_cong[OF titles, of set] by (simp add: image_image)
  have fst: "fst ` set fs = join_with SLASH ` files_below root"
  proof (intro subset_antisym subsetI)
    fix t assume "t \<in> fst ` set fs"
    then have "Ok t \<in> relative_title ` set paths" using set_titles by blast
    then obtain path where "path \<in> set paths" "relative_title path = Ok t" by (metis imageE)
    with title paths(2) show "t \<in> join_with SLASH ` files_below root" by blast
  next
    fix t assume t: "t \<in> join_with SLASH ` files_below root"
    then have "relative_title t \<in> relative_title ` set paths" using paths(2) by simp
    then have "relative_title t \<in> Ok ` fst ` set fs" by (simp only: set_titles)
    then obtain u where "relative_title t = Ok u" "u \<in> fst ` set fs" by (rule imageE)
    with title[of t u] t paths(2) show "t \<in> fst ` set fs" by simp
  qed
  have pub: "publishable root t b \<Longrightarrow> \<exists>segs. t = join_with SLASH segs \<and> find_node root segs = Some (FileNode (length b) (Some b))" for t b
    by (auto simp: publishable_def path_string_def)
  have "object_for lib ` set fs = {object_for lib (join_with SLASH segs, b) | segs b.
          find_node root segs = Some (FileNode (length b) (Some b))}"
  proof (intro subset_antisym subsetI)
    fix x assume "x \<in> object_for lib ` set fs"
    then obtain f where f: "f \<in> set fs" "x = object_for lib f" by blast
    with files pub[of "fst f" "snd f"] show "x \<in> {object_for lib (join_with SLASH segs, b) | segs b.
          find_node root segs = Some (FileNode (length b) (Some b))}" by (cases f) force
  next
    fix x assume "x \<in> {object_for lib (join_with SLASH segs, b) | segs b.
          find_node root segs = Some (FileNode (length b) (Some b))}"
    then obtain segs b where x: "x = object_for lib (join_with SLASH segs, b)"
      and b: "find_node root segs = Some (FileNode (length b) (Some b))" by blast
    then have below: "segs \<in> files_below root" by (auto simp: files_below_def)
    then obtain f where f: "f \<in> set fs" "fst f = join_with SLASH segs" using fst by (metis imageE imageI)
    obtain ss where ss: "fst f = join_with SLASH ss" "find_node root ss = Some (FileNode (length (snd f)) (Some (snd f)))"
      using files f(1) pub by blast
    have "ss \<in> files_below root" using ss(2) by (auto simp: files_below_def)
    then have "ss = segs" using names below f(2) ss(1) split_file_names by metis
    with ss(2) b have "snd f = b" by simp
    then have "f = (join_with SLASH segs, b)" using f(2) by (cases f) simp
    with f(1) x show "x \<in> object_for lib ` set fs" by blast
  qed
  with s objs fst show ?thesis by (intro exI[of _ s]) simp
qed

lemma published_object_blobs:
  assumes "from_files lib (Some root) paths = Ok p"
    and "parse_autoindex_manifest (from_slice json_of manifest_of_json) (pn_manifest p) = Ok s" "obj \<in> set (index_objects (as_index s))"
  shows "\<exists>blob \<in> set (pn_blobs p). pb_digest blob = vo_digest obj"
  using published_projection[OF assms(1)] assms(2,3) by (fastforce simp: object_for_def)

end

subsection \<open>The blobs\<close>

lemma config_blob:
  assumes "from_files lib (Some root) paths = Ok p"
  shows "blob_for lib EMPTY_CONFIG \<in> set (pn_blobs p)"
  using from_files_Ok[OF assms] by (auto simp: publication_of_def)

text \<open>The distinct contents of a publication, its titles and their number.\<close>

lemma publication_blobs:
  assumes "from_files lib (Some root) paths = Ok p"
  shows "\<forall>blob \<in> set (pn_blobs p). pb_digest blob = digest_bytes lib (pb_bytes blob)"
    and "sorted (map pb_digest (pn_blobs p))"
    and "sum_list (map (\<lambda>blob. length (pb_bytes blob)) (pn_blobs p)) \<le> MAX_PUBLICATION_BYTES + 2"
    and "sorted_wrt (<) (pn_paths p)" and "length (pn_paths p) = length paths" and "length paths \<le> MAX_PUBLICATION_FILES"
    and "\<exists>layers. pl_manifest_json lib (publication_manifest lib layers) = Some (pn_manifest p)
      \<and> map layer_title layers = map Some (pn_paths p)
      \<and> (\<forall>layer \<in> set layers. \<exists>blob \<in> set (pn_blobs p). pb_digest blob = pd_digest layer)"
    and "pn_manifest_digest p = digest_bytes lib (pn_manifest p) \<and> pn_manifest_size p = length (pn_manifest p)"
proof -
  obtain fs c manifest where fs: "collected_files lib root fs c" "map relative_title paths = map (\<lambda>f. Ok (fst f)) fs"
    and manifest: "pl_manifest_json lib (publication_manifest lib (map (layer_for lib) (sort_key fst fs))) = Some manifest"
    and p: "p = publication_of lib fs (bt_values (co_blobs c)) manifest"
    using from_files_Ok[OF assms] by blast
  have set_blobs: "set (pn_blobs p) = insert (blob_for lib EMPTY_CONFIG) (set (bt_values (co_blobs c)))"
    by (simp add: p publication_of_def)
  show "\<forall>blob \<in> set (pn_blobs p). pb_digest blob = digest_bytes lib (pb_bytes blob)"
    using collected_blobs(1)[OF fs(1)] by (fastforce simp: set_blobs blob_for_def)
  show "sorted (map pb_digest (pn_blobs p))" by (simp add: p publication_of_def)
  have "sum_list (map (\<lambda>blob. length (pb_bytes blob)) (pn_blobs p))
      = sum_list (map (\<lambda>blob. length (pb_bytes blob)) (bt_values (co_blobs c) @ [blob_for lib EMPTY_CONFIG]))"
    unfolding p publication_of_def publication.simps
    by (simp only: sum_mset_sum_list[symmetric] mset_map mset_sort)
  then show "sum_list (map (\<lambda>blob. length (pb_bytes blob)) (pn_blobs p)) \<le> MAX_PUBLICATION_BYTES + 2"
    using collected_total[OF fs(1)] by (simp add: blob_for_def EMPTY_CONFIG_def)
  have dist: "distinct (map fst fs)" using fs(1) by (simp add: collected_files_def)
  then show "sorted_wrt (<) (pn_paths p)"
    by (simp add: p publication_of_def strict_sorted_iff distinct_map)
  have len: "length paths = length fs" using arg_cong[OF fs(2), of length] by simp
  then show "length (pn_paths p) = length paths" "length paths \<le> MAX_PUBLICATION_FILES"
    using fs(1) by (simp_all add: p publication_of_def collected_files_def)
  show "\<exists>layers. pl_manifest_json lib (publication_manifest lib layers) = Some (pn_manifest p)
      \<and> map layer_title layers = map Some (pn_paths p)
      \<and> (\<forall>layer \<in> set layers. \<exists>blob \<in> set (pn_blobs p). pb_digest blob = pd_digest layer)"
  proof (intro exI conjI ballI)
    show "pl_manifest_json lib (publication_manifest lib (map (layer_for lib) (sort_key fst fs))) = Some (pn_manifest p)"
      using manifest by (simp add: p publication_of_def)
    show "map layer_title (map (layer_for lib) (sort_key fst fs)) = map Some (pn_paths p)"
      by (simp add: p publication_of_def)
    fix layer assume "layer \<in> set (map (layer_for lib) (sort_key fst fs))"
    then obtain f where f: "f \<in> set fs" "layer = layer_for lib f" by auto
    obtain blob where "blob \<in> set (bt_values (co_blobs c))" "pb_digest blob = digest_bytes lib (snd f)"
      using collected_blobs(2)[OF fs(1) f(1)] by blast
    then show "\<exists>blob \<in> set (pn_blobs p). pb_digest blob = pd_digest layer"
      by (intro bexI[of _ blob]) (simp_all add: set_blobs f(2) layer_for_def file_layer_def)
  qed
  show "pn_manifest_digest p = digest_bytes lib (pn_manifest p) \<and> pn_manifest_size p = length (pn_manifest p)"
    by (simp add: p publication_of_def)
qed

subsection \<open>The order of the files\<close>

lemma publishable_unique: "publishable root t b \<Longrightarrow> publishable root t b' \<Longrightarrow> b = b'"
proof -
  assume "publishable root t b" "publishable root t b'"
  then obtain segs segs' where s: "path_spec segs False" "t = path_string segs False"
    "find_node root segs = Some (FileNode (length b) (Some b))"
    and s': "path_spec segs' False" "t = path_string segs' False"
    "find_node root segs' = Some (FileNode (length b') (Some b'))" unfolding publishable_def by blast
  have "path_string segs False = path_string segs' False" by (rule trans[OF s(2)[symmetric] s'(2)])
  moreover have "split_on SLASH (path_string ss False) = ss" if "path_spec ss False" for ss
    using split_path_string[of ss False] that by (simp add: path_spec_def)
  ultimately have "segs = segs'" using s(1) s'(1) by metis
  with s(3) s'(3) show "b = b'" by simp
qed

definition tree_contents :: "node \<Rightarrow> string set" where
  "tree_contents root = {b. \<exists>segs l. find_node root segs = Some (FileNode l (Some b))}"

lemma same_files_same_publication:
  assumes inj: "inj_on (pl_sha lib) (tree_contents root)"
    and p: "from_files lib (Some root) paths = Ok p" and p': "from_files lib (Some root) paths' = Ok p'"
    and same: "set paths = set paths'"
  shows "p = p'"
proof -
  obtain fs c manifest where fs: "collected_files lib root fs c" "map relative_title paths = map (\<lambda>f. Ok (fst f)) fs"
    and manifest: "pl_manifest_json lib (publication_manifest lib (map (layer_for lib) (sort_key fst fs))) = Some manifest"
    and pub: "p = publication_of lib fs (bt_values (co_blobs c)) manifest"
    using from_files_Ok[OF p] by blast
  obtain fs' c' manifest' where fs': "collected_files lib root fs' c'" "map relative_title paths' = map (\<lambda>f. Ok (fst f)) fs'"
    and manifest': "pl_manifest_json lib (publication_manifest lib (map (layer_for lib) (sort_key fst fs'))) = Some manifest'"
    and pub': "p' = publication_of lib fs' (bt_values (co_blobs c')) manifest'"
    using from_files_Ok[OF p'] by blast
  have eq: "(Ok :: string \<Rightarrow> publisher_error + string) ` fst ` set fs = Ok ` fst ` set fs'"
    using arg_cong[OF fs(2), of set] arg_cong[OF fs'(2), of set] same by (simp add: image_image)
  have titles: "fst ` set fs = fst ` set fs'" using eq by (simp add: inj_image_eq_iff)
  have good: "f \<in> set fs \<Longrightarrow> publishable root (fst f) (snd f)" "f \<in> set fs' \<Longrightarrow> publishable root (fst f) (snd f)" for f
    using fs(1) fs'(1) by (auto simp: collected_files_def)
  have incl: "set gs \<subseteq> set gs'"
    if "fst ` set gs = fst ` set gs'" "\<And>f. f \<in> set gs \<Longrightarrow> publishable root (fst f) (snd f)"
      "\<And>f. f \<in> set gs' \<Longrightarrow> publishable root (fst f) (snd f)" for gs gs'
  proof
    fix f assume f: "f \<in> set gs"
    then have "fst f \<in> fst ` set gs'" using that(1) by blast
    then obtain g where g: "g \<in> set gs'" "fst g = fst f" by (metis imageE)
    then have "snd g = snd f" using publishable_unique[of root "fst f"] that(2)[OF f] that(3)[OF g(1)] by simp
    with g show "f \<in> set gs'" by (metis prod_eq_iff)
  qed
  have sets: "set fs = set fs'"
    using incl[OF titles good] incl[OF titles[symmetric] good(2,1)] by blast
  have dist: "distinct (map fst fs)" "distinct (map fst fs')" using fs(1) fs'(1) by (simp_all add: collected_files_def)
  have sorted: "sort_key fst fs = sort_key fst fs'"
    using dist sets by (intro map_sorted_distinct_set_unique[of fst]) (simp_all add: distinct_map)
  have same_get: "bt_get (co_blobs d) k = (if k \<in> (\<lambda>f. digest_bytes lib (snd f)) ` set gs
       then Some (blob_for lib (THE b. b \<in> snd ` set gs \<and> digest_bytes lib b = k)) else None)"
    if "collected_files lib root gs d" for gs d k
  proof (cases "bt_get (co_blobs d) k")
    case None
    then show ?thesis using that by (auto simp: collected_files_def bt_contains_key_def)
  next
    case (Some blob)
    then have "\<exists>f \<in> set gs. blob = blob_for lib (snd f) \<and> k = digest_bytes lib (snd f)"
      using that by (simp add: collected_files_def)
    then obtain f where f: "f \<in> set gs" "blob = blob_for lib (snd f)" "k = digest_bytes lib (snd f)" by blast
    have "snd g \<in> tree_contents root" if "g \<in> set gs" for g
    proof -
      have "publishable root (fst g) (snd g)" using \<open>collected_files lib root gs d\<close> that by (simp add: collected_files_def)
      then show ?thesis by (auto simp: publishable_def tree_contents_def)
    qed
    then have "b = snd f" if "b \<in> snd ` set gs" "digest_bytes lib b = k" for b
      using inj_onD[OF inj, of b "snd f"] f that by (auto simp: digest_bytes_def)
    then have "(THE b. b \<in> snd ` set gs \<and> digest_bytes lib b = k) = snd f"
      using f by (intro the_equality) auto
    with Some f show ?thesis by auto
  qed
  have "co_blobs c = co_blobs c'"
  proof (rule bt.lookup_inject)
    show "bt_wf (co_blobs c)" "bt_wf (co_blobs c')" using fs(1) fs'(1) by (simp_all add: collected_files_def)
    show "bt_get (co_blobs c) = bt_get (co_blobs c')"
      by (rule ext) (simp add: same_get[OF fs(1)] same_get[OF fs'(1)] sets)
  qed
  with sorted manifest manifest' show ?thesis by (simp add: pub pub' publication_of_def)
qed

subsection \<open>An example\<close>

definition sample_sha :: "string \<Rightarrow> string" where
  "sample_sha b = (if b = EMPTY_CONFIG then ''44136fa355b3678a1146ad16f7e8649e94fb4fc21fe77e8310c060f61caaff8a''
     else if b = ''hello'' then replicate 64 (CHR ''1'') else replicate 64 (CHR ''0''))"

definition sample_tree :: node where
  "sample_tree = DirNode True [(''b'', FileNode 5 (Some ''hello'')),
     (''a'', DirNode True [(''x.html'', FileNode 2 (Some ''{}'')), (''e'', DirNode True [])])]"

definition sample_published_layers :: "publisher_descriptor list" where
  "sample_published_layers = [file_layer ''a/x.html'' (''sha256:'' @ sample_sha ''{}'') 2, file_layer ''b'' (''sha256:'' @ sample_sha ''hello'') 5]"

definition sample_published_manifest :: publisher_manifest where
  "sample_published_manifest = \<lparr>pm_schema_version = 2, pm_media_type = MANIFEST_MEDIA_TYPE,
     pm_annotations = [(PUBLISHER_ANNOTATION, PUBLISHER_VERSION)],
     pm_config = descriptor_plain EMPTY_CONFIG_MEDIA_TYPE EMPTY_CONFIG_DIGEST 2, pm_layers = sample_published_layers\<rparr>"

definition sample_publisher_lib :: publisher_lib where
  "sample_publisher_lib = \<lparr>pl_sha = sample_sha, pl_json = write_json\<rparr>"

definition sample_text :: string where
  "sample_text = json_text (manifest_value sample_published_manifest)"

lemma object_text_sha: "sample_sha (json_text (JObj ((k, v) # ms))) = replicate 64 (CHR ''0'')"
  by (cases ms) (simp_all add: sample_sha_def EMPTY_CONFIG_def string_text_def)

lemma sample_text_sha: "sample_sha sample_text = replicate 64 (CHR ''0'')"
  by (simp add: sample_text_def manifest_value_def object_text_sha del: json_text.simps)

lemma sample_collect: "collect_files sample_tree [] 0 [] = Ok [''a/x.html'', ''b'']"
  by (simp add: sample_tree_def MAX_PATH_SEGMENTS_def MAX_PUBLICATION_FILES_def relative_title_def is_absolute_def path_components_def is_ascii_def)

lemma sample_config_digest: "digest_bytes sample_publisher_lib EMPTY_CONFIG = EMPTY_CONFIG_DIGEST"
  by (simp add: digest_bytes_def sample_publisher_lib_def sample_sha_def EMPTY_CONFIG_DIGEST_def)

lemma sample_valid_digest: "oci_valid_digest (digest_bytes sample_publisher_lib b) = Ok (digest_bytes sample_publisher_lib b)"
  by (simp add: oci_valid_digest_def digest_bytes_def sample_publisher_lib_def sample_sha_def is_ascii_hexdigit_def
     is_ascii_digit_def is_ascii_uppercase_def list_all_iff list_ex_iff)

interpretation sample: publisher_contract sample_publisher_lib read_json
proof
  show "read_json bytes = Some v" if "pl_json sample_publisher_lib v = Some bytes" for v bytes
    using that by (simp add: sample_publisher_lib_def json.decode_encode)
qed (rule sample_valid_digest sample_config_digest)+

text \<open>Manifests of the sizes that occur have a text.\<close>

lemma writable_string_map: "writable (string_map_value m)"
  by (auto simp: string_map_value_def)

lemma writable_descriptor: "pd_size d < U64_LIMIT \<Longrightarrow> writable (descriptor_value d)"
  using writable_number[of "pd_size d"] writable_string_map[of "pd_annotations d"]
  by (simp add: descriptor_value_def del: writable.simps(3))

lemma writable_manifest:
  assumes "manifest_sizes m"
  shows "writable (manifest_value m)"
proof -
  have "pm_schema_version m < U64_LIMIT" "pd_size (pm_config m) < U64_LIMIT" "\<forall>d \<in> set (pm_layers m). pd_size d < U64_LIMIT"
    using assms by (auto simp: manifest_sizes_def descriptor_sizes_def list_all_iff)
  then show ?thesis
    using writable_number[of "pm_schema_version m"] writable_descriptor writable_string_map[of "pm_annotations m"]
    by (simp add: manifest_value_def del: writable.simps(3))
qed

lemma sample_published: "publication_manifest sample_publisher_lib sample_published_layers = sample_published_manifest"
  by (simp add: publication_manifest_def sample_config_digest sample_published_manifest_def) (simp add: EMPTY_CONFIG_def numeral_2_eq_2)

lemma sample_published_sizes: "manifest_sizes sample_published_manifest"
  by (simp add: manifest_sizes_def sample_published_manifest_def sample_published_layers_def)
    (simp add: descriptor_sizes_def descriptor_plain_def bt_wf_def)

lemma sample_manifest_json:
  "pl_manifest_json sample_publisher_lib (publication_manifest sample_publisher_lib sample_published_layers) = Some sample_text"
proof -
  have "writable (manifest_value sample_published_manifest)" using sample_published_sizes by (rule writable_manifest)
  then show ?thesis
    unfolding sample_published by (simp add: pl_manifest_json_def sample_publisher_lib_def write_json_def sample_text_def)
qed

lemmas sample_file_defs = add_file_def relative_title_def is_absolute_def path_components_def is_ascii_def relative_path_parse_def
     contains_any_def is_safe_path_byte_def byte_defs MAX_PATH_BYTES_def Autoindex.MAX_PATH_SEGMENTS_def collection_empty_def
     bt_contains_key_def bt_get_def MAX_PUBLICATION_FILES_def validate_source_path_def sample_tree_def MAX_PUBLICATION_BYTES_def
     read_exactly_def extend_def layer_for_def blob_for_def suffix_def checked_add_def Let_def

lemma sample_digests:
  "digest_bytes sample_publisher_lib ''{}'' = EMPTY_CONFIG_DIGEST"
  "digest_bytes sample_publisher_lib ''hello'' = ''sha256:'' @ replicate 64 (CHR ''1'')"
  using sample_config_digest by (simp_all add: EMPTY_CONFIG_def) (simp add: digest_bytes_def sample_publisher_lib_def sample_sha_def EMPTY_CONFIG_def)

definition sample_first :: collection where
  "sample_first = \<lparr>co_titles = [(''a/x.html'', ())], co_blobs = [(EMPTY_CONFIG_DIGEST, \<lparr>pb_digest = EMPTY_CONFIG_DIGEST, pb_bytes = ''{}''\<rparr>)],
     co_layers = [file_layer ''a/x.html'' EMPTY_CONFIG_DIGEST 2], co_total_bytes = 2\<rparr>"

lemma sample_add_first: "add_file sample_publisher_lib sample_tree collection_empty ''a/x.html'' = Ok sample_first"
  by (simp add: sample_file_defs sample_digests(1) sample_first_def numeral_2_eq_2)

definition sample_hello :: string where "sample_hello = ''sha256:'' @ replicate 64 (CHR ''1'')"

definition sample_second :: collection where
  "sample_second = \<lparr>co_titles = [(''a/x.html'', ()), (''b'', ())],
     co_blobs = bt_insert sample_hello \<lparr>pb_digest = sample_hello, pb_bytes = ''hello''\<rparr> (co_blobs sample_first),
     co_layers = [file_layer ''a/x.html'' EMPTY_CONFIG_DIGEST 2, file_layer ''b'' sample_hello 5], co_total_bytes = 7\<rparr>"

lemma sample_hello_new: "EMPTY_CONFIG_DIGEST \<noteq> sample_hello"
  by code_simp

lemma sample_add_second: "add_file sample_publisher_lib sample_tree sample_first ''b'' = Ok sample_second"
  using sample_hello_new sample_digests(2)[folded sample_hello_def]
  by (simp add: sample_file_defs sample_first_def sample_second_def less_list_code del: bt_insert.simps(2)) simp

lemma sample_layers:
  "sort_key layer_title (co_layers sample_second) = sample_published_layers"
proof -
  have second: "co_layers sample_second = map (layer_for sample_publisher_lib) [(''a/x.html'', ''{}''), (''b'', ''hello'')]"
    by (simp add: sample_second_def layer_for_def sample_digests sample_hello_def numeral_2_eq_2 eval_nat_numeral)
  have sorted: "sort_key fst [(''a/x.html'', ''{}''), (''b'', ''hello'')] = [(''a/x.html'', ''{}''), (''b'', ''hello'')]"
    by code_simp
  have layers: "sample_published_layers = map (layer_for sample_publisher_lib) [(''a/x.html'', ''{}''), (''b'', ''hello'')]"
    by (simp add: sample_published_layers_def layer_for_def digest_bytes_def sample_publisher_lib_def eval_nat_numeral)
  show ?thesis unfolding second layers sorted_layers sorted ..
qed

definition sample_publication :: publication where
  "sample_publication = \<lparr>pn_manifest = sample_text, pn_manifest_digest = ''sha256:'' @ replicate 64 (CHR ''0''),
     pn_manifest_size = length sample_text,
     pn_blobs = sort_key pb_digest (bt_values (co_blobs sample_second) @ [\<lparr>pb_digest = EMPTY_CONFIG_DIGEST, pb_bytes = EMPTY_CONFIG\<rparr>]),
     pn_paths = [''a/x.html'', ''b'']\<rparr>"

lemma sample_finish: "finish sample_publisher_lib sample_second = Ok sample_publication"
proof -
  have ne: "co_layers sample_second \<noteq> []" by (simp add: sample_second_def)
  have "List.map_filter layer_title sample_published_layers = [''a/x.html'', ''b'']"
    using layer_title_for[of sample_publisher_lib "(''a/x.html'', ''{}'')"] layer_title_for[of sample_publisher_lib "(''b'', ''hello'')"]
    by (simp add: sample_published_layers_def layer_for_def digest_bytes_def sample_publisher_lib_def eval_nat_numeral List.map_filter_simps)
  then show ?thesis
    using ne by (simp add: finish_def sample_layers sample_manifest_json sample_publication_def sample_config_digest Let_def)
      (simp add: digest_bytes_def sample_publisher_lib_def sample_text_sha)
qed

lemma sample_from_files:
  "from_files sample_publisher_lib (Some sample_tree) [''a/x.html'', ''b''] = Ok sample_publication"
  by (simp add: from_files_def sample_add_first sample_add_second sample_finish) (simp add: sample_tree_def)

lemma sample_from_directory: "from_directory sample_publisher_lib (Some sample_tree) = Ok sample_publication"
proof -
  have sorted: "sort_key path_components [''a/x.html'', ''b''] = [''a/x.html'', ''b'']" by code_simp
  have root: "validate_root (Some sample_tree) = Ok ()" by (simp add: sample_tree_def)
  show ?thesis
    unfolding from_directory_def root sample_collect and_then.simps option.sel sorted by (rule sample_from_files)
qed

lemma sample_tree_wf: "wf_node sample_tree"
  by (simp add: sample_tree_def file_name_ok_def)

subsection \<open>Properties\<close>

text \<open>C7. What the publisher makes, the client reads: the manifest of a directory's publication is
  accepted by \<open>parse_autoindex_manifest\<close> as editable, and its index holds exactly the regular files of
  the tree, each under its path with the digest, media type and size of its bytes.\<close>

theorem published_files_projected:
  assumes "publisher_contract lib json_of" and "wf_node root" and "from_directory lib (Some root) = Ok p"
  shows "\<exists>s. parse_autoindex_manifest (from_slice json_of manifest_of_json) (pn_manifest p) = Ok s \<and> as_crud_compatible s \<and> index_wf (as_index s)
     \<and> set (index_objects (as_index s)) = {object_for lib (join_with SLASH segs, b) | segs b.
          find_node root segs = Some (FileNode (length b) (Some b))}
     \<and> set (pn_paths p) = join_with SLASH ` files_below root"
  by (rule publisher_contract.published_directory[OF assms])

theorem published_files_projected_witness:
  "from_directory sample_publisher_lib (Some sample_tree) = Ok sample_publication
   \<and> (\<exists>s. parse_autoindex_manifest (from_slice read_json manifest_of_json) sample_text = Ok s \<and> as_crud_compatible s)"
proof -
  have "\<exists>s. parse_autoindex_manifest (from_slice read_json manifest_of_json) (pn_manifest sample_publication) = Ok s \<and> as_crud_compatible s"
    using published_files_projected[OF sample.publisher_contract_axioms sample_tree_wf sample_from_directory] by blast
  then show ?thesis using sample_from_directory by (simp add: sample_publication_def)
qed

text \<open>C32. The two ends agree on the manifest document: the members that the publisher writes, in whatever
  order they arrive, are the ones the client reads, and every field has the value that was written, for
  every manifest whose numbers and maps are those of its types.\<close>

theorem manifest_document_read:
  assumes sizes: "manifest_sizes m" and ms: "manifest_value m = JObj ms" "mset ms' = mset ms"
  shows "manifest_of_json (JObj ms') = Some (read_manifest m)"
proof -
  have names: "distinct (map fst ms)" "fst ` set ms \<subseteq> set MANIFEST_FIELDS"
    using ms(1) by (auto simp: manifest_value_def MANIFEST_FIELDS_def)
  have "unknown_members MANIFEST_FIELDS ms' = []" "unknown_members MANIFEST_FIELDS ms = []"
    using names(2) mset_eq_setD[OF ms(2)] by (auto simp: unknown_members_def filter_empty_conv)
  then have "flattened MANIFEST_FIELDS ms' = flattened MANIFEST_FIELDS ms" by simp
  with members_of_permuted[OF names(1) ms(2)] have "manifest_of_json (JObj ms') = manifest_of_json (JObj ms)"
    by (simp add: required_def defaulted_def)
  with manifest_json[OF sizes] ms(1) show ?thesis by simp
qed

theorem manifest_document_read_witness:
  "manifest_of_json (JObj (rev [(''schemaVersion'', JNum (PosInt 2)), (''mediaType'', JStr MANIFEST_MEDIA_TYPE),
      (''annotations'', string_map_value [(PUBLISHER_ANNOTATION, PUBLISHER_VERSION)]),
      (''config'', descriptor_value (pm_config sample_published_manifest)),
      (''layers'', JArr (map descriptor_value sample_published_layers))]))
   = Some (read_manifest sample_published_manifest)"
  by (rule manifest_document_read[OF sample_published_sizes _ mset_rev]) (simp add: manifest_value_def sample_published_manifest_def)

text \<open>C31. A publication is well formed: every blob is stored under the digest of its bytes and the blobs are
  in the order of their digests, the manifest has its own digest and size, its layers are the paths in
  strictly ascending order, each layer's blob is there, and the distinct contents are at most 64 MiB (and
  the two bytes of the configuration) in at most ten thousand files.\<close>

theorem publication_well_formed:
  assumes "from_files lib (Some root) paths = Ok p"
  shows "(\<forall>blob \<in> set (pn_blobs p). pb_digest blob = digest_bytes lib (pb_bytes blob)) \<and> sorted (map pb_digest (pn_blobs p))
    \<and> pn_manifest_digest p = digest_bytes lib (pn_manifest p) \<and> pn_manifest_size p = length (pn_manifest p)
    \<and> (\<exists>layers. pl_manifest_json lib (publication_manifest lib layers) = Some (pn_manifest p)
         \<and> map layer_title layers = map Some (pn_paths p)
         \<and> (\<forall>layer \<in> set layers. \<exists>blob \<in> set (pn_blobs p). pb_digest blob = pd_digest layer))
    \<and> sorted_wrt (<) (pn_paths p) \<and> length (pn_paths p) = length paths \<and> length paths \<le> 10000
    \<and> sum_list (map (\<lambda>blob. length (pb_bytes blob)) (pn_blobs p)) \<le> 64 * 1024 * 1024 + 2"
  using publication_blobs[OF assms] by (simp add: MAX_PUBLICATION_FILES_def MAX_PUBLICATION_BYTES_def)

theorem publication_well_formed_witness:
  "from_files sample_publisher_lib (Some sample_tree) [''a/x.html'', ''b''] = Ok sample_publication
   \<and> sorted_wrt (<) (pn_paths sample_publication)"
  using publication_well_formed[OF sample_from_files] sample_from_files by simp

text \<open>C33. The publication does not depend on the order in which the files are given: two lists of the same
  files that are both accepted give the same manifest, digests, blobs and paths, if no two contents of
  the tree have the same SHA-256.\<close>

theorem publication_order_irrelevant:
  assumes "inj_on (pl_sha lib) (tree_contents root)" and "from_files lib (Some root) paths = Ok p"
    and "from_files lib (Some root) paths' = Ok p'" and "set paths = set paths'"
  shows "p = p'"
  by (rule same_files_same_publication[OF assms])

lemma sample_contents: "tree_contents sample_tree = {''hello'', ''{}''}"
proof -
  have files: "find_node sample_tree segs = Some (FileNode l (Some b)) \<longleftrightarrow>
      segs = [''b''] \<and> l = 5 \<and> b = ''hello'' \<or> segs = [''a'', ''x.html''] \<and> l = 2 \<and> b = ''{}''" for segs l b
    unfolding sample_tree_def by (cases segs; cases "tl segs"; cases "tl (tl segs)") (auto split: if_splits)
  show ?thesis unfolding tree_contents_def files by auto
qed

lemma sample_reversed: "\<exists>p. from_files sample_publisher_lib (Some sample_tree) [''b'', ''a/x.html''] = Ok p"
proof -
  define c where "c = \<lparr>co_titles = [(''b'', ())], co_blobs = [(sample_hello, \<lparr>pb_digest = sample_hello, pb_bytes = ''hello''\<rparr>)],
     co_layers = [file_layer ''b'' sample_hello 5], co_total_bytes = 5\<rparr>"
  have first: "add_file sample_publisher_lib sample_tree collection_empty ''b'' = Ok c"
    using sample_digests(2)[folded sample_hello_def] by (simp add: sample_file_defs c_def)
  define d where "d = \<lparr>co_titles = bt_insert ''a/x.html'' () [(''b'', ())],
     co_blobs = bt_insert EMPTY_CONFIG_DIGEST \<lparr>pb_digest = EMPTY_CONFIG_DIGEST, pb_bytes = ''{}''\<rparr> (co_blobs c),
     co_layers = [file_layer ''b'' sample_hello 5, file_layer ''a/x.html'' EMPTY_CONFIG_DIGEST 2], co_total_bytes = 7\<rparr>"
  have titles: "bt_insert ''a/x.html'' () [(''b'', ())] = [(''a/x.html'', ()), (''b'', ())]" by code_simp
  have second: "add_file sample_publisher_lib sample_tree c ''a/x.html'' = Ok d"
    using sample_hello_new sample_digests(1)
    by (simp add: sample_file_defs c_def d_def titles del: bt_insert.simps(2))
  have d: "co_layers d = [file_layer ''b'' sample_hello 5, file_layer ''a/x.html'' EMPTY_CONFIG_DIGEST 2]" by (simp add: d_def)
  have layers: "co_layers d = map (layer_for sample_publisher_lib) [(''b'', ''hello''), (''a/x.html'', ''{}'')]"
    by (simp add: d layer_for_def sample_digests sample_hello_def eval_nat_numeral)
  have sorted: "sort_key fst [(''b'', ''hello''), (''a/x.html'', ''{}'')] = [(''a/x.html'', ''{}''), (''b'', ''hello'')]"
    by code_simp
  have published: "sample_published_layers = map (layer_for sample_publisher_lib) [(''a/x.html'', ''{}''), (''b'', ''hello'')]"
    by (simp add: sample_published_layers_def layer_for_def digest_bytes_def sample_publisher_lib_def eval_nat_numeral)
  have "sort_key layer_title (co_layers d) = sample_published_layers"
    unfolding layers sorted_layers sorted published ..
  moreover have "co_layers d \<noteq> []" by (simp add: d)
  ultimately have "\<exists>p. finish sample_publisher_lib d = Ok p"
    by (simp add: finish_def sample_manifest_json Let_def)
  then show ?thesis by (simp add: from_files_def first second) (simp add: sample_tree_def)
qed

theorem publication_order_irrelevant_witness:
  "from_files sample_publisher_lib (Some sample_tree) [''b'', ''a/x.html''] = Ok sample_publication"
proof -
  have inj: "inj_on (pl_sha sample_publisher_lib) (tree_contents sample_tree)"
    using sample_hello_new sample_digests[folded sample_hello_def]
    by (auto simp: sample_contents digest_bytes_def)
  obtain p where p: "from_files sample_publisher_lib (Some sample_tree) [''b'', ''a/x.html''] = Ok p"
    using sample_reversed by blast
  have "p = sample_publication"
    by (rule publication_order_irrelevant[OF inj p sample_from_files]) auto
  with p show ?thesis by simp
qed

end
