(* ===== verification/Layout.thy ===== *)
theory Layout
  imports Publication
begin

text \<open>
  The OCI layout on disk: what a finished layout holds and what a failed one leaves behind.
\<close>

subsection \<open>Actions on the destination\<close>

definition dest_bytes :: "disk \<Rightarrow> string list \<Rightarrow> string option" where
  "dest_bytes d = (case dk_destination d of Some n \<Rightarrow> file_bytes n | None \<Rightarrow> Map.empty)"

lemma disk_op_inside_Ok:
  assumes "disk_op (inside f) d = (Ok (), d')"
  shows "\<exists>n n'. dk_destination d = Some n \<and> f n = Some n' \<and> dk_destination d' = Some n'"
  using assms by (auto simp: disk_op_def inside_def bind_eq_Some_conv Let_def split: option.splits if_splits)

lemma run_actions_append:
  "run_actions (xs @ ys) d = (case run_actions xs d of (Err e, d) \<Rightarrow> (Err e, d) | (Ok _, d) \<Rightarrow> run_actions ys d)"
  by (induction xs arbitrary: d) (auto split: prod.splits sum.splits)

lemma run_actions_Ok [simp]:
  "run_actions [] d = (Ok (), d') \<longleftrightarrow> d' = d"
  "run_actions (a # as) d = (Ok (), d') \<longleftrightarrow> (\<exists>e. a d = (Ok (), e) \<and> run_actions as e = (Ok (), d'))"
  by (auto split: prod.splits sum.splits)

lemma run_actions_append_Ok:
  "run_actions (xs @ ys) d = (Ok (), d') \<longleftrightarrow> (\<exists>e. run_actions xs d = (Ok (), e) \<and> run_actions ys e = (Ok (), d'))"
  by (simp add: run_actions_append split: prod.splits sum.splits)

lemma store_Ok:
  assumes "store p c d = (Ok (), d')"
  shows "\<exists>bytes. c = Some bytes \<and> dest_bytes d' = (dest_bytes d)(p \<mapsto> bytes) \<and> dk_destination d \<noteq> None \<and> dk_destination d' \<noteq> None"
proof -
  obtain bytes where c: "c = Some bytes" "disk_op (inside (\<lambda>n. write_node n p bytes)) d = (Ok (), d')"
    using assms by (auto simp: store_def split: option.splits)
  from disk_op_inside_Ok[OF c(2)] c(1) show ?thesis by (auto simp: dest_bytes_def tree.put_contents)
qed

definition blob_path :: "string \<Rightarrow> string list" where
  "blob_path hex = blob_directory @ [hex]"

lemma write_blob_Ok:
  assumes "write_blob (''sha256:'' @ hex) bytes d = (Ok (), d')"
  shows "dest_bytes d' = (dest_bytes d)(blob_path hex \<mapsto> bytes) \<and> dk_destination d' \<noteq> None"
proof -
  have "write_blob (''sha256:'' @ hex) bytes d = store (blob_path hex) (Some bytes) d"
    unfolding write_blob_def strip_prefix_append by (simp add: blob_path_def)
  with assms have "store (blob_path hex) (Some bytes) d = (Ok (), d')" by simp
  from store_Ok[OF this] show ?thesis by auto
qed

text \<open>The files of a layout, the last of a path first.\<close>

definition blob_files :: "publisher_lib \<Rightarrow> publication \<Rightarrow> (string list \<times> string) list" where
  "blob_files lib p = map (\<lambda>blob. (blob_path (pl_sha lib (pb_bytes blob)), pb_bytes blob)) (pn_blobs p)
     @ [(blob_path (pl_sha lib (pn_manifest p)), pn_manifest p)]"

lemma write_blobs_Ok:
  assumes "run_actions (map (\<lambda>blob. write_blob (pb_digest blob) (pb_bytes blob)) blobs) d = (Ok (), d')"
    and "\<forall>blob \<in> set blobs. pb_digest blob = digest_bytes lib (pb_bytes blob)"
    and "dk_destination d \<noteq> None"
  shows "dk_destination d' \<noteq> None
    \<and> dest_bytes d' = dest_bytes d ++ map_of (rev (map (\<lambda>blob. (blob_path (pl_sha lib (pb_bytes blob)), pb_bytes blob)) blobs))"
  using assms
proof (induction blobs arbitrary: d)
  case (Cons blob blobs)
  obtain e where e: "write_blob (pb_digest blob) (pb_bytes blob) d = (Ok (), e)"
    "run_actions (map (\<lambda>blob. write_blob (pb_digest blob) (pb_bytes blob)) blobs) e = (Ok (), d')"
    using Cons.prems(1) by (auto simp del: run_actions.simps)
  have "dest_bytes e = (dest_bytes d)(blob_path (pl_sha lib (pb_bytes blob)) \<mapsto> pb_bytes blob) \<and> dk_destination e \<noteq> None"
    using e(1) Cons.prems(2) by (intro write_blob_Ok) (simp add: digest_bytes_def)
  with Cons.IH[OF e(2)] Cons.prems(2) show ?case by (auto simp: fun_eq_iff map_add_def split: option.splits)
qed simp

text \<open>What a finished layout holds.\<close>

lemma write_layout_contents_Ok:
  assumes run: "write_layout_contents lib p reference d = (Ok (), d')"
    and blobs: "\<forall>blob \<in> set (pn_blobs p). pb_digest blob = digest_bytes lib (pb_bytes blob)"
    and manifest: "pn_manifest_digest p = digest_bytes lib (pn_manifest p)"
  shows "\<exists>layout index. pl_layout_json lib OCI_LAYOUT_VERSION = Some layout
     \<and> pl_index_json lib (publication_index p reference) = Some index \<and> dk_destination d' \<noteq> None
     \<and> dest_bytes d' = (dest_bytes d ++ map_of (rev (blob_files lib p)))([''oci-layout''] \<mapsto> layout, [''index.json''] \<mapsto> index)"
proof -
  let ?blobs = "map (\<lambda>blob. write_blob (pb_digest blob) (pb_bytes blob)) (pn_blobs p)"
  obtain d1 d2 where d1: "disk_op (inside (\<lambda>n. create_dir_all n blob_directory)) d = (Ok (), d1)"
    and d2: "run_actions ?blobs d1 = (Ok (), d2)"
    and rest: "run_actions [write_blob (pn_manifest_digest p) (pn_manifest p),
         store [''oci-layout''] (pl_layout_json lib OCI_LAYOUT_VERSION),
         store [''index.json''] (pl_index_json lib (publication_index p reference))] d2 = (Ok (), d')"
    using run unfolding write_layout_contents_def run_actions_append_Ok run_actions_Ok by blast
  obtain d3 d4 where d3: "write_blob (pn_manifest_digest p) (pn_manifest p) d2 = (Ok (), d3)"
    and d4: "store [''oci-layout''] (pl_layout_json lib OCI_LAYOUT_VERSION) d3 = (Ok (), d4)"
    and d5: "store [''index.json''] (pl_index_json lib (publication_index p reference)) d4 = (Ok (), d')"
    using rest unfolding run_actions_Ok by blast
  have one: "dest_bytes d1 = dest_bytes d \<and> dk_destination d1 \<noteq> None"
    using disk_op_inside_Ok[OF d1] by (auto simp: dest_bytes_def tree.make_dirs_contents)
  have three: "dest_bytes d3 = (dest_bytes d2)(blob_path (pl_sha lib (pn_manifest p)) \<mapsto> pn_manifest p)"
    using write_blob_Ok[OF d3[unfolded manifest digest_bytes_def]] by simp
  have two: "dest_bytes d2 = dest_bytes d1 ++ map_of (rev (map (\<lambda>blob. (blob_path (pl_sha lib (pb_bytes blob)), pb_bytes blob)) (pn_blobs p)))"
    using write_blobs_Ok[OF d2 blobs] one by blast
  obtain layout where four: "pl_layout_json lib OCI_LAYOUT_VERSION = Some layout" "dest_bytes d4 = (dest_bytes d3)([''oci-layout''] \<mapsto> layout)"
    using store_Ok[OF d4] by blast
  obtain index where five: "pl_index_json lib (publication_index p reference) = Some index"
    "dest_bytes d' = (dest_bytes d4)([''index.json''] \<mapsto> index)" "dk_destination d' \<noteq> None"
    using store_Ok[OF d5] by blast
  show ?thesis
    using one two three four five by (intro exI[of _ layout] exI[of _ index]) (simp add: blob_files_def)
qed

lemma create_destination_Ok:
  "create_destination d = (Ok (), d') \<Longrightarrow> dk_destination d = None \<and> dk_destination d' = Some (DirNode True [])"
  by (auto simp: create_destination_def disk_op_def Let_def split: option.splits if_splits)

lemma write_oci_layout_Ok:
  assumes run: "write_oci_layout lib p reference d = (Ok (), d')"
    and blobs: "\<forall>blob \<in> set (pn_blobs p). pb_digest blob = digest_bytes lib (pb_bytes blob)"
    and manifest: "pn_manifest_digest p = digest_bytes lib (pn_manifest p)"
  shows "dk_destination d = None \<and> validate_reference reference = Ok () \<and> (\<exists>layout index.
       pl_layout_json lib OCI_LAYOUT_VERSION = Some layout \<and> pl_index_json lib (publication_index p reference) = Some index
     \<and> dk_destination d' \<noteq> None
     \<and> dest_bytes d' = (map_of (rev (blob_files lib p)))([''oci-layout''] \<mapsto> layout, [''index.json''] \<mapsto> index))"
proof -
  obtain d1 where d1: "validate_reference reference = Ok ()" "create_destination d = (Ok (), d1)"
    "write_layout_contents lib p reference d1 = (Ok (), d')"
    using run by (auto simp: write_oci_layout_def split: sum.splits prod.splits)
  have "dest_bytes d1 = Map.empty" using create_destination_Ok[OF d1(2)] by (simp add: dest_bytes_def file_bytes_empty)
  with write_layout_contents_Ok[OF d1(3) blobs manifest] create_destination_Ok[OF d1(2)] d1(1) show ?thesis by simp
qed

text \<open>Blobs in a layout: a file under the digest of its own bytes.\<close>

definition held :: "publisher_lib \<Rightarrow> node \<Rightarrow> string \<Rightarrow> bool" where
  "held lib layout digest \<longleftrightarrow>
     (\<exists>bytes. digest = digest_bytes lib bytes \<and> file_bytes layout (blob_path (pl_sha lib bytes)) = Some bytes)"

lemma blob_path_simps [simp]: "blob_path a = blob_path b \<longleftrightarrow> a = b" "blob_path a \<noteq> [x]" "[x] \<noteq> blob_path a"
  by (auto simp: blob_path_def blob_directory_def)

lemma blob_files_path: "(path, bytes) \<in> set (blob_files lib p) \<Longrightarrow> path = blob_path (pl_sha lib bytes)"
  by (auto simp: blob_files_def)

lemma layout_holds:
  assumes layout: "file_bytes layout = (map_of (rev (blob_files lib p)))([''oci-layout''] \<mapsto> marker, [''index.json''] \<mapsto> listing)"
  shows "\<exists>blob \<in> set (pn_blobs p). digest_bytes lib (pb_bytes blob) = digest \<Longrightarrow> held lib layout digest"
    and "file_bytes layout (blob_path (pl_sha lib (pn_manifest p))) = Some (pn_manifest p)"
    and "file_bytes layout path = Some bytes \<Longrightarrow> path \<in> {[''oci-layout''], [''index.json'']} \<or> path = blob_path (pl_sha lib bytes)"
proof -
  have names: "[''oci-layout''] \<noteq> [''index.json'']" by simp
  have blob: "file_bytes layout (blob_path hex) = map_of (rev (blob_files lib p)) (blob_path hex)" for hex
    by (simp add: layout)
  show "held lib layout digest" if some: "\<exists>blob \<in> set (pn_blobs p). digest_bytes lib (pb_bytes blob) = digest"
  proof -
    obtain b where b: "b \<in> set (pn_blobs p)" "digest = digest_bytes lib (pb_bytes b)" using some by blast
    let ?path = "blob_path (pl_sha lib (pb_bytes b))"
    have "?path \<in> fst ` set (rev (blob_files lib p))" using b(1) by (auto simp: blob_files_def image_iff)
    then obtain bytes where bytes: "map_of (rev (blob_files lib p)) ?path = Some bytes"
      by (metis map_of_eq_None_iff not_Some_eq)
    then have "(?path, bytes) \<in> set (blob_files lib p)" using map_of_SomeD by fastforce
    then have "pl_sha lib bytes = pl_sha lib (pb_bytes b)" using blob_files_path by fastforce
    then show ?thesis using b(2) bytes blob unfolding held_def digest_bytes_def by metis
  qed
  show "file_bytes layout (blob_path (pl_sha lib (pn_manifest p))) = Some (pn_manifest p)"
    by (simp add: blob blob_files_def)
  show "path \<in> {[''oci-layout''], [''index.json'']} \<or> path = blob_path (pl_sha lib bytes)" if "file_bytes layout path = Some bytes"
  proof (rule ccontr)
    assume other: "\<not> ?thesis"
    then have "map_of (rev (blob_files lib p)) path = Some bytes" using that by (simp add: layout)
    then have "(path, bytes) \<in> set (blob_files lib p)" using map_of_SomeD by fastforce
    with blob_files_path other show False by blast
  qed
qed

text \<open>Failure.\<close>

lemma create_destination_Err:
  "create_destination d = (Err e, d') \<Longrightarrow> dk_destination d' = dk_destination d"
  by (auto simp: create_destination_def disk_op_def Let_def split: option.splits if_splits)

lemma disk_op_remove:
  "snd (disk_op (\<lambda>_. Some None) d) = d' \<Longrightarrow> dk_destination d' = None \<or> dk_faults d = True # dk_faults d'"
  by (cases "dk_faults d") (auto simp: disk_op_def Let_def split: if_splits)

lemma disk_op_faults: "disk_op f d = (r, d') \<Longrightarrow> dk_faults d' = tl (dk_faults d)"
  by (auto simp: disk_op_def Let_def split: option.splits if_splits)

lemma drops_faults:
  "disk_op f d = (r, d') \<Longrightarrow> suffix (dk_faults d') (dk_faults d)"
  "store p c d = (r, d') \<Longrightarrow> suffix (dk_faults d') (dk_faults d)"
  "write_blob g b d = (r, d') \<Longrightarrow> suffix (dk_faults d') (dk_faults d)"
proof -
  show op: "disk_op f d = (r, d') \<Longrightarrow> suffix (dk_faults d') (dk_faults d)" for f r d d'
    using disk_op_faults[of f d r d'] by (simp add: suffix_tl)
  show st: "store p c d = (r, d') \<Longrightarrow> suffix (dk_faults d') (dk_faults d)" for p c r d d'
    by (auto simp: store_def split: option.splits intro: op)
  show "write_blob g b d = (r, d') \<Longrightarrow> suffix (dk_faults d') (dk_faults d)"
    by (auto simp: write_blob_def split: option.splits intro: st)
qed

lemma run_actions_drops:
  assumes "\<And>a e r e'. a \<in> set acts \<Longrightarrow> a e = (r, e') \<Longrightarrow> suffix (dk_faults e') (dk_faults e)"
  shows "run_actions acts d = (r, d') \<Longrightarrow> suffix (dk_faults d') (dk_faults d)"
  using assms
proof (induction acts arbitrary: d)
  case (Cons a acts)
  obtain s e where a: "a d = (s, e)" by (cases "a d")
  have first: "suffix (dk_faults e) (dk_faults d)" using Cons.prems(2)[of a d s e] a by simp
  show ?case
  proof (cases s)
    case (Inl x)
    with Cons.prems(1) a first show ?thesis by simp
  next
    case (Inr u)
    with Cons.prems(1) a have "run_actions acts e = (r, d')" by simp
    from Cons.IH[OF this] Cons.prems(2) have "suffix (dk_faults d') (dk_faults e)" by (meson list.set_intros(2))
    with first show ?thesis by (rule suffix_order.trans[rotated])
  qed
qed simp

lemma write_layout_contents_drops:
  "write_layout_contents lib p reference d = (r, d') \<Longrightarrow> suffix (dk_faults d') (dk_faults d)"
  unfolding write_layout_contents_def
  by (erule run_actions_drops[rotated]) (auto intro: drops_faults)

lemma write_oci_layout_Err:
  assumes run: "write_oci_layout lib p reference d = (Err e, d')"
  shows "dk_destination d' = dk_destination d \<or> dk_destination d = None \<and> (\<exists>used. dk_faults d = used @ True # dk_faults d')"
proof (cases "validate_reference reference")
  case (Inl x)
  with run show ?thesis by (simp add: write_oci_layout_def)
next
  case (Inr u)
  obtain s d1 where d1: "create_destination d = (s, d1)" by (cases "create_destination d")
  show ?thesis
  proof (cases s)
    case (Inl x)
    with run Inr d1 have "d' = d1" by (simp add: write_oci_layout_def)
    with create_destination_Err d1 Inl show ?thesis by simp
  next
    case ok: (Inr v)
    obtain t d2 where d2: "write_layout_contents lib p reference d1 = (t, d2)" by (cases "write_layout_contents lib p reference d1")
    have d': "d' = snd (disk_op (\<lambda>_. Some None) d2)"
      using run Inr d1 ok d2 by (cases t) (simp_all add: write_oci_layout_def)
    have absent: "dk_destination d = None" using create_destination_Ok d1 ok by (metis old.unit.exhaust)
    have "create_destination d = disk_op (\<lambda>_. Some (Some (DirNode True []))) d"
      using absent by (simp add: create_destination_def)
    with d1 drops_faults(1) have "suffix (dk_faults d1) (dk_faults d)" by metis
    then have "suffix (dk_faults d2) (dk_faults d)"
      using write_layout_contents_drops[OF d2] suffix_order.trans by blast
    with disk_op_remove[OF d'[symmetric]] absent show ?thesis
      by (metis suffixE)
  qed
qed

text \<open>C14. A layout is written as a whole or not at all. If writing it succeeds, the destination was absent
  and is now a directory with the two marker files, with every blob and the manifest under
  \<open>blobs/sha256\<close>, and there every name is the SHA-256 of the bytes it holds. If it fails, the destination
  is what it was before, unless removing the half-written directory was itself the operation that
  failed; an existing destination is never touched.\<close>

theorem layout_complete_or_absent:
  assumes "from_files lib (Some root) paths = Ok p"
  shows "case write_oci_layout lib p reference d of
      (Ok _, d') \<Rightarrow> dk_destination d = None
        \<and> dest_bytes d' [''oci-layout''] = pl_layout_json lib OCI_LAYOUT_VERSION
        \<and> dest_bytes d' [''index.json''] = pl_index_json lib (publication_index p reference)
        \<and> (\<forall>blob \<in> set (pn_blobs p). dest_bytes d' (blob_path (pl_sha lib (pb_bytes blob))) \<noteq> None)
        \<and> dest_bytes d' (blob_path (pl_sha lib (pn_manifest p))) \<noteq> None
        \<and> (\<forall>hex bytes. dest_bytes d' (blob_path hex) = Some bytes \<longrightarrow> hex = pl_sha lib bytes)
    | (Err e, d') \<Rightarrow> dk_destination d' = dk_destination d
        \<or> dk_destination d = None \<and> (\<exists>used. dk_faults d = used @ True # dk_faults d')"
proof -
  obtain r d' where run: "write_oci_layout lib p reference d = (r, d')" by (cases "write_oci_layout lib p reference d")
  show ?thesis
  proof (cases r)
    case (Inl e)
    with write_oci_layout_Err run show ?thesis by simp
  next
    case (Inr u)
    note blobs = publication_blobs(1)[OF assms] and manifest = conjunct1[OF publication_blobs(8)[OF assms]]
    obtain layout index where files: "dk_destination d = None" "pl_layout_json lib OCI_LAYOUT_VERSION = Some layout"
      "pl_index_json lib (publication_index p reference) = Some index"
      "dest_bytes d' = (map_of (rev (blob_files lib p)))([''oci-layout''] \<mapsto> layout, [''index.json''] \<mapsto> index)"
      using write_oci_layout_Ok[OF _ blobs manifest, of reference d d'] run Inr by auto
    have paths: "blob_path hex \<noteq> [''oci-layout'']" "blob_path hex \<noteq> [''index.json'']"
      "blob_path hex = blob_path hex' \<longleftrightarrow> hex = hex'" for hex hex'
      by (simp_all add: blob_path_def blob_directory_def)
    have there: "dest_bytes d' (fst f) \<noteq> None" if "f \<in> set (blob_files lib p)" for f
      using that map_of_eq_None_iff[of "rev (blob_files lib p)" "fst f"] by (simp add: files(4))
    have named: "hex = pl_sha lib bytes" if "dest_bytes d' (blob_path hex) = Some bytes" for hex bytes
    proof -
      have "map_of (rev (blob_files lib p)) (blob_path hex) = Some bytes" using that paths by (simp add: files(4))
      then have "(blob_path hex, bytes) \<in> set (blob_files lib p)" by (metis map_of_SomeD set_rev)
      then show ?thesis by (auto simp: blob_files_def paths(3))
    qed
    have "dest_bytes d' (blob_path (pl_sha lib (pb_bytes blob))) \<noteq> None" if "blob \<in> set (pn_blobs p)" for blob
      using there[of "(blob_path (pl_sha lib (pb_bytes blob)), pb_bytes blob)"] that by (simp add: blob_files_def)
    moreover have "dest_bytes d' (blob_path (pl_sha lib (pn_manifest p))) \<noteq> None"
      using there[of "(blob_path (pl_sha lib (pn_manifest p)), pn_manifest p)"] by (simp add: blob_files_def)
    moreover have "dest_bytes d' [''oci-layout''] = Some layout" "dest_bytes d' [''index.json''] = Some index"
      by (simp_all add: files(4))
    ultimately show ?thesis using named by (simp add: run Inr files(1-3))
  qed
qed

text \<open>Only the texts of the two marker files depend on the encoder.\<close>

definition layout_lib :: "string \<Rightarrow> string \<Rightarrow> publisher_lib" where
  "layout_lib marker listing = \<lparr>pl_sha = sample_sha,
     pl_json = (\<lambda>v. case v of JObj [_] \<Rightarrow> Some marker | _ \<Rightarrow> Some listing)\<rparr>"

lemma write_oci_layout_lib:
  assumes "pl_layout_json lib OCI_LAYOUT_VERSION = Some marker" "pl_index_json lib (publication_index p reference) = Some listing"
  shows "write_oci_layout lib p reference = write_oci_layout (layout_lib marker listing) p reference"
proof -
  have "pl_layout_json (layout_lib marker listing) OCI_LAYOUT_VERSION = Some marker"
    "pl_index_json (layout_lib marker listing) (publication_index p reference) = Some listing"
    by (simp_all add: layout_lib_def pl_layout_json_def layout_value_def pl_index_json_def index_value_def)
  with assms have same: "write_layout_contents lib p reference = write_layout_contents (layout_lib marker listing) p reference"
    by (simp add: write_layout_contents_def fun_eq_iff)
  show ?thesis by (rule ext) (simp only: write_oci_layout_def same)
qed

lemma sample_jsons:
  assumes "pl_json lib = write_json" "pn_manifest_size p < U64_LIMIT"
  shows "\<exists>marker listing. pl_layout_json lib OCI_LAYOUT_VERSION = Some marker
    \<and> pl_index_json lib (publication_index p reference) = Some listing"
proof -
  have "writable (layout_value OCI_LAYOUT_VERSION)" by (simp add: layout_value_def)
  moreover have "writable (JNum (PosInt 2))" using writable_number[of 2] by simp
  then have "writable (index_value (publication_index p reference))"
    using writable_number[OF assms(2)] writable_string_map[of "bt_insert REF_NAME_ANNOTATION reference []"]
    by (simp add: index_value_def publication_index_def layout_descriptor_value_def del: writable.simps(3) bt_insert.simps)
  ultimately show ?thesis using assms(1) by (simp add: pl_layout_json_def pl_index_json_def write_json_def)
qed

lemma sample_text_size: "length sample_text < 1000"
  by code_simp

lemma sample_layout:
  "\<exists>marker listing. pl_layout_json sample_publisher_lib OCI_LAYOUT_VERSION = Some marker
    \<and> write_oci_layout sample_publisher_lib sample_publication ''v1''
      = write_oci_layout (layout_lib marker listing) sample_publication ''v1''"
  using sample_jsons[of sample_publisher_lib sample_publication "''v1''"] sample_text_size write_oci_layout_lib
  by (simp add: sample_publisher_lib_def sample_publication_def) blast

lemma layout_lib_writes:
  "fst (write_oci_layout (layout_lib marker listing) (sample_publication\<lparr>pn_manifest := m, pn_manifest_size := k\<rparr>) ''v1''
     \<lparr>dk_destination = None, dk_faults = []\<rparr>) = Ok ()"
  by code_simp

lemma layout_lib_fails:
  "dk_destination (snd (write_oci_layout (layout_lib marker listing) (sample_publication\<lparr>pn_manifest := m, pn_manifest_size := k\<rparr>) ''v1''
     \<lparr>dk_destination = None, dk_faults = [False, False, True]\<rparr>)) = None"
  by code_simp

lemma sample_same: "sample_publication\<lparr>pn_manifest := sample_text, pn_manifest_size := length sample_text\<rparr> = sample_publication"
  by (simp add: sample_publication_def)

lemma sample_layout_written:
  "fst (write_oci_layout sample_publisher_lib sample_publication ''v1'' \<lparr>dk_destination = None, dk_faults = []\<rparr>) = Ok ()"
  using sample_layout layout_lib_writes[where m = sample_text and k = "length sample_text"] unfolding sample_same by fastforce

lemma sample_layout_fails:
  "dk_destination (snd (write_oci_layout sample_publisher_lib sample_publication ''v1''
     \<lparr>dk_destination = None, dk_faults = [False, False, True]\<rparr>)) = None"
  using sample_layout layout_lib_fails[where m = sample_text and k = "length sample_text"] unfolding sample_same by fastforce

theorem layout_complete_or_absent_witness:
  "from_files sample_publisher_lib (Some sample_tree) [''a/x.html'', ''b''] = Ok sample_publication
   \<and> (\<exists>d'. write_oci_layout sample_publisher_lib sample_publication ''v1'' \<lparr>dk_destination = None, dk_faults = []\<rparr> = (Ok (), d')
        \<and> dest_bytes d' [''oci-layout''] = Some (json_text (JObj [(''imageLayoutVersion'', JStr ''1.0.0'')])))"
proof -
  define d where "d = \<lparr>dk_destination = None, dk_faults = []\<rparr>"
  obtain r d' where run: "write_oci_layout sample_publisher_lib sample_publication ''v1'' d = (r, d')"
    by (cases "write_oci_layout sample_publisher_lib sample_publication ''v1'' d")
  then have "r = Ok ()" using sample_layout_written by (simp add: d_def)
  with layout_complete_or_absent[OF sample_from_files, where reference = "''v1''" and d = d] run
  have "write_oci_layout sample_publisher_lib sample_publication ''v1'' d = (Ok (), d')
      \<and> dest_bytes d' [''oci-layout''] = Some (json_text (JObj [(''imageLayoutVersion'', JStr ''1.0.0'')]))"
    by (simp add: sample_publisher_lib_def OCI_LAYOUT_VERSION_def pl_layout_json_def layout_value_def write_json_def)
  with sample_from_files d_def show ?thesis by blast
qed

end
