(* ===== verification/Cli.thy ===== *)
theory Cli
  imports Layout
begin

text \<open>
  The command lines: \<open>src/cli.rs\<close> and \<open>src/bin/autoindex-publish.rs\<close>. The publishing command takes the
  file system as a function from paths to trees and the destination as a disk.
\<close>

subsection \<open>The service command\<close>

datatype autoindex_command =
    Create string string bool
  | Update string string bool
  | Delete string bool bool

datatype command = Serve | Help | Autoindex autoindex_command

datatype cli_error = CliInvalidArguments

fun cli_error_message :: "cli_error \<Rightarrow> string" where
  "cli_error_message CliInvalidArguments = ''invalid command-line arguments''"

fun dry_run_loop :: "bool \<Rightarrow> string list \<Rightarrow> cli_error + bool" where
  "dry_run_loop dry_run [] = Ok dry_run"
| "dry_run_loop dry_run (argument # arguments) =
     (if argument = ''--dry-run'' \<and> \<not> dry_run then dry_run_loop True arguments else Err CliInvalidArguments)"

fun delete_loop :: "bool \<Rightarrow> bool \<Rightarrow> string list \<Rightarrow> cli_error + (bool \<times> bool)" where
  "delete_loop confirm dry_run [] = Ok (confirm, dry_run)"
| "delete_loop confirm dry_run (argument # arguments) =
     (if argument = ''--yes'' \<and> \<not> confirm then delete_loop True dry_run arguments
      else if argument = ''--dry-run'' \<and> \<not> dry_run then delete_loop confirm True arguments
      else Err CliInvalidArguments)"

definition is_help :: "string \<Rightarrow> bool" where
  "is_help argument \<longleftrightarrow> argument \<in> {''help'', ''--help'', ''-h''}"

fun parse_autoindex :: "string list \<Rightarrow> cli_error + command" where
  "parse_autoindex [] = Err CliInvalidArguments"
| "parse_autoindex (operation # arguments) =
     (if is_help operation then (if arguments = [] then Ok Help else Err CliInvalidArguments)
      else (case arguments of
        [] \<Rightarrow> Err CliInvalidArguments
      | first # arguments \<Rightarrow>
          if operation = ''create'' \<or> operation = ''update'' then
            (case arguments of
               [] \<Rightarrow> Err CliInvalidArguments
             | path # arguments \<Rightarrow>
                 and_then (dry_run_loop False arguments) (\<lambda>dry_run.
                   Ok (Autoindex (if operation = ''create'' then Create first path dry_run else Update first path dry_run))))
          else if operation = ''delete'' then
            and_then (delete_loop False False arguments) (\<lambda>(confirm, dry_run).
              if confirm = dry_run then Err CliInvalidArguments
              else Ok (Autoindex (Delete first confirm dry_run)))
          else Err CliInvalidArguments))"

definition parse :: "string list \<Rightarrow> cli_error + command" where
  "parse arguments =
     (case drop 1 arguments of
        [] \<Rightarrow> Ok Serve
      | command # arguments \<Rightarrow>
          if command = ''serve'' \<and> arguments = [] then Ok Serve
          else if is_help command \<and> arguments = [] then Ok Help
          else if command = ''autoindex'' then parse_autoindex arguments
          else Err CliInvalidArguments)"

subsection \<open>The accepted command lines\<close>

definition dry_run_flag :: "bool \<Rightarrow> string list" where
  "dry_run_flag dry_run = (if dry_run then [''--dry-run''] else [])"

inductive spells :: "command \<Rightarrow> string list \<Rightarrow> bool" where
  "spells Serve []"
| "spells Serve [''serve'']"
| "is_help h \<Longrightarrow> spells Help [h]"
| "is_help h \<Longrightarrow> spells Help [''autoindex'', h]"
| "spells (Autoindex (Create source path dry_run)) ([''autoindex'', ''create'', source, path] @ dry_run_flag dry_run)"
| "spells (Autoindex (Update source path dry_run)) ([''autoindex'', ''update'', source, path] @ dry_run_flag dry_run)"
| "spells (Autoindex (Delete path True False)) [''autoindex'', ''delete'', path, ''--yes'']"
| "spells (Autoindex (Delete path False True)) [''autoindex'', ''delete'', path, ''--dry-run'']"

lemma dry_run_loop_True: "dry_run_loop True arguments = Ok d \<longleftrightarrow> arguments = [] \<and> d"
  by (cases arguments) auto

lemma dry_run_loop_Ok: "dry_run_loop False arguments = Ok d \<longleftrightarrow> arguments = dry_run_flag d"
  by (cases arguments) (auto simp: dry_run_flag_def dry_run_loop_True)

lemma delete_loop_both: "delete_loop True True arguments = Ok r \<longleftrightarrow> arguments = [] \<and> r = (True, True)"
  by (cases arguments) auto

lemma delete_loop_one:
  "delete_loop True False arguments = Ok (c, d) \<longleftrightarrow> c \<and> arguments = dry_run_flag d"
  "delete_loop False True arguments = Ok (c, d) \<longleftrightarrow> d \<and> arguments = (if c then [''--yes''] else [])"
  by (cases arguments; auto simp: dry_run_flag_def delete_loop_both)+

lemma delete_loop_Ok:
  "delete_loop False False arguments = Ok (c, d) \<and> c \<noteq> d \<longleftrightarrow>
     c \<and> \<not> d \<and> arguments = [''--yes''] \<or> \<not> c \<and> d \<and> arguments = [''--dry-run'']"
  by (cases arguments) (auto simp: delete_loop_one dry_run_flag_def)

lemma command_words:
  "''autoindex'' \<noteq> ''serve''" "''update'' \<noteq> ''create''" "''delete'' \<noteq> ''create''" "''delete'' \<noteq> ''update''"
  "\<not> is_help ''autoindex''" "\<not> is_help ''serve''" "\<not> is_help ''create''" "\<not> is_help ''update''" "\<not> is_help ''delete''"
  by (simp_all add: is_help_def)

lemma spells_parse: "spells c arguments \<Longrightarrow> parse (program # arguments) = Ok c"
proof (induction rule: spells.induct)
  case (4 h)
  then show ?case by (simp add: parse_def command_words)
next
  case (3 h)
  then show ?case by (simp add: parse_def) (auto simp: is_help_def)
qed (simp_all add: parse_def command_words dry_run_loop_Ok)

lemma parse_autoindex_spells:
  assumes "parse_autoindex arguments = Ok c"
  shows "spells c (''autoindex'' # arguments)"
proof -
  obtain operation rest where args: "arguments = operation # rest" using assms by (cases arguments) auto
  show ?thesis
  proof (cases "is_help operation")
    case True
    with assms args show ?thesis by (auto split: if_splits intro: spells.intros(4))
  next
    case False
    obtain first more where rest: "rest = first # more" using assms args False by (cases rest) auto
    show ?thesis
    proof (cases "operation = ''delete''")
      case True
      then obtain confirm d where "delete_loop False False more = Ok (confirm, d)" "confirm \<noteq> d"
        "c = Autoindex (Delete first confirm d)"
        using assms args False rest by (auto simp: command_words split: if_splits)
      with delete_loop_Ok[of more confirm d] args rest True spells.intros(7,8) show ?thesis by auto
    next
      case other: False
      then have made: "operation = ''create'' \<or> operation = ''update''"
        using assms args False rest by (auto split: if_splits)
      then obtain path flags where more: "more = path # flags" using assms args False rest by (cases more) auto
      then obtain d where "dry_run_loop False flags = Ok d"
        "c = Autoindex (if operation = ''create'' then Create first path d else Update first path d)"
        using assms args False rest made by auto
      then show ?thesis
        using args rest more made spells.intros(5)[of first path d] spells.intros(6)[of first path d]
        by (auto simp: dry_run_loop_Ok)
    qed
  qed
qed

lemma parse_iff_spells: "parse (program # arguments) = Ok c \<longleftrightarrow> spells c arguments"
proof
  assume p: "parse (program # arguments) = Ok c"
  show "spells c arguments"
  proof (cases arguments)
    case Nil
    with p show ?thesis by (auto simp: parse_def intro: spells.intros)
  next
    case (Cons command rest)
    with p consider "c = Serve" "arguments = [''serve'']" | "is_help command" "arguments = [command]" "c = Help"
      | "command = ''autoindex''" "parse_autoindex rest = Ok c"
      by (auto simp: parse_def split: if_splits)
    then show ?thesis using Cons spells.intros(2,3) parse_autoindex_spells by cases auto
  qed
qed (rule spells_parse)

text \<open>C36. The command line: an argument list is read as a command exactly if it is one of its spellings, so
  deleting always states either \<open>--yes\<close> or \<open>--dry-run\<close>, never both and never neither, every flag is
  given at most once, and nothing else is accepted.\<close>

theorem parse_command_exact: "parse (program # arguments) = Ok c \<longleftrightarrow> spells c arguments"
  by (rule parse_iff_spells)

subsection \<open>The publishing command\<close>

definition USAGE :: string where
  "USAGE = concat (map (\<lambda>line. line @ [CHR 0x0A])
     [''Usage: autoindex-publish <source-directory> <new-oci-layout-directory> [reference]'',
      '''',
      ''Builds a standard OCI image layout from ordinary files. File-relative paths become OCI titles and every file layer is marked autoindex-visible. Empty directories are ignored; symlinks and unsafe/duplicate paths are rejected.'',
      '''',
      ''Publish the result with:'',
      ''  oras cp --from-oci-layout --to-plain-http <layout>:<reference> <registry>/<repository>:<reference>''])"

definition help_text :: string where
  "help_text = concat (map (\<lambda>line. line @ [CHR 0x0A])
     [''github-oras-packages'',
      '''',
      ''USAGE:'',
      ''    github-oras-packages serve'',
      ''    github-oras-packages autoindex create <source-file> <relative-path> [--dry-run]'',
      ''    github-oras-packages autoindex update <source-file> <relative-path> [--dry-run]'',
      ''    github-oras-packages autoindex delete <relative-path> [--yes | --dry-run]'',
      ''    github-oras-packages help'',
      '''',
      ''Autoindex CRUD rebuilds the configured autoindex.v1 OCI artifact. Paths are'',
      ''ordinary relative file titles. Delete requires --yes and is never interactive;'',
      ''--dry-run previews the operation without publishing.'',
      '''',
      ''All commands read validated ORAS_PROXY_* configuration. The serve command'',
      ''serves the configured repository at human-readable paths and exposes the'',
      ''standard OCI /v2/ namespace. Private reads use ORAS_PROXY_TOKEN_USERNAME and'',
      ''ORAS_PROXY_TOKEN_PASSWORD; ORAS writes use those credentials through stdin or'',
      ''the existing ORAS credential store.''])"

definition publish_run ::
    "publisher_lib \<Rightarrow> (string \<Rightarrow> node option) \<Rightarrow> bool \<Rightarrow> string list \<Rightarrow> disk \<Rightarrow> (publisher_error + string) \<times> disk" where
  "publish_run lib files printable arguments d =
     (case drop 1 arguments of
        [] \<Rightarrow> (Err InvalidArguments, d)
      | source # arguments \<Rightarrow>
          if source = ''--help'' \<or> source = ''-h''
          then (if printable then Ok USAGE else Err PublisherIo, d)
          else (case arguments of
            [] \<Rightarrow> (Err InvalidArguments, d)
          | layout # arguments \<Rightarrow>
              (case (case arguments of
                   [] \<Rightarrow> Ok ''autoindex.v1''
                 | reference # _ \<Rightarrow> if is_utf8 reference then Ok reference else Err PublisherInvalidReference) of
                 Inl e \<Rightarrow> (Err e, d)
               | Inr reference \<Rightarrow>
                   if length arguments > 1 then (Err InvalidArguments, d)
                   else (case from_directory lib (files source) of
                     Inl e \<Rightarrow> (Err e, d)
                   | Inr p \<Rightarrow> (case write_oci_layout lib p reference d of
                       (Inl e, d) \<Rightarrow> (Err e, d)
                     | (Inr _, d) \<Rightarrow>
                         (if printable then Ok (''Built '' @ decimal_string (length (pn_paths p)) @ '' visible files as ''
                            @ reference @ '' ('' @ pn_manifest_digest p @ '')'' @ [CHR 0x0A]) else Err PublisherIo, d))))))"

end
