(* ===== verification/Autoindex_Cli.thy ===== *)
theory Autoindex_Cli
  imports Cli Config Oci_Requests
begin

text \<open>
  \<open>src/autoindex_cli.rs\<close>: one edit of the published files. The state \<open>staging\<close> holds the other files,
  the directory of temporary files with its parts (the contents, the layout, the ORAS configuration)
  and the ORAS calls made. Every file operation and every use of a process takes the next of a list
  of bits, which says whether it fails; one more bit says whether a blob's body misses the deadline.
  Whether the directory of temporary files can be removed at the end is a flag of its own,
  \<open>st_stuck\<close>, as no other failure may keep it.
  An action of this state returns a result and the new state; \<open>execute\<close> is a task that also reads
  from the registry. Paths are taken to be UTF-8, as \<open>display()\<close> does.
\<close>

subsection \<open>Errors\<close>

datatype autoindex_cli_error =
    CliInvalidPath | CliInvalidSource | CliAlreadyExists | CliNotFound | CliInvalidArtifact | CliRegistry
  | CliTemporaryStorage | CliPublication | CliOras

fun autoindex_cli_message :: "autoindex_cli_error \<Rightarrow> string" where
  "autoindex_cli_message CliInvalidPath = ''autoindex path is invalid''"
| "autoindex_cli_message CliInvalidSource = ''source must be a regular file within publication limits''"
| "autoindex_cli_message CliAlreadyExists = ''autoindex path already exists''"
| "autoindex_cli_message CliNotFound = ''autoindex path does not exist''"
| "autoindex_cli_message CliInvalidArtifact = ''configured reference is not a valid autoindex artifact''"
| "autoindex_cli_message CliRegistry = ''configured registry operation failed''"
| "autoindex_cli_message CliTemporaryStorage = ''temporary publication storage failed''"
| "autoindex_cli_message CliPublication = ''autoindex publication could not be built''"
| "autoindex_cli_message CliOras = ''ORAS registry operation failed''"

subsection \<open>The staging state\<close>

text \<open>A process started for ORAS: its arguments, \<open>DOCKER_CONFIG\<close> when it is set, the text for its standard
  input, the layout it finds, and whether it was seen to end with success.\<close>

record oras_call =
  oc_arguments :: "string list"
  oc_docker_config :: "string option"
  oc_stdin :: string
  oc_layout :: "node option"
  oc_succeeded :: bool

record staging =
  st_files :: "string \<Rightarrow> node option"
  st_temp :: string
  st_process :: nat
  st_next :: nat
  st_taken :: "string \<Rightarrow> bool"
  st_work :: "string option"
  st_content :: "node option"
  st_layout :: "node option"
  st_docker :: bool
  st_stuck :: bool
  st_faults :: "bool list"
  st_calls :: "oras_call list"

type_synonym 'a action = "staging \<Rightarrow> (autoindex_cli_error + 'a) \<times> staging"

definition and_do :: "'a action \<Rightarrow> ('a \<Rightarrow> 'b action) \<Rightarrow> 'b action" where
  "and_do a f s = (case a s of (Inl e, s) \<Rightarrow> (Inl e, s) | (Inr x, s) \<Rightarrow> f x s)"

definition give :: "autoindex_cli_error + 'a \<Rightarrow> 'a action" where
  "give r s = (r, s)"

definition fails :: "bool action" where
  "fails s = (Ok (case st_faults s of [] \<Rightarrow> False | b # _ \<Rightarrow> b), s\<lparr>st_faults := tl (st_faults s)\<rparr>)"

text \<open>An operation that changes the state or fails with the error.\<close>

definition attempt :: "autoindex_cli_error \<Rightarrow> (staging \<Rightarrow> staging option) \<Rightarrow> unit action" where
  "attempt e f = and_do fails (\<lambda>b s.
     case (if b then None else f s) of None \<Rightarrow> (Err e, s) | Some s \<Rightarrow> (Ok (), s))"

definition on_content :: "(node \<Rightarrow> node option) \<Rightarrow> staging \<Rightarrow> staging option" where
  "on_content f s = map_option (\<lambda>n. s\<lparr>st_content := Some n\<rparr>) (Option.bind (st_content s) f)"

definition path_join :: "string \<Rightarrow> string \<Rightarrow> string" where
  "path_join base name = (if base = [] \<or> ends_with base ''/'' then base @ name else base @ SLASH # name)"

subsection \<open>Paths and sources\<close>

definition CLI_TEMP_PREFIX :: string where "CLI_TEMP_PREFIX = ''oras-autoindex-cli''"

text \<open>\<open>TemporaryDirectory::new\<close>, with the number of attempts left, and its \<open>drop\<close>.\<close>

fun make_temporary :: "nat \<Rightarrow> unit action" where
  "make_temporary 0 s = (Err CliTemporaryStorage, s)"
| "make_temporary (Suc n) s =
     (let path = path_join (st_temp s) (CLI_TEMP_PREFIX @ ''-'' @ decimal_string (st_process s) @ ''-''
            @ decimal_string (st_next s));
          s = s\<lparr>st_next := (st_next s + 1) mod U64_LIMIT\<rparr>
      in if st_taken s path then make_temporary n s
         else attempt CliTemporaryStorage (\<lambda>s. Some (s\<lparr>st_work := Some path\<rparr>)) s)"

definition temporary_directory :: "unit action" where
  "temporary_directory = make_temporary 16"

definition drop_temporary :: "staging \<Rightarrow> staging" where
  "drop_temporary s =
     (if st_stuck s then s
      else s\<lparr>st_work := None, st_content := None, st_layout := None, st_docker := False\<rparr>)"

definition validate_source :: "node option \<Rightarrow> autoindex_cli_error + nat" where
  "validate_source source =
     (case source of
        Some (FileNode len _) \<Rightarrow> if len > MAX_PUBLICATION_BYTES then Err CliInvalidSource else Ok len
      | _ \<Rightarrow> Err CliInvalidSource)"

text \<open>The path as the names below the root.\<close>

definition path_under :: "string \<Rightarrow> autoindex_cli_error + string list" where
  "path_under relative =
     and_then (map_err (\<lambda>_. CliInvalidPath) (relative_path_parse relative)) (\<lambda>validated.
       if is_directory validated then Err CliInvalidPath else Ok (components validated))"

definition make_parent :: "string list \<Rightarrow> unit action" where
  "make_parent path = attempt CliTemporaryStorage (on_content (\<lambda>n. create_dir_all n (butlast path)))"

definition put_content :: "autoindex_cli_error \<Rightarrow> string list \<Rightarrow> string \<Rightarrow> unit action" where
  "put_content e path bytes = attempt e (on_content (\<lambda>n. write_node n path bytes))"

definition remove_content :: "string list \<Rightarrow> unit action" where
  "remove_content path = attempt CliTemporaryStorage (on_content (\<lambda>n. remove_file n path))"

text \<open>The file is created empty and then filled; what is read is bounded.\<close>

definition copy_source :: "node option \<Rightarrow> string \<Rightarrow> unit action" where
  "copy_source source relative =
     and_do (give (validate_source source)) (\<lambda>expected_size.
     and_do (give (path_under relative)) (\<lambda>destination.
     and_do (make_parent destination) (\<lambda>_.
     and_do (attempt CliInvalidSource Some) (\<lambda>_.
     and_do (put_content CliTemporaryStorage destination []) (\<lambda>_.
     and_do (give (case source of
         Some (FileNode _ (Some bytes)) \<Rightarrow> Ok (take (MAX_PUBLICATION_BYTES + 1) bytes)
       | _ \<Rightarrow> Err CliInvalidSource)) (\<lambda>copied.
     and_do (put_content CliInvalidSource destination copied) (\<lambda>_ s.
       if length copied \<noteq> expected_size \<or> length copied > MAX_PUBLICATION_BYTES
       then (Err CliInvalidSource, snd (remove_content destination s))
       else (Ok (), s))))))))"

definition matching_paths :: "string \<Rightarrow> string list \<Rightarrow> string list" where
  "matching_paths requested paths =
     (if ends_with requested ''/'' then filter (\<lambda>path. starts_with path requested) paths
      else filter (\<lambda>path. path = requested) paths)"

function visit_files :: "node \<Rightarrow> string list \<Rightarrow> autoindex_cli_error + string list list"
  and visit_entries :: "(string \<times> node) list \<Rightarrow> string list \<Rightarrow> autoindex_cli_error + string list list" where
  "visit_files current path =
     (case current of DirNode True es \<Rightarrow> visit_entries es path | _ \<Rightarrow> Err CliTemporaryStorage)"
| "visit_entries [] path = Ok []"
| "visit_entries ((name, n) # es) path =
     (case n of
        DirNode _ _ \<Rightarrow> and_then (visit_files n (path @ [name])) (\<lambda>files.
          and_then (visit_entries es path) (\<lambda>others. Ok (files @ others)))
      | FileNode _ _ \<Rightarrow> and_then (visit_entries es path) (\<lambda>others. Ok ((path @ [name]) # others))
      | _ \<Rightarrow> Err CliTemporaryStorage)"
  by pat_completeness auto

termination
  by (relation "measure (\<lambda>x. case x of Inl (n, _) \<Rightarrow> 2 * size n | Inr (es, _) \<Rightarrow> Suc (2 * size_list (size_prod (\<lambda>_. 0) size) es))")
    auto

definition collect_regular_files :: "node option \<Rightarrow> autoindex_cli_error + string list list" where
  "collect_regular_files root = and_then (ok_or CliTemporaryStorage root) (\<lambda>root. visit_files root [])"

subsection \<open>Reading what is published\<close>

definition load_snapshot ::
    "library \<Rightarrow> client \<Rightarrow> string \<Rightarrow> (autoindex_cli_error + autoindex_snapshot option) io" where
  "load_snapshot lib c repository =
     bind_io (autoindex_snapshot_io lib c repository None) (\<lambda>r. Return (case r of
        Inr snapshot \<Rightarrow> if as_crud_compatible snapshot then Ok (Some snapshot) else Err CliInvalidArtifact
      | Inl OciNotFound \<Rightarrow> Ok None
      | Inl (OciUnauthorized _) \<Rightarrow> Err CliRegistry
      | Inl OciForbidden \<Rightarrow> Err CliRegistry
      | Inl _ \<Rightarrow> Err CliInvalidArtifact))"

fun body_item :: "oci_error + string \<Rightarrow> string option" where
  "body_item (Inl _) = None"
| "body_item (Inr bytes) = Some bytes"

definition stage_object :: "visible_object \<Rightarrow> blob_body \<Rightarrow> unit action" where
  "stage_object object body =
     and_do fails (\<lambda>slow.
     and_do (give (case collect_loop (saturating_add (vo_size object) 1) slow [] (map body_item body) of
         Timed_out \<Rightarrow> Err CliRegistry | Failed \<Rightarrow> Err CliInvalidArtifact
       | Collected bytes \<Rightarrow> if length bytes \<noteq> vo_size object then Err CliInvalidArtifact else Ok bytes)) (\<lambda>bytes.
     and_do (give (path_under (rp_str (vo_path object)))) (\<lambda>path.
     and_do (make_parent path) (\<lambda>_. put_content CliTemporaryStorage path bytes))))"

fun materialize ::
    "library \<Rightarrow> client \<Rightarrow> string \<Rightarrow> nat \<Rightarrow> visible_object list \<Rightarrow> staging \<Rightarrow> ((autoindex_cli_error + unit) \<times> staging) io" where
  "materialize lib c repository seen [] s = Return (Ok (), s)"
| "materialize lib c repository seen (object # others) s =
     (case checked_add seen (vo_size object) of
        None \<Rightarrow> Return (Err CliInvalidArtifact, s)
      | Some seen \<Rightarrow>
          if seen > MAX_PUBLICATION_BYTES then Return (Err CliInvalidArtifact, s)
          else bind_io (blob lib c repository
              (descriptor_new (vo_media_type object) (vo_digest object) (vo_size object)) None) (\<lambda>r.
            case r of
              Inl _ \<Rightarrow> Return (Err CliRegistry, s)
            | Inr body \<Rightarrow>
                (case stage_object object body s of
                   (Inl e, s) \<Rightarrow> Return (Inl e, s)
                 | (Inr _, s) \<Rightarrow> materialize lib c repository seen others s)))"

subsection \<open>ORAS\<close>

function trim_start_matches :: "string \<Rightarrow> string \<Rightarrow> string" where
  "trim_start_matches pattern s =
     (if pattern \<noteq> [] \<and> starts_with s pattern then trim_start_matches pattern (drop (length pattern) s) else s)"
  by pat_completeness auto

termination
  by (relation "measure (\<lambda>(_, s). length s)") (auto simp: prefix_def)

definition registry_authority :: "config \<Rightarrow> string" where
  "registry_authority cfg =
     trim_start_matches ''http://'' (trim_start_matches ''https://'' (origin_str (cf_upstream cfg)))"

definition registry_reference :: "config \<Rightarrow> string" where
  "registry_reference cfg =
     registry_authority cfg @ ''/'' @ repo_str (cf_repository cfg) @ '':'' @ AUTO_INDEX_REFERENCE"

text \<open>A process is started, takes its input and ends with success; each may fail.\<close>

definition note_success :: "staging \<Rightarrow> staging option" where
  "note_success s = Some (s\<lparr>st_calls := butlast (st_calls s) @ [(last (st_calls s))\<lparr>oc_succeeded := True\<rparr>]\<rparr>)"

definition call_oras :: "string list \<Rightarrow> string option \<Rightarrow> string \<Rightarrow> unit action" where
  "call_oras arguments docker_config stdin =
     and_do (attempt CliOras (\<lambda>s. Some (s\<lparr>st_calls := st_calls s @ [\<lparr>oc_arguments = arguments,
        oc_docker_config = docker_config, oc_stdin = stdin, oc_layout = st_layout s, oc_succeeded = False\<rparr>]\<rparr>))) (\<lambda>_.
     and_do (if stdin = [] then give (Ok ()) else attempt CliOras Some) (\<lambda>_. attempt CliOras note_success))"

definition login_arguments :: "config \<Rightarrow> string \<Rightarrow> string list" where
  "login_arguments cfg username =
     [''login'', ''--username'', username, ''--password-stdin'']
     @ (if uo_scheme (cf_upstream cfg) = Http then [''--plain-http''] else [])
     @ [registry_authority cfg]"

definition docker_directory :: "staging \<Rightarrow> string" where
  "docker_directory s = path_join (the (st_work s)) ''docker-config''"

definition login_oras :: "config \<Rightarrow> token_credentials \<Rightarrow> string action" where
  "login_oras cfg credentials s0 =
     and_do (attempt CliTemporaryStorage (\<lambda>s. if st_docker s then None else Some (s\<lparr>st_docker := True\<rparr>))) (\<lambda>_.
     and_do (call_oras (login_arguments cfg (tc_username credentials)) (Some (docker_directory s0))
        (tc_password credentials @ [CHR 0x0A])) (\<lambda>_. give (Ok (docker_directory s0)))) s0"

definition run_oras :: "config \<Rightarrow> string list \<Rightarrow> unit action" where
  "run_oras cfg arguments =
     and_do (case cf_token_credentials cfg of
         Some credentials \<Rightarrow> and_do (login_oras cfg credentials) (\<lambda>directory. give (Ok (Some directory)))
       | None \<Rightarrow> give (Ok None)) (\<lambda>docker_config. call_oras arguments docker_config [])"

subsection \<open>Publishing the edited files\<close>

definition delete_arguments :: "config \<Rightarrow> string list" where
  "delete_arguments cfg =
     [''manifest'', ''delete'', ''--force'']
     @ (if uo_scheme (cf_upstream cfg) = Http then [''--plain-http''] else []) @ [registry_reference cfg]"

definition copy_arguments :: "config \<Rightarrow> string \<Rightarrow> string list" where
  "copy_arguments cfg work =
     [''cp'', ''--from-oci-layout'', ''--no-tty'']
     @ (if uo_scheme (cf_upstream cfg) = Http then [''--to-plain-http''] else [])
     @ [path_join work ''layout'' @ '':'' @ AUTO_INDEX_REFERENCE, registry_reference cfg]"

text \<open>\<open>Publication::write_oci_layout\<close> on the layout of the temporary directory.\<close>

definition write_layout :: "publisher_lib \<Rightarrow> publication \<Rightarrow> unit action" where
  "write_layout plib p s =
     (case write_oci_layout plib p AUTO_INDEX_REFERENCE \<lparr>dk_destination = st_layout s, dk_faults = st_faults s\<rparr> of
        (r, d) \<Rightarrow> (map_err (\<lambda>_. CliPublication) r, s\<lparr>st_layout := dk_destination d, st_faults := dk_faults d\<rparr>))"

definition publish :: "publisher_lib \<Rightarrow> config \<Rightarrow> unit action" where
  "publish plib cfg s =
     and_do (give (collect_regular_files (st_content s))) (\<lambda>remaining.
       if remaining = [] then run_oras cfg (delete_arguments cfg)
       else
       and_do (give (map_err (\<lambda>_. CliPublication) (from_directory plib (st_content s)))) (\<lambda>publication.
       and_do (write_layout plib publication) (\<lambda>_.
       run_oras cfg (copy_arguments cfg (the (st_work s)))))) s"

subsection \<open>One edit\<close>

fun command_path :: "autoindex_command \<Rightarrow> string" where
  "command_path (Create _ path _) = path"
| "command_path (Update _ path _) = path"
| "command_path (Delete path _ _) = path"

fun command_dry_run :: "autoindex_command \<Rightarrow> bool" where
  "command_dry_run (Create _ _ dry_run) = dry_run"
| "command_dry_run (Update _ _ dry_run) = dry_run"
| "command_dry_run (Delete _ _ dry_run) = dry_run"

fun command_source :: "autoindex_command \<Rightarrow> string option" where
  "command_source (Create source _ _) = Some source"
| "command_source (Update source _ _) = Some source"
| "command_source (Delete _ _ _) = None"

definition check_command :: "autoindex_command \<Rightarrow> (string \<Rightarrow> node option) \<Rightarrow> autoindex_cli_error + unit" where
  "check_command operation files =
     and_then (map_err (\<lambda>_. CliInvalidPath) (relative_path_parse (command_path operation))) (\<lambda>relative.
     if command_source operation \<noteq> None \<and> is_directory relative then Err CliInvalidPath
     else (case command_source operation of
        Some source \<Rightarrow> and_then (validate_source (files source)) (\<lambda>_. Ok ())
      | None \<Rightarrow> Ok ()))"

fun affected_files :: "autoindex_command \<Rightarrow> string list \<Rightarrow> autoindex_cli_error + nat" where
  "affected_files (Create _ path _) current_paths =
     (if path \<in> set current_paths then Err CliAlreadyExists else Ok 1)"
| "affected_files (Update _ path _) current_paths =
     (if path \<notin> set current_paths then Err CliNotFound else Ok 1)"
| "affected_files (Delete path _ _) current_paths =
     (let matches = matching_paths path current_paths in if matches = [] then Err CliNotFound else Ok (length matches))"

fun remove_paths :: "string list \<Rightarrow> unit action" where
  "remove_paths [] = give (Ok ())"
| "remove_paths (existing # paths) =
     and_do (give (path_under existing)) (\<lambda>path. and_do (remove_content path) (\<lambda>_. remove_paths paths))"

fun edit_content :: "autoindex_command \<Rightarrow> string list \<Rightarrow> unit action" where
  "edit_content (Create source path _) current_paths s = copy_source (st_files s source) path s"
| "edit_content (Update source path _) current_paths s = copy_source (st_files s source) path s"
| "edit_content (Delete path _ _) current_paths s = remove_paths (matching_paths path current_paths) s"

fun dry_run_action :: "autoindex_command \<Rightarrow> string" where
  "dry_run_action (Create _ _ _) = ''create''"
| "dry_run_action (Update _ _ _) = ''update''"
| "dry_run_action (Delete _ _ _) = ''delete''"

fun done_action :: "autoindex_command \<Rightarrow> string" where
  "done_action (Create _ _ _) = ''created''"
| "done_action (Update _ _ _) = ''updated''"
| "done_action (Delete _ _ _) = ''deleted''"

definition result_message :: "string \<Rightarrow> string \<Rightarrow> nat \<Rightarrow> string" where
  "result_message action path affected =
     action @ '' '' @ path @ '' ('' @ decimal_string affected @ '' file(s))''"

definition current_objects :: "autoindex_snapshot option \<Rightarrow> visible_object list" where
  "current_objects current = (case current of Some snapshot \<Rightarrow> index_objects (as_index snapshot) | None \<Rightarrow> [])"

definition object_paths :: "autoindex_snapshot option \<Rightarrow> string list" where
  "object_paths current = map (\<lambda>object. rp_str (vo_path object)) (current_objects current)"

text \<open>The part that works in the temporary directory.\<close>

definition rebuild ::
    "library \<Rightarrow> publisher_lib \<Rightarrow> config \<Rightarrow> client \<Rightarrow> autoindex_command \<Rightarrow> autoindex_snapshot option \<Rightarrow> staging
     \<Rightarrow> ((autoindex_cli_error + unit) \<times> staging) io" where
  "rebuild lib plib cfg c operation current s =
     (case attempt CliTemporaryStorage (\<lambda>s. Some (s\<lparr>st_content := Some (DirNode True [])\<rparr>)) s of
        (Inl e, s) \<Rightarrow> Return (Inl e, s)
      | (Inr _, s) \<Rightarrow>
          bind_io (materialize lib c (repo_str (cf_repository cfg)) 0 (current_objects current) s) (\<lambda>(r, s).
            case r of
              Inl e \<Rightarrow> Return (Inl e, s)
            | Inr _ \<Rightarrow> Return (and_do (edit_content operation (object_paths current)) (\<lambda>_. publish plib cfg) s)))"

definition execute ::
    "library \<Rightarrow> publisher_lib \<Rightarrow> config \<Rightarrow> client \<Rightarrow> autoindex_command \<Rightarrow> staging
     \<Rightarrow> ((autoindex_cli_error + string) \<times> staging) io" where
  "execute lib plib cfg c operation s =
     (case check_command operation (st_files s) of
        Inl e \<Rightarrow> Return (Inl e, s)
      | Inr _ \<Rightarrow>
          bind_io (load_snapshot lib c (repo_str (cf_repository cfg))) (\<lambda>loaded.
          case loaded of
            Inl e \<Rightarrow> Return (Inl e, s)
          | Inr current \<Rightarrow>
              (case affected_files operation (object_paths current) of
                 Inl e \<Rightarrow> Return (Inl e, s)
               | Inr affected \<Rightarrow>
                   if command_dry_run operation
                   then Return (Ok (result_message (''would '' @ dry_run_action operation) (command_path operation) affected), s)
                   else (case temporary_directory s of
                      (Inl e, s) \<Rightarrow> Return (Inl e, s)
                    | (Inr _, s) \<Rightarrow>
                        bind_io (rebuild lib plib cfg c operation current s) (\<lambda>(r, s).
                          Return (and_then r (\<lambda>_. Ok (result_message (done_action operation) (command_path operation) affected)),
                            drop_temporary s))))))"

end
