(* ===== verification/Autoindex_Edit.thy ===== *)
theory Autoindex_Edit
  imports Autoindex_Cli Layout
begin

text \<open>
  What one edit of \<open>src/autoindex_cli.rs\<close> does to the published index: the contents it stages are the
  index that was loaded, the edit changes that index at the named paths alone, and the call of ORAS
  that ends it finds a layout of the result.
\<close>

subsection \<open>Actions\<close>

named_theorems action_simps \<open>a successful action, taken apart\<close>

lemma and_do_Ok [action_simps]: "and_do a f s = (Ok y, s') \<longleftrightarrow> (\<exists>x t. a s = (Ok x, t) \<and> f x t = (Ok y, s'))"
  by (auto simp: and_do_def split: prod.splits sum.splits)

lemma give_Ok [action_simps]: "give r s = (Ok x, s') \<longleftrightarrow> r = Ok x \<and> s' = s"
  by (auto simp: give_def)

lemma fails_Ok [action_simps]:
  "fails s = (Ok b, s') \<longleftrightarrow> b = (case st_faults s of [] \<Rightarrow> False | b # _ \<Rightarrow> b) \<and> s' = s\<lparr>st_faults := tl (st_faults s)\<rparr>"
  by (auto simp: fails_def)

lemma attempt_Ok [action_simps]:
  "attempt e f s = (Ok u, s') \<longleftrightarrow>
     \<not> (case st_faults s of [] \<Rightarrow> False | b # _ \<Rightarrow> b) \<and> f (s\<lparr>st_faults := tl (st_faults s)\<rparr>) = Some s'"
  by (auto simp: attempt_def and_do_def fails_def split: option.splits)

text \<open>Actions that change only the contents.\<close>

definition restaged :: "staging \<Rightarrow> node \<Rightarrow> staging \<Rightarrow> bool" where
  "restaged s n s' \<longleftrightarrow> (\<exists>faults. s' = s\<lparr>st_content := Some n, st_faults := faults\<rparr>)"

lemma restaged_trans: "restaged s n t \<Longrightarrow> restaged t m u \<Longrightarrow> restaged s m u"
  by (auto simp: restaged_def)

lemma restaged_refl: "st_content s = Some n \<Longrightarrow> restaged s n s"
  unfolding restaged_def by (intro exI[of _ "st_faults s"]) simp

lemma restaged_simps:
  assumes "restaged s n s'"
  shows "st_content s' = Some n" "st_files s' = st_files s" "st_work s' = st_work s" "st_layout s' = st_layout s"
    "st_docker s' = st_docker s" "st_calls s' = st_calls s"
  using assms by (auto simp: restaged_def)

lemma restaged_faults: "st_content s = Some n \<Longrightarrow> restaged s n (s\<lparr>st_faults := f\<rparr>)"
  unfolding restaged_def by (intro exI[of _ f]) simp

lemma content_action:
  assumes "attempt e (on_content f) s = (Ok u, s')" "st_content s = Some n"
  shows "\<exists>n'. f n = Some n' \<and> restaged s n' s'"
proof -
  obtain n' where "f n = Some n'" "s' = s\<lparr>st_faults := tl (st_faults s), st_content := Some n'\<rparr>"
    using assms by (auto simp: action_simps on_content_def)
  then show ?thesis unfolding restaged_def by (intro exI[of _ n'] conjI exI[of _ "tl (st_faults s)"]) simp_all
qed

lemma put_below_action:
  assumes "make_parent p s = (Ok u, t)" "put_content e p b t = (Ok v, s')" "st_content s = Some n"
  shows "\<exists>n'. tree.put_below n p b = Some n' \<and> restaged s n' s'"
proof -
  obtain m where m: "create_dir_all n (butlast p) = Some m" "restaged s m t"
    using content_action[OF assms(1)[unfolded make_parent_def] assms(3)] by blast
  obtain n' where "write_node m p b = Some n'" "restaged t n' s'"
    using content_action[OF assms(2)[unfolded put_content_def] restaged_simps(1)[OF m(2)]] by blast
  with m restaged_trans show ?thesis by (auto simp: tree.put_below_def)
qed

lemma valid_segments_names: "valid_segments p \<Longrightarrow> list_all file_name_ok p"
  by (auto simp: valid_segments_def valid_segment_def file_name_ok_def list_all_iff)

lemma path_under_Ok:
  "path_under t = Ok p \<longleftrightarrow> file_path (RelativePath t) \<and> p = components (RelativePath t)"
  using parsed_components[of t]
  by (auto simp: path_under_def file_path_def split: if_splits)

text \<open>Writing a file below directories it makes.\<close>

lemma put_below_tree:
  assumes "tree.put_below n p b = Some n'" "built n" "list_all file_name_ok p"
  shows "built n'" "file_bytes n' = (file_bytes n)(p \<mapsto> b)"
  using tree.put_below_contents[OF assms(1)] tree.put_below_inv[OF assms(2,3,1)] by simp_all

subsection \<open>The contents that are published\<close>

text \<open>The object a blob's bytes stand for.\<close>

definition describes :: "(string \<Rightarrow> string) \<Rightarrow> visible_object \<Rightarrow> string \<Rightarrow> bool" where
  "describes sha object bytes \<longleftrightarrow> vo_digest object = ''sha256:'' @ sha bytes \<and> vo_size object = length bytes"

lemma body_items: "map body_item (map (\<lambda>item. Ok (the item)) body) = map (\<lambda>item. Some (the item)) body"
  by simp

lemma stage_object_Ok:
  assumes run: "stage_object object (verified_body sha body d) s = (Ok u, s')"
    and d: "d = descriptor_new (vo_media_type object) (vo_digest object) (vo_size object)" "vo_size object \<le> MAX_ARTIFACT_BYTES"
    and n: "st_content s = Some n" "built n"
  shows "\<exists>n' bytes. restaged s n' s' \<and> built n' \<and> file_path (vo_path object)
     \<and> file_bytes n' = (file_bytes n)(components (vo_path object) \<mapsto> bytes) \<and> describes sha object bytes"
proof -
  obtain slow bytes p t v where bits: "fails s = (Ok slow, t)"
    and bytes: "collect_loop (saturating_add (vo_size object) 1) slow [] (map body_item (verified_body sha body d)) = Collected bytes"
      "length bytes = vo_size object"
    and p: "path_under (rp_str (vo_path object)) = Ok p"
    and rest: "make_parent p t = (Ok (), v)" "put_content CliTemporaryStorage p bytes v = (Ok u, s')"
    using run by (auto simp: stage_object_def action_simps split: collected.splits if_splits)
  have items: "list_all (\<lambda>item. item \<noteq> None) (map body_item (verified_body sha body d))"
    "bytes = concat (map the (map body_item (verified_body sha body d)))"
    using bytes(1) by (simp_all add: collect_loop_Collected)
  have "is_ok item" if "body_item item \<noteq> None" for item using that by (cases item) simp_all
  then have complete: "complete (verified_body sha body d)"
    using items(1) by (auto simp: complete_def list_all_iff)
  have "matches sha d body" using complete verified_body_complete[of d sha body] d by (simp add: descriptor_new_def)
  moreover have "verified_body sha body d = map (\<lambda>item. Ok (the item)) body"
    using scan_stream_items complete unfolding verified_body_def by blast
  then have "bytes = concat (map the body)" using items(2) by (simp add: o_def)
  ultimately have describes: "describes sha object bytes"
    using d(1) by (simp add: matches_def describes_def descriptor_new_def)
  have path: "file_path (vo_path object)" "p = components (vo_path object)" using p by (simp_all add: path_under_Ok)
  have t: "t = s\<lparr>st_faults := tl (st_faults s)\<rparr>" "st_content t = Some n" using bits n(1) by (auto simp: fails_Ok)
  obtain n' where n': "tree.put_below n p bytes = Some n'" "restaged t n' s'"
    using put_below_action[OF rest t(2)] by blast
  have "restaged s n' s'" using restaged_trans[OF restaged_faults n'(2)[unfolded t(1)]] n(1) by blast
  moreover have "list_all file_name_ok p"
    using file_path_components(2)[OF path(1)] valid_segments_names path(2) by simp
  ultimately show ?thesis using put_below_tree[OF n'(1) n(2)] path describes by blast
qed


lemma blob_run:
  assumes "exec (blob lib c repository d None) tr (Ok body)"
  shows "\<exists>up. body = verified_body (lib_sha256 lib) up d"
  using assms by (auto simp: blob_def exec_try split: sum.splits)

lemma materialize_Ok:
  assumes "exec (materialize lib c repository seen objs s) tr (Ok u, s')"
    and "st_content s = Some n" "built n" "distinct (map (\<lambda>obj. components (vo_path obj)) objs)"
  shows "\<exists>n'. restaged s n' s' \<and> built n'
     \<and> (\<forall>obj \<in> set objs. file_path (vo_path obj)
          \<and> (\<exists>bytes. file_bytes n' (components (vo_path obj)) = Some bytes \<and> describes (lib_sha256 lib) obj bytes))
     \<and> (\<forall>p. p \<notin> (\<lambda>obj. components (vo_path obj)) ` set objs \<longrightarrow> file_bytes n' p = file_bytes n p)"
  using assms
proof (induction objs arbitrary: seen s n tr)
  case Nil
  then show ?case using restaged_refl by (intro exI[of _ n]) auto
next
  case (Cons obj objs)
  let ?d = "descriptor_new (vo_media_type obj) (vo_digest obj) (vo_size obj)"
  obtain seen' where sum: "checked_add seen (vo_size obj) = Some seen'" "\<not> seen' > MAX_PUBLICATION_BYTES"
    and bind: "exec (bind_io (blob lib c repository ?d None) (\<lambda>r. case r of
          Inl _ \<Rightarrow> Return (Err CliRegistry, s)
        | Inr body \<Rightarrow> (case stage_object obj body s of
             (Inl e, s) \<Rightarrow> Return (Inl e, s)
           | (Inr _, s) \<Rightarrow> materialize lib c repository seen' objs s))) tr (Ok u, s')"
    using Cons.prems(1) by (cases "checked_add seen (vo_size obj)") (simp_all split: if_splits)
  obtain t1 t2 r where r: "exec (blob lib c repository ?d None) t1 r"
    "exec (case r of Inl _ \<Rightarrow> Return (Err CliRegistry, s)
        | Inr body \<Rightarrow> (case stage_object obj body s of
             (Inl e, s) \<Rightarrow> Return (Inl e, s)
           | (Inr _, s) \<Rightarrow> materialize lib c repository seen' objs s)) t2 (Ok u, s')"
    using bind unfolding exec_bind by blast
  obtain body t where body: "exec (blob lib c repository ?d None) t1 (Ok body)"
    and stage: "stage_object obj body s = (Ok (), t)"
    and rest: "exec (materialize lib c repository seen' objs t) t2 (Ok u, s')"
    using r by (cases r) (auto split: sum.splits prod.splits)
  have small: "vo_size obj \<le> MAX_ARTIFACT_BYTES"
    using sum by (auto simp: checked_add_def MAX_PUBLICATION_BYTES_def MAX_ARTIFACT_BYTES_def split: if_splits)
  obtain up where "body = verified_body (lib_sha256 lib) up ?d" using blob_run[OF body] by blast
  from stage_object_Ok[OF stage[unfolded this] refl small Cons.prems(2,3)] obtain m bytes where
    m: "restaged s m t" "built m" "file_path (vo_path obj)"
      "file_bytes m = (file_bytes n)(components (vo_path obj) \<mapsto> bytes)" "describes (lib_sha256 lib) obj bytes" by blast
  have dist: "distinct (map (\<lambda>obj. components (vo_path obj)) objs)"
    "components (vo_path obj) \<notin> (\<lambda>obj. components (vo_path obj)) ` set objs" using Cons.prems(4) by auto
  from Cons.IH[OF rest restaged_simps(1)[OF m(1)] m(2) dist(1)] obtain n' where
    n': "restaged t n' s'" "built n'" "\<forall>obj \<in> set objs. file_path (vo_path obj)
          \<and> (\<exists>bytes. file_bytes n' (components (vo_path obj)) = Some bytes \<and> describes (lib_sha256 lib) obj bytes)"
      "\<forall>p. p \<notin> (\<lambda>obj. components (vo_path obj)) ` set objs \<longrightarrow> file_bytes n' p = file_bytes m p" by blast
  show ?case
    using restaged_trans[OF m(1) n'(1)] n'(2-4) m(3-5) dist(2) by (intro exI[of _ n']) auto
qed

text \<open>The objects of a tree of files, as the publisher makes them.\<close>

definition tree_objects :: "publisher_lib \<Rightarrow> node \<Rightarrow> visible_object set" where
  "tree_objects plib n = {object_for plib (join_with SLASH p, b) | p b. file_bytes n p = Some b}"

lemma file_bytes_names: "built n \<Longrightarrow> file_bytes n p = Some b \<Longrightarrow> list_all file_name_ok p"
  using file_bytes_built[of n p b] find_node_names built_wf by blast

text \<open>The objects the publisher makes are the ones that are published.\<close>

definition native :: "visible_object set \<Rightarrow> bool" where
  "native objs \<longleftrightarrow> (\<forall>obj \<in> objs. vo_media_type obj = media_type_for (rp_str (vo_path obj)))"

lemma object_described:
  assumes "describes (pl_sha plib) obj b" "file_path (vo_path obj)" "vo_media_type obj = media_type_for (rp_str (vo_path obj))"
  shows "object_for plib (join_with SLASH (components (vo_path obj)), b) = obj"
  using assms file_path_components(3)[OF assms(2)]
  by (cases "vo_path obj") (simp add: object_for_def describes_def digest_bytes_def visible_object.equality)

lemma materialized_objects:
  assumes run: "exec (materialize lib c repository seen objs s) tr (Ok u, s')"
    and empty: "st_content s = Some (DirNode True [])"
    and objs: "native (set objs)" "distinct (map vo_path objs)" "\<forall>obj \<in> set objs. file_path (vo_path obj)"
    and sha: "pl_sha plib = lib_sha256 lib"
  shows "\<exists>n. restaged s n s' \<and> built n \<and> tree_objects plib n = set objs
     \<and> (\<forall>p b. file_bytes n p = Some b \<longrightarrow> p \<in> (\<lambda>obj. components (vo_path obj)) ` set objs)"
proof -
  have dist: "distinct (map (\<lambda>obj. components (vo_path obj)) objs)"
    using objs(2,3) components_inject by (auto simp: distinct_map inj_on_def)
  obtain n where n: "restaged s n s'" "built n"
    "\<forall>obj \<in> set objs. file_path (vo_path obj)
          \<and> (\<exists>bytes. file_bytes n (components (vo_path obj)) = Some bytes \<and> describes (lib_sha256 lib) obj bytes)"
    "\<forall>p. p \<notin> (\<lambda>obj. components (vo_path obj)) ` set objs \<longrightarrow> file_bytes n p = None"
    using materialize_Ok[OF run empty _ dist] by (auto simp: file_bytes_empty)
  have mine: "object_for plib (join_with SLASH (components (vo_path obj)), b) = obj"
    if "obj \<in> set objs" "file_bytes n (components (vo_path obj)) = Some b" for obj b
    using n(3) that objs(1) object_described[of plib obj b] sha by (fastforce simp: native_def)
  have "tree_objects plib n = set objs"
  proof (intro subset_antisym subsetI)
    fix x assume "x \<in> tree_objects plib n"
    then obtain p b where x: "x = object_for plib (join_with SLASH p, b)" "file_bytes n p = Some b" by (auto simp: tree_objects_def)
    then obtain obj where "obj \<in> set objs" "p = components (vo_path obj)" using n(4) by fastforce
    with mine x show "x \<in> set objs" by metis
  next
    fix obj assume obj: "obj \<in> set objs"
    then obtain b where "file_bytes n (components (vo_path obj)) = Some b" using n(3) by blast
    with mine[OF obj this] show "obj \<in> tree_objects plib n" unfolding tree_objects_def by (intro CollectI exI conjI) simp_all
  qed
  with n show ?thesis by (intro exI[of _ n]) fastforce
qed


lemma copy_source_Ok:
  assumes run: "copy_source source t s = (Ok u, s')" and n: "st_content s = Some n" "built n"
  shows "\<exists>n' b. source = Some (FileNode (length b) (Some b)) \<and> length b \<le> MAX_PUBLICATION_BYTES
     \<and> file_path (RelativePath t) \<and> restaged s n' s' \<and> built n'
     \<and> file_bytes n' = (file_bytes n)(components (RelativePath t) \<mapsto> b)"
proof -
  obtain len p t1 t2 t3 copied where source: "validate_source source = Ok len" and p: "path_under t = Ok p"
    and parent: "make_parent p s = (Ok (), t1)" and opened: "attempt CliInvalidSource Some t1 = (Ok (), t2)"
    and created: "put_content CliTemporaryStorage p [] t2 = (Ok (), t3)"
    and read: "(case source of Some (FileNode _ (Some bytes)) \<Rightarrow> Ok (take (MAX_PUBLICATION_BYTES + 1) bytes)
       | _ \<Rightarrow> Err CliInvalidSource) = Ok copied"
    and filled: "put_content CliInvalidSource p copied t3 = (Ok (), s')" "length copied = len"
    "length copied \<le> MAX_PUBLICATION_BYTES"
    using run by (auto simp: copy_source_def action_simps split: if_splits)
  obtain b where b: "source = Some (FileNode len (Some b))" "copied = take (MAX_PUBLICATION_BYTES + 1) b"
    using source read by (auto simp: validate_source_def split: option.splits node.splits if_splits)
  have whole: "copied = b" "len = length b" using b filled(2,3) by auto
  have path: "file_path (RelativePath t)" "p = components (RelativePath t)" using p by (simp_all add: path_under_Ok)
  have names: "list_all file_name_ok p" using file_path_components(2)[OF path(1)] valid_segments_names path(2) by simp
  obtain m where m: "create_dir_all n (butlast p) = Some m" "restaged s m t1"
    using content_action[OF parent[unfolded make_parent_def] n(1)] by blast
  have "restaged t1 m t2"
    using opened restaged_simps(1)[OF m(2)] restaged_faults by (auto simp: action_simps)
  with m have m2: "restaged s m t2" using restaged_trans by blast
  obtain k where k: "write_node m p [] = Some k" "restaged t2 k t3"
    using content_action[OF created[unfolded put_content_def] restaged_simps(1)[OF m2]] by blast
  obtain n' where n': "write_node k p b = Some n'" "restaged t3 n' s'"
    using content_action[OF filled(1)[unfolded put_content_def whole(1)] restaged_simps(1)[OF k(2)]] by blast
  have "list_all file_name_ok (butlast p)" using names by (auto simp: list_all_iff dest: in_set_butlastD)
  then have "built n'"
    using n(2) m(1) k(1) n'(1) names built_create_dir_all built_write_node by blast
  moreover have "file_bytes n' = (file_bytes n)(p \<mapsto> b)"
    using write_node_bytes[OF n'(1)] write_node_bytes[OF k(1)] create_dir_all_bytes[OF m(1)] by simp
  moreover have "restaged s n' s'" using m2 k(2) n'(2) restaged_trans by blast
  ultimately show ?thesis using b(1) whole filled(3) path by blast
qed

lemma remove_paths_Ok:
  assumes "remove_paths ts s = (Ok u, s')" "st_content s = Some n" "built n"
  shows "\<exists>n'. restaged s n' s' \<and> built n' \<and> (\<forall>t \<in> set ts. file_path (RelativePath t))
     \<and> file_bytes n' = (file_bytes n) |` (- (\<lambda>t. components (RelativePath t)) ` set ts)"
  using assms
proof (induction ts arbitrary: s n)
  case Nil
  then show ?case using restaged_refl by (intro exI[of _ n]) (auto simp: action_simps restrict_map_def)
next
  case (Cons t ts)
  obtain p s1 where p: "path_under t = Ok p" "remove_content p s = (Ok (), s1)" "remove_paths ts s1 = (Ok u, s')"
    using Cons.prems(1) by (auto simp: action_simps)
  obtain m where m: "remove_file n p = Some m" "restaged s m s1"
    using content_action[OF p(2)[unfolded remove_content_def] Cons.prems(2)] by blast
  have path: "file_path (RelativePath t)" "p = components (RelativePath t)" using p(1) by (simp_all add: path_under_Ok)
  obtain n' where n': "restaged s1 n' s'" "built n'" "\<forall>t \<in> set ts. file_path (RelativePath t)"
    "file_bytes n' = (file_bytes m) |` (- (\<lambda>t. components (RelativePath t)) ` set ts)"
    using Cons.IH[OF p(3) restaged_simps(1)[OF m(2)] built_remove_file[OF Cons.prems(3) m(1)]] by blast
  have "file_bytes n' = (file_bytes n) |` (- (\<lambda>t. components (RelativePath t)) ` set (t # ts))"
    using remove_file_bytes[OF m(1)] path(2) by (auto simp: n'(4) restrict_map_def fun_eq_iff)
  with n' path(1) restaged_trans[OF m(2) n'(1)] show ?case by auto
qed

subsection \<open>A tree as an index\<close>

definition tree_index :: "publisher_lib \<Rightarrow> node \<Rightarrow> relative_path \<Rightarrow> visible_object option" where
  "tree_index plib n k =
     map_option (\<lambda>b. object_for plib (rp_str k, b)) (file_bytes n (split_on SLASH (rp_str k)))"

lemma file_path_split: "file_path k \<Longrightarrow> split_on SLASH (rp_str k) = components k"
  using split_file_names[of "components k"] file_path_components[of k] valid_segments_names by simp

lemma split_on_eq_iff: "split_on SLASH a = split_on SLASH b \<longleftrightarrow> a = b"
  by (metis join_split_on)

lemma tree_index_put:
  assumes "file_bytes n' = (file_bytes n)(components k \<mapsto> b)" "file_path k"
  shows "tree_index plib n' = (tree_index plib n)(k \<mapsto> object_for plib (rp_str k, b))"
proof
  fix q
  have "split_on SLASH (rp_str q) = components k \<longleftrightarrow> q = k"
    using split_on_eq_iff[of "rp_str q" "rp_str k"] file_path_split[OF assms(2)] by (metis relative_path.expand)
  then show "tree_index plib n' q = ((tree_index plib n)(k \<mapsto> object_for plib (rp_str k, b))) q"
    by (auto simp: tree_index_def assms(1))
qed

lemma tree_index_remove:
  assumes "file_bytes n' = (file_bytes n) |` (- (\<lambda>t. components (RelativePath t)) ` T)"
    and "\<forall>t \<in> T. file_path (RelativePath t)"
  shows "tree_index plib n' = (tree_index plib n) |` {k. rp_str k \<notin> T}"
proof
  fix q
  have "split_on SLASH (rp_str q) \<in> (\<lambda>t. components (RelativePath t)) ` T \<longleftrightarrow> rp_str q \<in> T"
  proof -
    have "(\<lambda>t. components (RelativePath t)) ` T = split_on SLASH ` T"
      using assms(2) file_path_split by (intro image_cong) (auto, metis relative_path.sel)
    then show ?thesis using split_on_eq_iff by auto
  qed
  then show "tree_index plib n' q = ((tree_index plib n) |` {k. rp_str k \<notin> T}) q"
    by (auto simp: tree_index_def assms(1) restrict_map_def)
qed

lemma tree_index_objects:
  assumes objs: "tree_objects plib n = set (index_objects idx)" and wf: "index_wf idx"
    and n: "built n" "is_directory_node n"
  shows "tree_index plib n = bt_get (objects idx)"
proof
  fix k
  have "tree_index plib n k = Some obj \<longleftrightarrow> bt_get (objects idx) k = Some obj" for obj
  proof
    assume "tree_index plib n k = Some obj"
    then obtain b where b: "file_bytes n (split_on SLASH (rp_str k)) = Some b" "obj = object_for plib (rp_str k, b)"
      by (auto simp: tree_index_def)
    have "obj \<in> tree_objects plib n" unfolding tree_objects_def
      using b join_split_on[of SLASH "rp_str k"] by (intro CollectI exI[of _ "split_on SLASH (rp_str k)"] exI[of _ b]) simp
    with objs wf index_objects_iff have "bt_get (objects idx) (vo_path obj) = Some obj" by blast
    moreover have "vo_path obj = k" using b(2) by (simp add: object_for_def)
    ultimately show "bt_get (objects idx) k = Some obj" by simp
  next
    assume get: "bt_get (objects idx) k = Some obj"
    then have k: "vo_path obj = k" using index_wf_get[OF wf] by blast
    with get have "obj \<in> tree_objects plib n" using objs index_objects_iff[OF wf] by simp
    then obtain p b where p: "obj = object_for plib (join_with SLASH p, b)" "file_bytes n p = Some b" by (auto simp: tree_objects_def)
    have "p \<noteq> []" using p(2) n(2) by (cases n) auto
    then have "split_on SLASH (join_with SLASH p) = p" using split_file_names file_bytes_names[OF n(1) p(2)] by simp
    moreover have "rp_str k = join_with SLASH p" using k p(1) by (auto simp: object_for_def)
    ultimately show "tree_index plib n k = Some obj" using p by (simp add: tree_index_def)
  qed
  then show "tree_index plib n k = bt_get (objects idx) k" by (metis not_Some_eq)
qed

lemma tree_index_empty: "tree_index plib n = Map.empty \<longleftrightarrow> file_bytes n = Map.empty" if "built n" "is_directory_node n"
proof
  assume empty: "tree_index plib n = Map.empty"
  show "file_bytes n = Map.empty"
  proof
    fix p
    show "file_bytes n p = None"
    proof (rule ccontr)
      assume "file_bytes n p \<noteq> None"
      then obtain b where b: "file_bytes n p = Some b" by blast
      have "p \<noteq> []" using b that(2) by (cases n) auto
      then have "split_on SLASH (join_with SLASH p) = p" using split_file_names file_bytes_names[OF that(1) b] by simp
      then have "tree_index plib n (RelativePath (join_with SLASH p)) \<noteq> None" using b by (simp add: tree_index_def)
      with empty show False by simp
    qed
  qed
qed (simp add: tree_index_def fun_eq_iff)

subsection \<open>Publishing\<close>

lemma files_below_built: "built n \<Longrightarrow> files_below n = dom (file_bytes n)"
proof (rule set_eqI)
  fix p assume n: "built n"
  show "p \<in> files_below n \<longleftrightarrow> p \<in> dom (file_bytes n)"
    using file_bytes_built[OF n, of p] built_find[OF n, of p]
    by (auto simp: files_below_def split: option.splits)
qed

lemma visit_files_set:
  "wf_node n \<Longrightarrow> visit_files n path = Ok r \<Longrightarrow> set r = (\<lambda>p. path @ p) ` files_below n"
  "distinct (map fst es) \<Longrightarrow> list_all (\<lambda>(name, n). wf_node n) es \<Longrightarrow> visit_entries es path = Ok r \<Longrightarrow>
     set r = (\<lambda>p. path @ p) ` files_below (DirNode True es)"
proof (induction n path and es path arbitrary: r and r rule: visit_files_visit_entries.induct)
  case (1 current path)
  then obtain es where d: "current = DirNode True es" "visit_entries es path = Ok r"
    by (auto split: node.splits bool.splits)
  with "1.IH"[OF d(1) refl _ _ d(2)] "1.prems"(1) show ?case by (auto simp: list_all_iff)
next
  case (2 path)
  then show ?case by (simp add: files_below_directory)
next
  case (3 name n es path)
  have dist: "distinct (map fst es)" and wf: "wf_node n" "list_all (\<lambda>(name, n). wf_node n) es"
    using "3.prems" by simp_all
  have split: "(\<lambda>p. path @ p) ` files_below (DirNode True ((name, n) # es))
     = (\<lambda>p. (path @ [name]) @ p) ` files_below n \<union> (\<lambda>p. path @ p) ` files_below (DirNode True es)"
    using "3.prems"(1) dist by (auto simp: files_below_directory image_iff)
  show ?case
  proof (cases n)
    case (FileNode l c)
    obtain q where "visit_entries es path = Ok q" "r = (path @ [name]) # q" using "3.prems"(3) FileNode by auto
    with "3.IH"(1)[OF FileNode dist wf(2)] show ?thesis using split[unfolded FileNode files_below_simps] by (simp add: FileNode)
  next
    case (DirNode b ds)
    obtain q1 q2 where q: "visit_files n (path @ [name]) = Ok q1" "visit_entries es path = Ok q2" "r = q1 @ q2"
      using "3.prems"(3) DirNode by auto
    show ?thesis using "3.IH"(2)[OF DirNode wf(1) q(1)] "3.IH"(3)[OF DirNode dist wf(2) q(2)] split q(3) by simp
  qed (use "3.prems"(3) in simp_all)
qed

lemma collect_regular_files_Nil:
  assumes "built n" "collect_regular_files (Some n) = Ok files"
  shows "files = [] \<longleftrightarrow> file_bytes n = Map.empty"
proof -
  have "visit_files n [] = Ok files" using assms(2) by (simp add: collect_regular_files_def)
  from visit_files_set(1)[OF built_wf[OF assms(1)] this]
  have "set files = dom (file_bytes n)" by (simp add: files_below_built[OF assms(1)])
  then show ?thesis using set_empty[of files] dom_eq_empty_conv[of "file_bytes n"] by metis
qed

text \<open>What a call finds when it publishes the index \<open>m\<close>: the two fixed files, of which the second names
  the manifest by its digest and its size; the manifest under its digest, which the client's parser
  reads as \<open>m\<close>; the configuration and the blob of every object under their digests; and nothing that
  is not under the digest of its own bytes.\<close>

definition single_index :: "publisher_lib \<Rightarrow> string \<Rightarrow> layout_index" where
  "single_index plib manifest =
     \<lparr>li_schema_version = 2,
      li_manifests = [\<lparr>ld_media_type = MANIFEST_MEDIA_TYPE, ld_digest = digest_bytes plib manifest,
        ld_size = length manifest, ld_annotations = bt_insert REF_NAME_ANNOTATION AUTO_INDEX_REFERENCE []\<rparr>]\<rparr>"

definition describes_index :: "(string \<Rightarrow> manifest option) \<Rightarrow> string \<Rightarrow> (relative_path \<Rightarrow> visible_object option) \<Rightarrow> bool" where
  "describes_index de manifest m \<longleftrightarrow> (\<exists>snapshot. parse_autoindex_manifest de manifest = Ok snapshot
     \<and> as_crud_compatible snapshot \<and> index_wf (as_index snapshot) \<and> bt_get (objects (as_index snapshot)) = m)"

definition holds_publication :: "publisher_lib \<Rightarrow> (string \<Rightarrow> manifest option) \<Rightarrow> node \<Rightarrow> (relative_path \<Rightarrow> visible_object option) \<Rightarrow> bool" where
  "holds_publication plib de layout m \<longleftrightarrow> (\<exists>manifest marker listing.
     describes_index de manifest m
     \<and> pl_layout_json plib OCI_LAYOUT_VERSION = Some marker \<and> file_bytes layout [''oci-layout''] = Some marker
     \<and> pl_index_json plib (single_index plib manifest) = Some listing \<and> file_bytes layout [''index.json''] = Some listing
     \<and> file_bytes layout (blob_path (pl_sha plib manifest)) = Some manifest
     \<and> held plib layout (digest_bytes plib EMPTY_CONFIG) \<and> (\<forall>obj \<in> ran m. held plib layout (vo_digest obj))
     \<and> (\<forall>path bytes. file_bytes layout path = Some bytes \<longrightarrow>
          path \<in> {[''oci-layout''], [''index.json''], blob_path (pl_sha plib bytes)}))"

text \<open>Every call of ORAS uses a configuration of its own when there are credentials.\<close>

definition oras_directory :: "config \<Rightarrow> string \<Rightarrow> string option" where
  "oras_directory cfg work = map_option (\<lambda>_. path_join work ''docker-config'') (cf_token_credentials cfg)"

definition publishes ::
    "publisher_lib \<Rightarrow> (string \<Rightarrow> manifest option) \<Rightarrow> config \<Rightarrow> string \<Rightarrow> (relative_path \<Rightarrow> visible_object option) \<Rightarrow> oras_call \<Rightarrow> bool" where
  "publishes plib de cfg work m call \<longleftrightarrow>
     oc_succeeded call \<and> oc_stdin call = [] \<and> oc_docker_config call = oras_directory cfg work
     \<and> (if m = Map.empty then oc_arguments call = delete_arguments cfg
        else oc_arguments call = copy_arguments cfg work
          \<and> (\<exists>layout. oc_layout call = Some layout \<and> holds_publication plib de layout m))"

text \<open>The calls a successful run of ORAS makes.\<close>

definition login_calls :: "config \<Rightarrow> string \<Rightarrow> node option \<Rightarrow> oras_call list" where
  "login_calls cfg work layout = (case cf_token_credentials cfg of
     None \<Rightarrow> []
   | Some credentials \<Rightarrow> [\<lparr>oc_arguments = login_arguments cfg (tc_username credentials),
       oc_docker_config = oras_directory cfg work, oc_stdin = tc_password credentials @ [CHR 0x0A], oc_layout = layout,
       oc_succeeded = True\<rparr>])"

definition run_call :: "config \<Rightarrow> string \<Rightarrow> node option \<Rightarrow> string list \<Rightarrow> oras_call" where
  "run_call cfg work layout arguments = \<lparr>oc_arguments = arguments,
     oc_docker_config = oras_directory cfg work, oc_stdin = [], oc_layout = layout, oc_succeeded = True\<rparr>"

lemma call_oras_Ok:
  "call_oras arguments docker stdin s = (Ok u, s') \<Longrightarrow>
     st_calls s' = st_calls s @ [\<lparr>oc_arguments = arguments, oc_docker_config = docker,
       oc_stdin = stdin, oc_layout = st_layout s, oc_succeeded = True\<rparr>] \<and> st_layout s' = st_layout s"
  by (auto simp: call_oras_def note_success_def action_simps split: if_splits)

lemma run_oras_Ok:
  assumes "run_oras cfg arguments s = (Ok u, s')"
  shows "st_calls s' = st_calls s @ login_calls cfg (the (st_work s)) (st_layout s)
     @ [run_call cfg (the (st_work s)) (st_layout s) arguments]"
proof (cases "cf_token_credentials cfg")
  case None
  then have "call_oras arguments None [] s = (Ok u, s')"
    using assms by (auto simp: run_oras_def action_simps)
  from call_oras_Ok[OF this] show ?thesis by (auto simp: login_calls_def run_call_def oras_directory_def None)
next
  case (Some credentials)
  obtain t1 t2 where t1: "t1 = s\<lparr>st_faults := tl (st_faults s), st_docker := True\<rparr>"
    and login: "call_oras (login_arguments cfg (tc_username credentials)) (Some (docker_directory s))
        (tc_password credentials @ [CHR 0x0A]) t1 = (Ok (), t2)"
    and run: "call_oras arguments (Some (docker_directory s)) [] t2 = (Ok u, s')"
    using assms by (auto simp: run_oras_def login_oras_def action_simps Some split: if_splits)
  have "st_layout t1 = st_layout s" "st_calls t1 = st_calls s" by (simp_all add: t1)
  with call_oras_Ok[OF login] call_oras_Ok[OF run] show ?thesis
    by (auto simp: login_calls_def run_call_def oras_directory_def docker_directory_def Some)
qed


text \<open>A layout from a directory the program has built.\<close>

context publisher_contract
begin

lemma published_tree:
  assumes n: "built n" and p: "from_directory lib (Some n) = Ok p" and files: "from_files lib (Some n) paths = Ok p"
  shows "describes_index (from_slice json_of manifest_of_json) (pn_manifest p) (tree_index lib n)"
    and "\<forall>obj \<in> ran (tree_index lib n). \<exists>blob \<in> set (pn_blobs p). digest_bytes lib (pb_bytes blob) = vo_digest obj"
proof -
  obtain s where s: "parse_autoindex_manifest (from_slice json_of manifest_of_json) (pn_manifest p) = Ok s" "as_crud_compatible s" "index_wf (as_index s)"
    "set (index_objects (as_index s)) = {object_for lib (join_with SLASH segs, b) | segs b.
          find_node n segs = Some (FileNode (length b) (Some b))}"
    using published_directory[OF built_wf[OF n] p] by blast
  have dir: "is_directory_node n" using p by (cases n) (simp_all add: from_directory_def)
  have "tree_objects lib n = set (index_objects (as_index s))"
    unfolding s(4) tree_objects_def file_bytes_built[OF n] by blast
  then have tree: "tree_index lib n = bt_get (objects (as_index s))" by (rule tree_index_objects[OF _ s(3) n dir])
  show "describes_index (from_slice json_of manifest_of_json) (pn_manifest p) (tree_index lib n)"
    unfolding describes_index_def by (intro exI[of _ s] conjI s(1-3) tree[symmetric])
  show "\<forall>obj \<in> ran (tree_index lib n). \<exists>blob \<in> set (pn_blobs p). digest_bytes lib (pb_bytes blob) = vo_digest obj"
  proof
    fix obj assume "obj \<in> ran (tree_index lib n)"
    then obtain k where "bt_get (objects (as_index s)) k = Some obj" unfolding tree by (auto simp: ran_def)
    with index_wf_get[OF s(3)] index_objects_iff[OF s(3)] have "obj \<in> set (index_objects (as_index s))" by metis
    with published_object_blobs[OF files s(1)] publication_blobs(1)[OF files]
    show "\<exists>blob \<in> set (pn_blobs p). digest_bytes lib (pb_bytes blob) = vo_digest obj" by fastforce
  qed
qed

lemma published_layout:
  assumes n: "built n" and p: "from_directory lib (Some n) = Ok p" and files: "from_files lib (Some n) paths = Ok p"
    and json: "pl_layout_json lib OCI_LAYOUT_VERSION = Some marker" "pl_index_json lib (publication_index p AUTO_INDEX_REFERENCE) = Some listing"
    and layout: "file_bytes layout = (map_of (rev (blob_files lib p)))([''oci-layout''] \<mapsto> marker, [''index.json''] \<mapsto> listing)"
  shows "holds_publication lib (from_slice json_of manifest_of_json) layout (tree_index lib n)"
proof -
  have index: "publication_index p AUTO_INDEX_REFERENCE = single_index lib (pn_manifest p)"
    using publication_blobs(8)[OF files] by (simp add: publication_index_def single_index_def)
  have config: "held lib layout (digest_bytes lib EMPTY_CONFIG)"
    using config_blob[OF files] by (intro layout_holds(1)[OF layout] bexI) (auto simp: blob_for_def)
  show ?thesis
    unfolding holds_publication_def
  proof (rule exI[of _ "pn_manifest p"], rule exI[of _ marker], rule exI[of _ listing], intro conjI)
    show "\<forall>obj \<in> ran (tree_index lib n). held lib layout (vo_digest obj)"
      using published_tree(2)[OF n p files] layout_holds(1)[OF layout] by blast
    show "\<forall>path bytes. file_bytes layout path = Some bytes \<longrightarrow>
          path \<in> {[''oci-layout''], [''index.json''], blob_path (pl_sha lib bytes)}"
      using layout_holds(3)[OF layout] by blast
  qed (use published_tree(1)[OF n p files] json config layout_holds(2)[OF layout] in \<open>simp_all add: index layout\<close>)
qed

end

lemma write_layout_Ok:
  assumes run: "write_layout plib p s = (Ok u, s')" and p: "from_files plib (Some n) paths = Ok p"
  shows "\<exists>layout marker listing. st_layout s' = Some layout \<and> st_work s' = st_work s \<and> st_calls s' = st_calls s
     \<and> pl_layout_json plib OCI_LAYOUT_VERSION = Some marker
     \<and> pl_index_json plib (publication_index p AUTO_INDEX_REFERENCE) = Some listing
     \<and> file_bytes layout = (map_of (rev (blob_files plib p)))([''oci-layout''] \<mapsto> marker, [''index.json''] \<mapsto> listing)"
proof -
  obtain d where d: "write_oci_layout plib p AUTO_INDEX_REFERENCE \<lparr>dk_destination = st_layout s, dk_faults = st_faults s\<rparr> = (Ok (), d)"
    "s' = s\<lparr>st_layout := dk_destination d, st_faults := dk_faults d\<rparr>"
    using run by (auto simp: write_layout_def split: prod.splits)
  from write_oci_layout_Ok[OF d(1) publication_blobs(1)[OF p] conjunct1[OF publication_blobs(8)[OF p]]]
  obtain marker listing where "pl_layout_json plib OCI_LAYOUT_VERSION = Some marker"
    "pl_index_json plib (publication_index p AUTO_INDEX_REFERENCE) = Some listing" "dk_destination d \<noteq> None"
    "dest_bytes d = (map_of (rev (blob_files plib p)))([''oci-layout''] \<mapsto> marker, [''index.json''] \<mapsto> listing)" by auto
  then show ?thesis using d(2) by (auto simp: dest_bytes_def)
qed

lemma publish_Ok:
  assumes contract: "publisher_contract plib json_of" and run: "publish plib cfg s = (Ok u, s')"
    and n: "st_content s = Some n" "built n" "is_directory_node n"
  shows "\<exists>call. st_calls s' = st_calls s @ login_calls cfg (the (st_work s)) (oc_layout call) @ [call]
     \<and> publishes plib (from_slice json_of manifest_of_json) cfg (the (st_work s)) (tree_index plib n) call"
proof -
  obtain files where files: "collect_regular_files (Some n) = Ok files"
    and rest: "(if files = [] then run_oras cfg (delete_arguments cfg)
       else
       and_do (give (map_err (\<lambda>_. CliPublication) (from_directory plib (st_content s)))) (\<lambda>publication.
       and_do (write_layout plib publication) (\<lambda>_.
       run_oras cfg (copy_arguments cfg (the (st_work s)))))) s = (Ok u, s')"
    using run by (auto simp: publish_def action_simps n(1))
  have empty: "files = [] \<longleftrightarrow> tree_index plib n = Map.empty"
    using collect_regular_files_Nil[OF n(2) files] tree_index_empty[OF n(2,3)] by simp
  show ?thesis
  proof (cases "files = []")
    case True
    with rest have "run_oras cfg (delete_arguments cfg) s = (Ok u, s')" by simp
    from run_oras_Ok[OF this] True empty show ?thesis
      by (intro exI[of _ "run_call cfg (the (st_work s)) (st_layout s) (delete_arguments cfg)"])
        (simp add: publishes_def run_call_def)
  next
    case False
    obtain p t where p: "from_directory plib (Some n) = Ok p" and written: "write_layout plib p s = (Ok (), t)"
      and ran: "run_oras cfg (copy_arguments cfg (the (st_work s))) t = (Ok u, s')"
      using rest False by (auto simp: action_simps n(1))
    obtain paths where paths: "from_files plib (Some n) paths = Ok p"
      using from_directory_files[OF built_wf[OF n(2)] p] by blast
    from write_layout_Ok[OF written this] obtain layout marker listing where
      t: "st_layout t = Some layout" "st_work t = st_work s" "st_calls t = st_calls s" and files: "pl_layout_json plib OCI_LAYOUT_VERSION = Some marker"
        "pl_index_json plib (publication_index p AUTO_INDEX_REFERENCE) = Some listing"
        "file_bytes layout = (map_of (rev (blob_files plib p)))([''oci-layout''] \<mapsto> marker, [''index.json''] \<mapsto> listing)" by blast
    have "holds_publication plib (from_slice json_of manifest_of_json) layout (tree_index plib n)"
      by (rule publisher_contract.published_layout[OF contract n(2) p paths files])
    with run_oras_Ok[OF ran] False empty show ?thesis
      by (intro exI[of _ "run_call cfg (the (st_work s)) (st_layout t) (copy_arguments cfg (the (st_work s)))"])
        (simp add: publishes_def run_call_def t)
  qed
qed

subsection \<open>What is loaded\<close>

lemma native_projection:
  assumes "parse_autoindex_manifest de bytes = Ok s" "as_crud_compatible s"
  shows "native (set (index_objects (as_index s)))" "index_wf (as_index s)"
proof -
  obtain m where m: "de bytes = Some m" using assms(1) by (auto simp: parse_autoindex_manifest_def)
  note parsed = parse_autoindex_manifest_Ok(2)[where de = de and bytes = bytes, OF m assms(1)]
  then show "index_wf (as_index s)" by blast
  have "vo_media_type (layer_object d) = media_type_for (rp_str (vo_path (layer_object d)))" if "d \<in> set (visible_layers m)" for d
  proof -
    have "is_native_publisher_layer d"
      using that parsed assms(2) by (auto simp: crud_compatible_def list_all_iff visible_layers_def)
    then show ?thesis by (auto simp: is_native_publisher_layer_def layer_object_def split: option.splits)
  qed
  then show "native (set (index_objects (as_index s)))" using parsed by (auto simp: native_def)
qed

definition loaded_index :: "autoindex_snapshot option \<Rightarrow> index" where
  "loaded_index current = (case current of Some snapshot \<Rightarrow> as_index snapshot | None \<Rightarrow> index_default)"

lemma load_snapshot_Ok:
  assumes "exec (load_snapshot lib c repository) tr (Ok current)"
  shows "native (set (index_objects (loaded_index current)))" "index_wf (loaded_index current)"
    "current_objects current = index_objects (loaded_index current)"
proof -
  show "current_objects current = index_objects (loaded_index current)"
    by (cases current) (simp_all add: current_objects_def loaded_index_def index_objects_def index_default_def bt_values_def)
  show "native (set (index_objects (loaded_index current)))" "index_wf (loaded_index current)"
  proof (atomize (full), cases current)
    case None
    then show "native (set (index_objects (loaded_index current))) \<and> index_wf (loaded_index current)"
      by (simp add: loaded_index_def index_wf_default native_def)
  next
    case (Some snapshot)
    obtain r where r: "exec (autoindex_snapshot_io lib c repository None) tr r"
      and some: "(case r of
        Inr snapshot \<Rightarrow> if as_crud_compatible snapshot then Ok (Some snapshot) else Err CliInvalidArtifact
      | Inl OciNotFound \<Rightarrow> Ok None
      | Inl (OciUnauthorized _) \<Rightarrow> Err CliRegistry
      | Inl OciForbidden \<Rightarrow> Err CliRegistry
      | Inl _ \<Rightarrow> Err CliInvalidArtifact) = Ok (Some snapshot)"
      using assms Some unfolding load_snapshot_def exec_bind advance_Return by auto
    have loaded: "exec (autoindex_snapshot_io lib c repository None) tr (Ok snapshot) \<and> as_crud_compatible snapshot"
    proof (cases r)
      case (Inl e)
      with some show ?thesis by (cases e) simp_all
    next
      case (Inr x)
      with some r show ?thesis by (simp split: if_splits)
    qed
    then obtain bytes where "parse_autoindex_manifest (lib_manifest_json lib) bytes = Ok snapshot"
      by (auto simp: autoindex_snapshot_io_def exec_try)
    from native_projection[OF this] loaded show "native (set (index_objects (loaded_index current))) \<and> index_wf (loaded_index current)"
      by (simp add: loaded_index_def Some)
  qed
qed

lemma index_objects_distinct:
  assumes "index_wf idx"
  shows "distinct (map vo_path (index_objects idx))" "\<forall>obj \<in> set (index_objects idx). file_path (vo_path obj)"
proof -
  have wf: "bt_wf (objects idx)" using assms by (rule index_wf_bt)
  have key: "vo_path obj = k \<and> file_path k" if "(k, obj) \<in> set (objects idx)" for k obj
  proof -
    have "distinct (map fst (objects idx))" using wf by (simp add: bt_wf_def strict_sorted_iff)
    then have "bt_get (objects idx) k = Some obj" using that by (simp add: bt_get_def)
    with index_wf_get[OF assms] show ?thesis by blast
  qed
  have "map vo_path (index_objects idx) = bt_keys (objects idx)"
    using key by (auto simp: index_objects_def bt_values_def bt_keys_def)
  then show "distinct (map vo_path (index_objects idx))" using wf by (simp add: bt_wf_def bt_keys_def strict_sorted_iff)
  show "\<forall>obj \<in> set (index_objects idx). file_path (vo_path obj)"
    using key by (auto simp: index_objects_def bt_values_def)
qed

lemma publish_directory: "publish plib cfg s = (Ok u, s') \<Longrightarrow> st_content s = Some n \<Longrightarrow> is_directory_node n"
  by (cases n) (auto simp: publish_def action_simps collect_regular_files_def)

subsection \<open>The edit of the index\<close>

definition selects :: "string \<Rightarrow> string \<Rightarrow> bool" where
  "selects path t \<longleftrightarrow> (if ends_with path ''/'' then starts_with t path else t = path)"

lemma matching_paths_eq: "matching_paths path paths = filter (selects path) paths"
  by (auto simp: matching_paths_def selects_def cong: filter_cong)

type_synonym published = "relative_path \<Rightarrow> visible_object option"

definition with_source :: "publisher_lib \<Rightarrow> node option \<Rightarrow> string \<Rightarrow> published \<Rightarrow> published" where
  "with_source plib source path m =
     (case source of Some (FileNode _ (Some b)) \<Rightarrow> m(RelativePath path \<mapsto> object_for plib (path, b)) | _ \<Rightarrow> m)"

fun edited :: "publisher_lib \<Rightarrow> (string \<Rightarrow> node option) \<Rightarrow> autoindex_command \<Rightarrow> published \<Rightarrow> published" where
  "edited plib files (Create source path _) m = with_source plib (files source) path m"
| "edited plib files (Update source path _) m = with_source plib (files source) path m"
| "edited plib files (Delete path _ _) m = m |` {k. \<not> selects path (rp_str k)}"

fun applicable :: "autoindex_command \<Rightarrow> published \<Rightarrow> bool" where
  "applicable (Create _ path _) m \<longleftrightarrow> RelativePath path \<notin> dom m"
| "applicable (Update _ path _) m \<longleftrightarrow> RelativePath path \<in> dom m"
| "applicable (Delete path _ _) m \<longleftrightarrow> (\<exists>k \<in> dom m. selects path (rp_str k))"

lemma object_paths_set:
  assumes "current_objects current = index_objects idx" "index_wf idx"
  shows "set (object_paths current) = rp_str ` dom (bt_get (objects idx))"
proof -
  have "vo_path ` set (index_objects idx) = dom (bt_get (objects idx))"
  proof (rule set_eqI)
    fix k
    show "k \<in> vo_path ` set (index_objects idx) \<longleftrightarrow> k \<in> dom (bt_get (objects idx))"
      using index_objects_iff[OF assms(2)] index_wf_get[OF assms(2), of k] by (auto simp: image_iff)
  qed
  then show ?thesis by (simp add: object_paths_def assms(1)) (metis image_image)
qed

lemma rp_str_in: "t \<in> rp_str ` K \<longleftrightarrow> RelativePath t \<in> K"
  by (metis image_iff relative_path.exhaust_sel relative_path.sel)

lemma affected_applicable:
  assumes "affected_files operation (object_paths current) = Ok affected"
    and "current_objects current = index_objects idx" "index_wf idx"
  shows "applicable operation (bt_get (objects idx))"
  using assms(1) object_paths_set[OF assms(2,3)]
  by (cases operation)
    (auto simp: rp_str_in matching_paths_eq filter_empty_conv Let_def split: if_splits)

lemma edit_content_Ok:
  assumes run: "edit_content operation paths s = (Ok u, s')" and n: "st_content s = Some n" "built n"
    and paths: "set paths = rp_str ` dom (tree_index plib n)"
  shows "\<exists>n'. restaged s n' s' \<and> built n' \<and> tree_index plib n' = edited plib (st_files s) operation (tree_index plib n)"
proof -
  have source: "\<exists>n'. restaged s n' s' \<and> built n'
      \<and> tree_index plib n' = with_source plib (st_files s source) path (tree_index plib n)"
    if copy: "copy_source (st_files s source) path s = (Ok u, s')" for source path
  proof -
    obtain n' b where n': "st_files s source = Some (FileNode (length b) (Some b))" "file_path (RelativePath path)"
      "restaged s n' s'" "built n'" "file_bytes n' = (file_bytes n)(components (RelativePath path) \<mapsto> b)"
      using copy_source_Ok[OF copy n] by blast
    with tree_index_put[OF n'(5,2)] show ?thesis by (auto simp: with_source_def)
  qed
  show ?thesis
  proof (cases operation)
    case (Delete path confirm dry_run)
    then have remove: "remove_paths (matching_paths path paths) s = (Ok u, s')" using run by simp
    obtain n' where n': "restaged s n' s'" "built n'" "\<forall>t \<in> set (matching_paths path paths). file_path (RelativePath t)"
      "file_bytes n' = (file_bytes n) |` (- (\<lambda>t. components (RelativePath t)) ` set (matching_paths path paths))"
      using remove_paths_Ok[OF remove n] by blast
    have "tree_index plib n' = (tree_index plib n) |` {k. rp_str k \<notin> set (matching_paths path paths)}"
      by (rule tree_index_remove[OF n'(4,3)])
    also have "\<dots> = (tree_index plib n) |` {k. \<not> selects path (rp_str k)}"
      using paths by (auto simp: matching_paths_eq rp_str_in restrict_map_def fun_eq_iff)
    finally show ?thesis using n'(1,2) by (auto simp: Delete)
  qed (use run source in auto)
qed

subsection \<open>A whole run\<close>

lemma make_temporary_Ok:
  "make_temporary k s = (Ok u, s') \<Longrightarrow> st_work s' \<noteq> None \<and> st_files s' = st_files s \<and> st_calls s' = st_calls s"
  by (induction k arbitrary: s) (fastforce simp: Let_def action_simps split: if_splits)+

lemma drop_temporary_calls [simp]: "st_calls (drop_temporary s) = st_calls s"
  by (simp add: drop_temporary_def)

lemma rebuild_Ok:
  assumes contract: "publisher_contract plib (lib_json lib)" and sha: "pl_sha plib = lib_sha256 lib"
    and run: "exec (rebuild lib plib cfg c operation current s) tr (Ok u, s')"
    and current: "current_objects current = index_objects idx" "index_wf idx" "native (set (index_objects idx))"
  shows "\<exists>call. st_calls s' = st_calls s @ login_calls cfg (the (st_work s)) (oc_layout call) @ [call]
     \<and> publishes plib (lib_manifest_json lib) cfg (the (st_work s)) (edited plib (st_files s) operation (bt_get (objects idx))) call"
proof -
  let ?s1 = "s\<lparr>st_faults := tl (st_faults s), st_content := Some (DirNode True [])\<rparr>"
  obtain t2 s2 t3 where staged: "exec (materialize lib c (repo_str (cf_repository cfg)) 0 (current_objects current) ?s1) t2 (Ok (), s2)"
    and edit: "edit_content operation (object_paths current) s2 = (Ok (), t3)" and publish: "publish plib cfg t3 = (Ok u, s')"
  proof -
    have first: "attempt CliTemporaryStorage (\<lambda>s. Some (s\<lparr>st_content := Some (DirNode True [])\<rparr>)) s = (Ok (), ?s1)"
      using run by (auto simp: rebuild_def attempt_def and_do_def fails_def split: list.splits if_splits bool.splits)
    obtain t1 t2 r w where r: "exec (materialize lib c (repo_str (cf_repository cfg)) 0 (current_objects current) ?s1) t1 (r, w)"
      "exec (case r of Inl e \<Rightarrow> Return (Inl e, w)
        | Inr _ \<Rightarrow> Return (and_do (edit_content operation (object_paths current)) (\<lambda>_. publish plib cfg) w)) t2 (Ok u, s')"
      using run unfolding rebuild_def first by (auto simp: exec_bind)
    have "and_do (edit_content operation (object_paths current)) (\<lambda>_. publish plib cfg) w = (Ok u, s')" "r = Ok ()"
      using r(2) by (auto split: sum.splits)
    then show thesis using r(1) that by (auto simp: and_do_Ok)
  qed
  have objs: "set (current_objects current) = set (index_objects idx)" using current(1) by simp
  obtain n where n: "restaged ?s1 n s2" "built n" "tree_objects plib n = set (index_objects idx)"
    "\<forall>p b. file_bytes n p = Some b \<longrightarrow> p \<in> (\<lambda>obj. components (vo_path obj)) ` set (index_objects idx)"
    using materialized_objects[OF staged _ _ _ _ sha] current index_objects_distinct[OF current(2)] by auto
  have "file_bytes n [] = None"
    using n(4) index_objects_distinct(2)[OF current(2)] file_path_components(1) by fastforce
  with n(2) have "is_directory_node n" by (cases n) (auto split: option.splits)
  with n(2,3) current(2) have index: "tree_index plib n = bt_get (objects idx)" by (intro tree_index_objects)
  have paths: "set (object_paths current) = rp_str ` dom (tree_index plib n)"
    using object_paths_set[OF current(1,2)] index by simp
  note s2 = restaged_simps[OF n(1)]
  obtain n' where n': "restaged s2 n' t3" "built n'"
    "tree_index plib n' = edited plib (st_files s2) operation (tree_index plib n)"
    using edit_content_Ok[OF edit s2(1) n(2) paths] by blast
  note t3 = restaged_simps[OF n'(1)]
  obtain call where "st_calls s' = st_calls t3 @ login_calls cfg (the (st_work t3)) (oc_layout call) @ [call]"
    "publishes plib (lib_manifest_json lib) cfg (the (st_work t3)) (tree_index plib n') call"
    using publish_Ok[OF contract publish t3(1) n'(2) publish_directory[OF publish t3(1)]] unfolding lib_manifest_json_def by blast
  then show ?thesis using s2 t3 n'(3) index by (intro exI[of _ call]) simp
qed

end
