(* ===== verification/Autoindex_Runs.thy ===== *)
theory Autoindex_Runs
  imports Autoindex_Edit
begin

text \<open>
  Whole runs of the file commands: the calls of ORAS that any run makes, failed ones too, and the
  properties of a run with an example.
\<close>

subsection \<open>The parts of a run\<close>

lemma execute_Ok:
  assumes "exec (execute lib plib cfg c operation s) tr (Ok message, s')"
  shows "\<exists>current affected t1 t2. check_command operation (st_files s) = Ok ()
     \<and> exec (load_snapshot lib c (repo_str (cf_repository cfg))) t1 (Ok current) \<and> tr = t1 @ t2
     \<and> affected_files operation (object_paths current) = Ok affected
     \<and> (if command_dry_run operation
        then t2 = [] \<and> s' = s \<and> message = result_message (''would '' @ dry_run_action operation) (command_path operation) affected
        else message = result_message (done_action operation) (command_path operation) affected
          \<and> (\<exists>s1 s2. temporary_directory s = (Ok (), s1) \<and> exec (rebuild lib plib cfg c operation current s1) t2 (Ok (), s2)
              \<and> s' = drop_temporary s2))"
proof -
  have check: "check_command operation (st_files s) = Ok ()"
    using assms by (auto simp: execute_def split: sum.splits)
  obtain t1 t2 loaded where load: "exec (load_snapshot lib c (repo_str (cf_repository cfg))) t1 loaded" "tr = t1 @ t2"
    and rest: "exec (case loaded of
            Inl e \<Rightarrow> Return (Inl e, s)
          | Inr current \<Rightarrow>
              (case affected_files operation (object_paths current) of
                 Inl e \<Rightarrow> Return (Inl e, s)
               | Inr affected \<Rightarrow>
                   if command_dry_run operation
                   then Return (Ok (result_message (''would '' @ dry_run_action operation) (command_path operation) affected), s)
                   else (case temporary_directory s of
                      (Inl e, s) \<Rightarrow> Return (Inl e, s)
                    | (Inr _, s) \<Rightarrow>
                        bind_io (rebuild lib plib cfg c operation current s) (\<lambda>(r, s).
                          Return (and_then r (\<lambda>_. Ok (result_message (done_action operation) (command_path operation) affected)),
                            drop_temporary s))))) t2 (Ok message, s')"
    using assms by (auto simp: execute_def check exec_bind)
  obtain current affected where current: "loaded = Ok current" "affected_files operation (object_paths current) = Ok affected"
    using rest by (auto split: sum.splits)
  show ?thesis
  proof (cases "command_dry_run operation")
    case True
    with rest current load check show ?thesis by (intro exI[of _ current] exI[of _ affected] exI[of _ t1] exI[of _ "[]"]) simp
  next
    case False
    obtain s1 where s1: "temporary_directory s = (Ok (), s1)"
      using rest by (auto simp: current False split: prod.splits sum.splits)
    obtain r s2 where s2: "exec (rebuild lib plib cfg c operation current s1) t2 (r, s2)"
      "Ok message = and_then r (\<lambda>_. Ok (result_message (done_action operation) (command_path operation) affected))"
      "s' = drop_temporary s2"
      using rest by (auto simp: current False s1 exec_bind)
    then have "r = Ok ()" "message = result_message (done_action operation) (command_path operation) affected"
      by (cases r; simp)+
    with s1 s2 current load check False show ?thesis
      by (intro exI[of _ current] exI[of _ affected] exI[of _ t1] exI[of _ t2]) auto
  qed
qed

subsection \<open>What every run leaves alone\<close>

text \<open>Actions in the temporary directory: they make no calls, and the directory stays.\<close>

definition quiet :: "staging \<Rightarrow> staging \<Rightarrow> bool" where
  "quiet s s' \<longleftrightarrow> st_stuck s' = st_stuck s \<and> st_work s' = st_work s \<and> st_calls s' = st_calls s"

definition keeps_quiet :: "'a action \<Rightarrow> bool" where
  "keeps_quiet a \<longleftrightarrow> (\<forall>s. quiet s (snd (a s)))"

lemma quiet_refl [simp]: "quiet s s" and quiet_trans: "quiet s t \<Longrightarrow> quiet t u \<Longrightarrow> quiet s u"
  by (auto simp: quiet_def)

lemma quiet_give [intro, simp]: "keeps_quiet (give r)"
  by (simp add: keeps_quiet_def give_def)

lemma quiet_fails [intro, simp]: "keeps_quiet fails"
  by (simp add: keeps_quiet_def fails_def quiet_def)

lemma quiet_and_do [intro]: "keeps_quiet a \<Longrightarrow> (\<And>x. keeps_quiet (f x)) \<Longrightarrow> keeps_quiet (and_do a f)"
  unfolding keeps_quiet_def and_do_def by (auto split: prod.splits sum.splits) (metis quiet_trans snd_conv)+

lemma quiet_attempt: "(\<And>s s'. f s = Some s' \<Longrightarrow> quiet s s') \<Longrightarrow> keeps_quiet (attempt e f)"
  unfolding attempt_def by (rule quiet_and_do[OF quiet_fails]) (auto simp: keeps_quiet_def split: option.splits)

lemma quiet_content [intro, simp]: "keeps_quiet (attempt e (on_content f))"
  by (rule quiet_attempt) (auto simp: on_content_def quiet_def)

lemma quiet_open [intro, simp]: "keeps_quiet (attempt e Some)"
  by (rule quiet_attempt) simp

lemma quiet_steps [intro, simp]: "keeps_quiet (make_parent p)" "keeps_quiet (put_content e p b)" "keeps_quiet (remove_content p)"
  by (simp_all add: make_parent_def put_content_def remove_content_def)

lemma quiet_copy_source [intro, simp]: "keeps_quiet (copy_source source t)"
proof -
  have "keeps_quiet (\<lambda>s. if b then (Err CliInvalidSource, snd (remove_content p s)) else (Ok (), s))" for b p
    using quiet_steps(3)[of p] by (simp add: keeps_quiet_def)
  then show ?thesis unfolding copy_source_def by (intro quiet_and_do quiet_give quiet_steps quiet_open)
qed

lemma quiet_remove_paths [intro, simp]: "keeps_quiet (remove_paths ts)"
  by (induction ts) auto

lemma quiet_edit: "keeps_quiet (edit_content operation paths)"
  unfolding keeps_quiet_def by (cases operation) (use quiet_copy_source quiet_remove_paths in \<open>auto simp: keeps_quiet_def\<close>)

lemma quiet_stage_object: "keeps_quiet (stage_object obj body)"
  unfolding stage_object_def by (intro quiet_and_do quiet_give quiet_fails quiet_steps)

lemma quiet_materialize: "exec (materialize lib c repository seen objs s) tr (r, s') \<Longrightarrow> quiet s s'"
proof (induction objs arbitrary: seen s tr)
  case (Cons obj objs)
  let ?d = "descriptor_new (vo_media_type obj) (vo_digest obj) (vo_size obj)"
  show ?case
  proof (cases "checked_add seen (vo_size obj)")
    case (Some seen')
    show ?thesis
    proof (cases "seen' > MAX_PUBLICATION_BYTES")
      case False
      obtain t1 t2 b where "exec (blob lib c repository ?d None) t1 b" and b: "exec (case b of Inl _ \<Rightarrow> Return (Err CliRegistry, s)
        | Inr body \<Rightarrow> (case stage_object obj body s of
             (Inl e, s) \<Rightarrow> Return (Inl e, s)
           | (Inr _, s) \<Rightarrow> materialize lib c repository seen' objs s)) t2 (r, s')"
        using Cons.prems Some False by (simp only: materialize.simps option.case if_False exec_bind) blast
      show ?thesis
      proof (cases b)
        case (Inr body)
        obtain q t where q: "stage_object obj body s = (q, t)" by fastforce
        then have "quiet s t" using quiet_stage_object[of obj body] unfolding keeps_quiet_def by (metis snd_conv)
        then show ?thesis using b Cons.IH[of seen' t t2] quiet_trans by (cases q) (auto simp: Inr q)
      qed (use b in simp)
    qed (use Cons.prems Some in simp)
  next
    case None
    with Cons.prems have "exec (Return (Err CliInvalidArtifact, s)) tr (r, s')" by (simp only: materialize.simps option.case)
    then show ?thesis by simp
  qed
qed simp


lemma write_oci_layout_drops:
  assumes "write_oci_layout plib p reference d = (r, d')"
  shows "suffix (dk_faults d') (dk_faults d)"
proof -
  have create: "suffix (dk_faults e') (dk_faults e)" if "create_destination e = (q, e')" for e e' q
    using that by (auto simp: create_destination_def split: option.splits dest: drops_faults(1))
  have remove: "suffix (dk_faults (snd (disk_op f e))) (dk_faults e)" for f e
    using drops_faults(1) by (metis prod.collapse)
  obtain q e where e: "create_destination d = (q, e)" by fastforce
  obtain q2 e2 where e2: "write_layout_contents plib p reference e = (q2, e2)" by fastforce
  have "d' \<in> {d, e, e2, snd (disk_op (\<lambda>_. Some None) e2)}"
    using assms e e2 by (auto simp: write_oci_layout_def split: sum.splits)
  then show ?thesis
    using create[OF e] write_layout_contents_drops[OF e2] remove[of "\<lambda>_. Some None" e2]
    by (auto intro: suffix_order.trans)
qed

lemma quiet_write_layout: "keeps_quiet (write_layout plib p)"
  by (auto simp: keeps_quiet_def quiet_def write_layout_def split: prod.splits)

text \<open>The calls a run may make: the arguments never hold the password, which goes to the login's input.\<close>

definition allowed_call :: "config \<Rightarrow> string \<Rightarrow> oras_call \<Rightarrow> bool" where
  "allowed_call cfg work call \<longleftrightarrow> oc_docker_config call = oras_directory cfg work
     \<and> (oc_stdin call = [] \<and> oc_arguments call \<in> {delete_arguments cfg, copy_arguments cfg work}
        \<or> (\<exists>credentials. cf_token_credentials cfg = Some credentials
             \<and> oc_arguments call = login_arguments cfg (tc_username credentials)
             \<and> oc_stdin call = tc_password credentials @ [CHR 0x0A]))"

text \<open>The calls that change the registry, when they succeed.\<close>

definition performed :: "config \<Rightarrow> string \<Rightarrow> oras_call \<Rightarrow> bool" where
  "performed cfg work call \<longleftrightarrow> oc_succeeded call \<and> oc_arguments call \<in> {delete_arguments cfg, copy_arguments cfg work}"

lemma login_not_performed: "login_arguments cfg username \<notin> {delete_arguments cfg', copy_arguments cfg' work}"
  by (simp add: login_arguments_def delete_arguments_def copy_arguments_def)

text \<open>One call: it is made or not, and its result says whether it succeeded.\<close>

lemma call_oras_run:
  assumes "call_oras arguments docker stdin s = (r, s')"
  shows "st_work s' = st_work s \<and> st_stuck s' = st_stuck s \<and> st_docker s' = st_docker s
     \<and> (r = Ok () \<or> r = Err CliOras)
     \<and> (st_calls s' = st_calls s \<and> r = Err CliOras
        \<or> st_calls s' = st_calls s @ [\<lparr>oc_arguments = arguments, oc_docker_config = docker, oc_stdin = stdin,
            oc_layout = st_layout s, oc_succeeded = is_ok r\<rparr>])"
  using assms
  by (auto simp: call_oras_def note_success_def attempt_def and_do_def fails_def give_def
      split: if_splits list.splits bool.splits)

text \<open>What the part of a run that may make calls does: at most the two calls that are allowed, an error
  after the first of them is the one of ORAS, and it succeeds when a call has changed the registry,
  and only then.\<close>

definition good_calls :: "config \<Rightarrow> string \<Rightarrow> oras_call list \<Rightarrow> autoindex_cli_error + 'a \<Rightarrow> bool" where
  "good_calls cfg work calls r \<longleftrightarrow> length calls \<le> 2 \<and> list_all (allowed_call cfg work) calls
     \<and> (calls \<noteq> [] \<longrightarrow> is_ok r \<or> r = Err CliOras) \<and> (is_ok r \<longleftrightarrow> (\<exists>call \<in> set calls. performed cfg work call))"

definition calls_only :: "config \<Rightarrow> string \<Rightarrow> 'a action \<Rightarrow> bool" where
  "calls_only cfg work a \<longleftrightarrow> (\<forall>s r s'. a s = (r, s') \<and> st_work s = Some work \<longrightarrow>
     st_stuck s' = st_stuck s \<and> (\<exists>calls. st_calls s' = st_calls s @ calls \<and> good_calls cfg work calls r))"

lemma good_calls_Err: "good_calls cfg work [] (Err e)"
  by (simp add: good_calls_def)

lemma calls_only_first:
  assumes "keeps_quiet a" "\<And>x. calls_only cfg work (f x)"
  shows "calls_only cfg work (and_do a f)"
  unfolding calls_only_def
proof (intro allI impI, elim conjE)
  fix s r s' assume run: "and_do a f s = (r, s')" and work: "st_work s = Some work"
  obtain q t where q: "a s = (q, t)" by fastforce
  then have quiet: "quiet s t" using assms(1) unfolding keeps_quiet_def by (metis snd_conv)
  show "st_stuck s' = st_stuck s \<and> (\<exists>calls. st_calls s' = st_calls s @ calls \<and> good_calls cfg work calls r)"
  proof (cases q)
    case (Inl e)
    then have "r = Err e" "s' = t" using run q by (simp_all add: and_do_def)
    then show ?thesis using quiet good_calls_Err by (simp add: quiet_def)
  next
    case (Inr x)
    then have "f x t = (r, s')" using run q by (simp add: and_do_def)
    moreover have "st_work t = Some work" "st_calls t = st_calls s" "st_stuck t = st_stuck s"
      using quiet work by (simp_all add: quiet_def)
    ultimately show ?thesis using assms(2)[of x] unfolding calls_only_def by fastforce
  qed
qed

lemma calls_only_pointwise:
  "(\<And>s. st_work s = Some work \<Longrightarrow> \<exists>a. calls_only cfg work a \<and> b s = a s) \<Longrightarrow> calls_only cfg work b"
  unfolding calls_only_def by metis

text \<open>The login: one call, which changes nothing in the registry.\<close>

lemma login_oras_run:
  assumes run: "login_oras cfg credentials s = (r, s')"
  shows "st_work s' = st_work s \<and> st_stuck s' = st_stuck s \<and> (is_ok r \<longrightarrow> r = Ok (docker_directory s))
     \<and> (st_calls s' = st_calls s \<and> \<not> is_ok r
        \<or> (\<exists>layout ok. (is_ok r \<or> r = Err CliOras)
            \<and> st_calls s' = st_calls s @ [\<lparr>oc_arguments = login_arguments cfg (tc_username credentials),
            oc_docker_config = Some (docker_directory s), oc_stdin = tc_password credentials @ [CHR 0x0A],
            oc_layout = layout, oc_succeeded = ok\<rparr>]))"
proof -
  let ?make = "attempt CliTemporaryStorage (\<lambda>s. if st_docker s then None else Some (s\<lparr>st_docker := True\<rparr>))"
  let ?call = "call_oras (login_arguments cfg (tc_username credentials)) (Some (docker_directory s)) (tc_password credentials @ [CHR 0x0A])"
  obtain q t where q: "?make s = (q, t)" by fastforce
  have t: "st_work t = st_work s \<and> st_stuck t = st_stuck s \<and> st_calls t = st_calls s"
    using q by (auto simp: attempt_def and_do_def fails_def split: if_splits list.splits bool.splits)
  show ?thesis
  proof (cases q)
    case (Inl e)
    then have "r = Err e" "s' = t" using run unfolding login_oras_def and_do_def q by simp_all
    with t show ?thesis by simp
  next
    case (Inr v)
    obtain o' u where o': "?call t = (o', u)" by fastforce
    then have "r = and_then o' (\<lambda>_. Ok (docker_directory s)) \<and> s' = u"
      using run unfolding login_oras_def and_do_def q Inr by (cases o') (simp_all add: give_def)
    then show ?thesis using call_oras_run[OF o'] t by (cases o') auto
  qed
qed

lemma run_oras_calls:
  assumes arguments: "arguments \<in> {delete_arguments cfg, copy_arguments cfg work}"
  shows "calls_only cfg work (run_oras cfg arguments)"
  unfolding calls_only_def
proof (intro allI impI, elim conjE)
  fix s r s' assume run: "run_oras cfg arguments s = (r, s')" and work: "st_work s = Some work"
  have last: "st_stuck u = st_stuck t \<and> (\<exists>calls. st_calls u = st_calls t @ calls \<and> length calls \<le> 1
      \<and> good_calls cfg work calls r) \<and> (r = Ok () \<or> r = Err CliOras)" if "call_oras arguments (oras_directory cfg work) [] t = (r, u)" for t u
    using call_oras_run[OF that] arguments
    by (auto simp: good_calls_def allowed_call_def performed_def)
  show "st_stuck s' = st_stuck s \<and> (\<exists>calls. st_calls s' = st_calls s @ calls \<and> good_calls cfg work calls r)"
  proof (cases "cf_token_credentials cfg")
    case None
    then have "call_oras arguments (oras_directory cfg work) [] s = (r, s')"
      using run by (simp add: run_oras_def and_do_def give_def oras_directory_def)
    from last[OF this] show ?thesis by blast
  next
    case (Some credentials)
    obtain q t where q: "login_oras cfg credentials s = (q, t)" by fastforce
    note login = login_oras_run[OF q]
    have directory: "Some (docker_directory s) = oras_directory cfg work"
      by (simp add: docker_directory_def oras_directory_def Some work)
    obtain c1 where first: "st_calls t = st_calls s @ c1" "length c1 \<le> 1" "list_all (allowed_call cfg work) c1"
        "c1 \<noteq> [] \<longrightarrow> is_ok q \<or> q = Err CliOras" "\<not> (\<exists>call \<in> set c1. performed cfg work call)"
    proof (cases "st_calls t = st_calls s")
      case True
      then show thesis by (intro that[of "[]"]) simp_all
    next
      case False
      then obtain call where "st_calls t = st_calls s @ [call]" "is_ok q \<or> q = Err CliOras" and call:
        "oc_arguments call = login_arguments cfg (tc_username credentials)"
        "oc_docker_config call = Some (docker_directory s)" "oc_stdin call = tc_password credentials @ [CHR 0x0A]"
        using login by fastforce
      moreover have "allowed_call cfg work call" "\<not> performed cfg work call"
        using call directory login_not_performed by (simp_all add: allowed_call_def performed_def Some)
      ultimately show thesis by (intro that[of "[call]"]) simp_all
    qed
    show ?thesis
    proof (cases q)
      case (Inl e)
      then have "r = Err e" "s' = t" using run by (simp_all add: run_oras_def and_do_def Some q)
      then show ?thesis using first login Inl by (intro conjI exI[of _ c1]) (simp_all add: good_calls_def)
    next
      case (Inr d)
      then have "call_oras arguments (oras_directory cfg work) [] t = (r, s')"
        using run login directory by (simp add: run_oras_def and_do_def give_def Some q)
      from last[OF this] obtain c2 where c2: "st_stuck s' = st_stuck t" "st_calls s' = st_calls t @ c2"
        "length c2 \<le> 1" "good_calls cfg work c2 r" "r = Ok () \<or> r = Err CliOras" by blast
      then have "good_calls cfg work (c1 @ c2) r" using first(2,3,5) by (auto simp: good_calls_def)
      then show ?thesis using c2(1,2) first(1) login by (intro conjI exI[of _ "c1 @ c2"]) simp_all
    qed
  qed
qed

lemma publish_calls: "calls_only cfg work (publish plib cfg)"
proof (rule calls_only_pointwise)
  fix s :: staging assume work: "st_work s = Some work"
  have branch: "calls_only cfg work (if remaining = [] then run_oras cfg (delete_arguments cfg)
       else
       and_do (give (map_err (\<lambda>_. CliPublication) (from_directory plib (st_content s)))) (\<lambda>publication.
       and_do (write_layout plib publication) (\<lambda>_.
       run_oras cfg (copy_arguments cfg (the (st_work s))))))" for remaining :: "string list list"
    using work by (auto intro!: run_oras_calls calls_only_first quiet_write_layout)
  note whole = calls_only_first[OF quiet_give branch]
  show "\<exists>a. calls_only cfg work a \<and> publish plib cfg s = a s"
    unfolding publish_def by (rule exI, rule conjI, rule whole, rule refl)
qed

lemma rebuild_calls:
  assumes run: "exec (rebuild lib plib cfg c operation current s) tr (r, s')" and work: "st_work s = Some work"
  shows "st_stuck s' = st_stuck s \<and> (\<exists>calls. st_calls s' = st_calls s @ calls \<and> good_calls cfg work calls r)"
proof -
  let ?make = "attempt CliTemporaryStorage (\<lambda>s. Some (s\<lparr>st_content := Some (DirNode True [])\<rparr>))"
  obtain q s1 where q: "?make s = (q, s1)" by fastforce
  have "keeps_quiet ?make" by (rule quiet_attempt) (auto simp: quiet_def)
  then have first: "quiet s s1" using q unfolding keeps_quiet_def by (metis snd_conv)
  show ?thesis
  proof (cases q)
    case (Inl e)
    with run q have "s' = s1" "r = Err e" by (simp_all add: rebuild_def)
    with first good_calls_Err show ?thesis by (simp add: quiet_def)
  next
    case (Inr u)
    obtain t1 t2 m s2 where m: "exec (materialize lib c (repo_str (cf_repository cfg)) 0 (current_objects current) s1) t1 (m, s2)"
      and rest: "exec (case m of Inl e \<Rightarrow> Return (Inl e, s2)
        | Inr _ \<Rightarrow> Return (and_do (edit_content operation (object_paths current)) (\<lambda>_. publish plib cfg) s2)) t2 (r, s')"
      using run q Inr by (auto simp: rebuild_def exec_bind)
    have second: "quiet s s2" using quiet_trans[OF first quiet_materialize[OF m]] .
    show ?thesis
    proof (cases m)
      case (Inl e)
      with rest second good_calls_Err show ?thesis by (simp add: quiet_def)
    next
      case (Inr v)
      then have ran: "and_do (edit_content operation (object_paths current)) (\<lambda>_. publish plib cfg) s2 = (r, s')"
        using rest by simp
      have w2: "st_work s2 = Some work" "st_calls s2 = st_calls s" "st_stuck s2 = st_stuck s"
        using second work by (simp_all add: quiet_def)
      have "calls_only cfg work (and_do (edit_content operation (object_paths current)) (\<lambda>_. publish plib cfg))"
        by (rule calls_only_first[OF quiet_edit publish_calls])
      from this[unfolded calls_only_def, rule_format, OF conjI[OF ran w2(1)]] show ?thesis
        using w2(2,3) by auto
    qed
  qed
qed

lemma make_temporary_quiet:
  "make_temporary k s = (r, s') \<Longrightarrow>
     st_calls s' = st_calls s \<and> st_stuck s' = st_stuck s \<and> (is_ok r \<longrightarrow> st_work s' \<noteq> None)
     \<and> (\<not> is_ok r \<longrightarrow> st_work s' = st_work s)"
proof (induction k arbitrary: s)
  case (Suc k)
  show ?case
    using Suc.prems Suc.IH
    by (fastforce simp: Let_def attempt_def and_do_def fails_def split: if_splits)
qed auto

lemma drop_temporary_work: "\<not> st_stuck s \<Longrightarrow> st_work (drop_temporary s) = None"
  by (simp add: drop_temporary_def)

definition with_password :: "string \<Rightarrow> config \<Rightarrow> config" where
  "with_password password cfg =
     cfg\<lparr>cf_token_credentials := map_option (\<lambda>c. c\<lparr>tc_password := password\<rparr>) (cf_token_credentials cfg)\<rparr>"

definition allowed_arguments :: "config \<Rightarrow> string \<Rightarrow> string list set" where
  "allowed_arguments cfg work = {delete_arguments cfg, copy_arguments cfg work}
     \<union> (case cf_token_credentials cfg of None \<Rightarrow> {} | Some c \<Rightarrow> {login_arguments cfg (tc_username c)})"

lemma with_password_arguments [simp]:
  "delete_arguments (with_password password cfg) = delete_arguments cfg"
  "copy_arguments (with_password password cfg) work = copy_arguments cfg work"
  "login_arguments (with_password password cfg) username = login_arguments cfg username"
  by (simp_all add: delete_arguments_def copy_arguments_def login_arguments_def registry_reference_def
      registry_authority_def with_password_def)

lemma allowed_call_arguments:
  "allowed_call cfg work call \<Longrightarrow> oc_arguments call \<in> allowed_arguments (with_password password cfg) work"
  unfolding allowed_call_def allowed_arguments_def with_password_arguments
  by (elim conjE disjE exE) (simp_all add: with_password_def, blast)

lemma execute_calls:
  assumes "exec (execute lib plib cfg c operation s) tr (r, s')"
  shows "\<exists>work calls. st_calls s' = st_calls s @ calls \<and> length calls \<le> 2 \<and> list_all (allowed_call cfg work) calls
     \<and> (calls \<noteq> [] \<longrightarrow> \<not> command_dry_run operation \<and> (is_ok r \<or> r = Err CliOras))
     \<and> (is_ok r \<and> \<not> command_dry_run operation \<longleftrightarrow> (\<exists>call \<in> set calls. performed cfg work call))
     \<and> (\<not> st_stuck s \<and> st_work s = None \<longrightarrow> st_work s' = None)"
proof -
  have unchanged: ?thesis if "s' = s" "\<not> is_ok r \<or> command_dry_run operation"
    using that by (intro exI[of _ "[]"]) auto
  show ?thesis
  proof (cases "check_command operation (st_files s)")
    case (Inl e)
    with assms have "s' = s" "r = Err e" by (simp_all add: execute_def)
    then show ?thesis by (intro unchanged) simp_all
  next
    case (Inr u)
    obtain t1 t2 loaded where rest: "exec (case loaded of
            Inl e \<Rightarrow> Return (Inl e, s)
          | Inr current \<Rightarrow>
              (case affected_files operation (object_paths current) of
                 Inl e \<Rightarrow> Return (Inl e, s)
               | Inr affected \<Rightarrow>
                   if command_dry_run operation
                   then Return (Ok (result_message (''would '' @ dry_run_action operation) (command_path operation) affected), s)
                   else (case temporary_directory s of
                      (Inl e, s) \<Rightarrow> Return (Inl e, s)
                    | (Inr _, s) \<Rightarrow>
                        bind_io (rebuild lib plib cfg c operation current s) (\<lambda>(r, s).
                          Return (and_then r (\<lambda>_. Ok (result_message (done_action operation) (command_path operation) affected)),
                            drop_temporary s))))) t2 (r, s')"
      and "exec (load_snapshot lib c (repo_str (cf_repository cfg))) t1 loaded"
      using assms by (auto simp: execute_def Inr exec_bind)
    show ?thesis
    proof (cases "\<exists>current affected. loaded = Ok current \<and> affected_files operation (object_paths current) = Ok affected
        \<and> \<not> command_dry_run operation")
      case False
      with rest have "s' = s \<and> (\<not> is_ok r \<or> command_dry_run operation)" by (auto split: sum.splits if_splits)
      then show ?thesis by (intro unchanged) blast+
    next
      case True
      then obtain current affected where current: "loaded = Ok current"
        "affected_files operation (object_paths current) = Ok affected" "\<not> command_dry_run operation" by blast
      obtain q s1 where q: "temporary_directory s = (q, s1)" by fastforce
      note made = make_temporary_quiet[OF q[unfolded temporary_directory_def]]
      show ?thesis
      proof (cases q)
        case (Inl e)
        with rest current q have "s' = s1" "r = Err e" by simp_all
        with made Inl show ?thesis by (intro exI[of _ "[]"]) auto
      next
        case (Inr v)
        then obtain work where work: "st_work s1 = Some work" using made by auto
        obtain r2 s2 where r2: "exec (rebuild lib plib cfg c operation current s1) t2 (r2, s2)"
          "r = and_then r2 (\<lambda>_. Ok (result_message (done_action operation) (command_path operation) affected))"
          "s' = drop_temporary s2"
          using rest by (auto simp: current q Inr exec_bind)
        obtain calls where calls: "st_calls s2 = st_calls s1 @ calls" "good_calls cfg work calls r2" "st_stuck s2 = st_stuck s1"
          using rebuild_calls[OF r2(1) work] by blast
        have same: "is_ok r \<longleftrightarrow> is_ok r2" "r2 = Err CliOras \<Longrightarrow> r = Err CliOras" using r2(2) by (cases r2; simp)+
        have "\<not> st_stuck s \<Longrightarrow> st_work s' = None"
          using calls(3) made drop_temporary_work[of s2] r2(3) by simp
        with calls(1,2) same made current(3) r2(3) show ?thesis
          by (intro exI[of _ work] exI[of _ calls]) (auto simp: good_calls_def)
      qed
    qed
  qed
qed

lemma execute_edit:
  assumes contract: "publisher_contract plib (lib_json lib)" and sha: "pl_sha plib = lib_sha256 lib"
    and run: "exec (execute lib plib cfg c operation s) tr (Ok message, s')" and edit: "\<not> command_dry_run operation"
  shows "\<exists>current t1 t2 work call. tr = t1 @ t2
    \<and> exec (load_snapshot lib c (repo_str (cf_repository cfg))) t1 (Ok current)
    \<and> applicable operation (bt_get (objects (loaded_index current)))
    \<and> st_calls s' = st_calls s @ login_calls cfg work (oc_layout call) @ [call]
    \<and> publishes plib (lib_manifest_json lib) cfg work
        (edited plib (st_files s) operation (bt_get (objects (loaded_index current)))) call"
proof -
  obtain current affected t1 t2 s1 s2 where parts: "tr = t1 @ t2"
    "exec (load_snapshot lib c (repo_str (cf_repository cfg))) t1 (Ok current)"
    "affected_files operation (object_paths current) = Ok affected" "temporary_directory s = (Ok (), s1)"
    "exec (rebuild lib plib cfg c operation current s1) t2 (Ok (), s2)" "s' = drop_temporary s2"
    using execute_Ok[OF run] edit by auto
  note loaded = load_snapshot_Ok[OF parts(2)] and made = make_temporary_Ok[OF parts(4)[unfolded temporary_directory_def]]
  obtain call where call: "st_calls s2 = st_calls s1 @ login_calls cfg (the (st_work s1)) (oc_layout call) @ [call]"
    "publishes plib (lib_manifest_json lib) cfg (the (st_work s1))
       (edited plib (st_files s1) operation (bt_get (objects (loaded_index current)))) call"
    using rebuild_Ok[OF contract sha parts(5) loaded(3,2,1)] by blast
  with parts made affected_applicable[OF parts(3) loaded(3,2)] show ?thesis
    by (intro exI[of _ current] exI[of _ t1] exI[of _ t2] exI[of _ "the (st_work s1)"] exI[of _ call]) simp
qed

subsection \<open>Properties\<close>

text \<open>C4. An edit publishes exactly the edited index. If a command that is not a dry run succeeds, then for the
  index that was loaded (empty when nothing is published) it was applicable: a created path is new, an
  updated one exists, a deleted one selects something. The calls of ORAS are one login, when there are
  credentials, with the name as an argument and the password as its input, and one call that
  publishes the index with that one file added or replaced, or with the selected files removed,
  every other object unchanged in digest, media type and size; all of them have succeeded. The
  layout that is copied holds the manifest of that index, to which its \<open>index.json\<close> points, the
  configuration and the blob of every object of the index, each under its digest; when no file is left
  the call deletes the manifest. This needs the SHA-256 of the client and the publisher to be the same
  function, and the contract of the publisher's JSON and SHA-256.\<close>

theorem autoindex_edit_exact:
  assumes contract: "publisher_contract plib (lib_json lib)" and sha: "pl_sha plib = lib_sha256 lib"
    and run: "exec (execute lib plib cfg c operation s) tr (Ok message, s')" and edit: "\<not> command_dry_run operation"
  shows "\<exists>current t1 t2 work call. tr = t1 @ t2
    \<and> exec (load_snapshot lib c (repo_str (cf_repository cfg))) t1 (Ok current)
    \<and> applicable operation (bt_get (objects (loaded_index current)))
    \<and> st_calls s' = st_calls s @ login_calls cfg work (oc_layout call) @ [call]
    \<and> publishes plib (lib_manifest_json lib) cfg work
        (edited plib (st_files s) operation (bt_get (objects (loaded_index current)))) call"
  by (rule execute_edit[OF assms])

text \<open>C13. A run of an edit is safe whatever the registry, the file system and ORAS do. It calls ORAS at most
  twice, only to delete or copy to the configured reference or to log in to the configured
  authority; the arguments are the same for every password, and only the input of the login holds it.
  A dry run calls nothing, and a run that has called ORAS can only succeed or fail with the error of
  ORAS. Whatever else fails, an operation on a file, ORAS or the deadline of a blob, the temporary
  directory is gone at the end, unless its own removal fails.\<close>

theorem autoindex_calls_safe:
  assumes "exec (execute lib plib cfg c operation s) tr (r, s')"
  shows "\<exists>work calls. st_calls s' = st_calls s @ calls \<and> length calls \<le> 2
    \<and> (\<forall>call \<in> set calls. allowed_call cfg work call
         \<and> (\<forall>password. oc_arguments call \<in> allowed_arguments (with_password password cfg) work))
    \<and> (calls \<noteq> [] \<longrightarrow> \<not> command_dry_run operation \<and> (is_ok r \<or> r = Err CliOras))
    \<and> (\<not> st_stuck s \<and> st_work s = None \<longrightarrow> st_work s' = None)"
proof -
  from execute_calls[OF assms] obtain work calls where "st_calls s' = st_calls s @ calls" "length calls \<le> 2"
    "list_all (allowed_call cfg work) calls" "calls \<noteq> [] \<longrightarrow> \<not> command_dry_run operation \<and> (is_ok r \<or> r = Err CliOras)"
    "\<not> st_stuck s \<and> st_work s = None \<longrightarrow> st_work s' = None" by blast
  then show ?thesis using allowed_call_arguments
    by (intro exI[of _ work] exI[of _ calls]) (simp add: list_all_iff)
qed

subsection \<open>An example run\<close>

definition edit_published :: publisher_manifest where
  "edit_published = \<lparr>pm_schema_version = 2, pm_media_type = MANIFEST_MEDIA_TYPE,
     pm_annotations = [(PUBLISHER_ANNOTATION, PUBLISHER_VERSION)],
     pm_config = descriptor_plain EMPTY_CONFIG_MEDIA_TYPE EMPTY_CONFIG_DIGEST 2, pm_layers = [file_layer ''b'' sample_hello 5]\<rparr>"

definition edit_text :: string where
  "edit_text = json_text (manifest_value edit_published)"

definition edit_library :: library where
  "edit_library = \<lparr>lib_uri = (\<lambda>s. Some \<lparr>u_scheme = None, u_authority = None, u_path_and_query = Some (s, None)\<rparr>),
     lib_base64 = id, lib_sha256 = Publication.sample_sha, lib_json = read_json, lib_base64url = id, lib_base64url_decode = Some\<rparr>"

definition edit_client :: client where
  "edit_client = \<lparr>cl_origin = ''http://127.0.0.1:5000'', cl_credentials = None\<rparr>"

definition edit_start :: staging where
  "edit_start = \<lparr>st_files = (\<lambda>p. if p = ''s'' then Some (FileNode 5 (Some ''hello'')) else None), st_temp = ''/tmp'',
     st_process = 7, st_next = 0, st_taken = (\<lambda>_. False), st_work = None, st_content = None, st_layout = None,
     st_docker = False, st_stuck = False, st_faults = [], st_calls = []\<rparr>"

definition edit_tree :: node where
  "edit_tree = DirNode True [(''b'', FileNode 5 (Some ''hello''))]"

definition edit_publication :: publication where
  "edit_publication = \<lparr>pn_manifest = edit_text, pn_manifest_digest = ''sha256:'' @ replicate 64 (CHR ''0''), pn_manifest_size = length edit_text,
     pn_blobs = sort_key pb_digest ([\<lparr>pb_digest = sample_hello, pb_bytes = ''hello''\<rparr>]
        @ [\<lparr>pb_digest = EMPTY_CONFIG_DIGEST, pb_bytes = EMPTY_CONFIG\<rparr>]),
     pn_paths = [''b'']\<rparr>"

lemma edit_collect: "collect_files edit_tree [] 0 [] = Ok [''b'']"
  by (simp add: edit_tree_def MAX_PATH_SEGMENTS_def MAX_PUBLICATION_FILES_def relative_title_def is_absolute_def path_components_def is_ascii_def)

lemma edit_add: "add_file sample_publisher_lib edit_tree collection_empty ''b'' = Ok
    \<lparr>co_titles = [(''b'', ())], co_blobs = [(sample_hello, \<lparr>pb_digest = sample_hello, pb_bytes = ''hello''\<rparr>)],
     co_layers = [file_layer ''b'' sample_hello 5], co_total_bytes = 5\<rparr>"
  using sample_digests(2)[folded sample_hello_def]
  by (simp add: sample_file_defs edit_tree_def)

lemma edit_from_directory: "from_directory sample_publisher_lib (Some edit_tree) = Ok edit_publication"
proof -
  have manifest: "pl_manifest_json sample_publisher_lib (publication_manifest sample_publisher_lib [file_layer ''b'' sample_hello 5]) = Some edit_text"
  proof -
    have published: "publication_manifest sample_publisher_lib [file_layer ''b'' sample_hello 5] = edit_published"
      by (simp add: publication_manifest_def sample_config_digest edit_published_def)
        (simp add: EMPTY_CONFIG_def numeral_2_eq_2)
    have "manifest_sizes edit_published"
      by (simp add: manifest_sizes_def edit_published_def) (simp add: descriptor_sizes_def descriptor_plain_def bt_wf_def)
    then have "writable (manifest_value edit_published)" by (rule writable_manifest)
    then show ?thesis
      unfolding published by (simp add: pl_manifest_json_def sample_publisher_lib_def write_json_def edit_text_def)
  qed
  have sha: "digest_bytes sample_publisher_lib edit_text = ''sha256:'' @ replicate 64 (CHR ''0'')"
    by (simp add: digest_bytes_def sample_publisher_lib_def edit_text_def manifest_value_def object_text_sha del: json_text.simps)
  have title: "layer_title (file_layer ''b'' sample_hello 5) = Some ''b''" by code_simp
  have root: "validate_root (Some edit_tree) = Ok ()" by (simp add: edit_tree_def)
  have sorted: "sort_key path_components [''b''] = [''b'']" by simp
  show ?thesis
    unfolding from_directory_def root edit_collect and_then.simps option.sel sorted from_files_def add_files.simps edit_add
    by (simp add: finish_def manifest edit_publication_def sha sample_config_digest title bt_values_def
      List.map_filter_simps Let_def)
qed

lemma layout_lib_edit:
  "fst (write_oci_layout (layout_lib marker listing) (edit_publication\<lparr>pn_manifest := m, pn_manifest_size := k\<rparr>) AUTO_INDEX_REFERENCE
     \<lparr>dk_destination = None, dk_faults = []\<rparr>) = Ok ()"
  by code_simp

lemma edit_layout:
  "fst (write_oci_layout sample_publisher_lib edit_publication AUTO_INDEX_REFERENCE \<lparr>dk_destination = None, dk_faults = []\<rparr>) = Ok ()"
proof -
  have "length edit_text < 1000" by code_simp
  then have "\<exists>marker listing. pl_layout_json sample_publisher_lib OCI_LAYOUT_VERSION = Some marker
    \<and> pl_index_json sample_publisher_lib (publication_index edit_publication AUTO_INDEX_REFERENCE) = Some listing"
    by (intro sample_jsons) (simp_all add: sample_publisher_lib_def edit_publication_def)
  moreover have "edit_publication\<lparr>pn_manifest := edit_text, pn_manifest_size := length edit_text\<rparr> = edit_publication"
    by (simp add: edit_publication_def)
  ultimately show ?thesis
    using write_oci_layout_lib layout_lib_edit[where m = edit_text and k = "length edit_text"] by metis
qed

definition edit_request :: outgoing where
  "edit_request = read_request ''GET'' (upstream_uri edit_client ''acme/fixture'' ''/manifests/autoindex.v1'') MANIFEST_MEDIA_TYPE None"

definition edit_missing :: upstream where
  "edit_missing = \<lparr>up_status = 404, up_headers = [], up_body = [], up_stalls = False\<rparr>"

definition edit_answer :: "outcome \<Rightarrow> oci_error + upstream" where
  "edit_answer x = and_then (answer_of x) (\<lambda>response. and_then (classify_response response) (\<lambda>_. Ok response))"

lemma edit_read:
  "request_response edit_library edit_client ''acme/fixture'' ''/manifests/autoindex.v1'' MANIFEST_MEDIA_TYPE None
     = Send edit_request (\<lambda>x. Return (edit_answer x))"
proof -
  have media: "header_value_from MANIFEST_MEDIA_TYPE = Some MANIFEST_MEDIA_TYPE" by code_simp
  have "request_response edit_library edit_client ''acme/fixture'' ''/manifests/autoindex.v1'' MANIFEST_MEDIA_TYPE None
      = try_io (Send edit_request (\<lambda>x. Return (answer_of x))) checked"
    by (simp add: request_response_def request_response_method_def send_request_def edit_client_def media edit_request_def
        read_request_def edit_library_def upstream_uri_def)
  also have "\<dots> = Send edit_request (\<lambda>x. Return (edit_answer x))"
  proof -
    have "(case answer_of x of Inl e \<Rightarrow> Return (Inl e) | Inr a \<Rightarrow> checked a) = Return (edit_answer x)" for x
      by (cases "answer_of x") (simp_all add: checked_def edit_answer_def)
    then show ?thesis by (simp add: try_io_def)
  qed
  finally show ?thesis .
qed

lemma edit_missing_answer: "edit_answer (Answered edit_missing) = Err OciNotFound"
  by (simp add: edit_answer_def edit_missing_def answer_of_def classify_response_def)

lemma edit_load:
  "\<exists>C. load_snapshot edit_library edit_client ''acme/fixture'' = Send edit_request C \<and> C (Answered edit_missing) = Return (Ok None)"
proof -
  have "autoindex_snapshot_io edit_library edit_client ''acme/fixture'' None = Send edit_request (\<lambda>x.
      try_io (try_io (Return (edit_answer x))
       (\<lambda>response. Return (case collect_limited MAX_METADATA_BYTES response of
          Timed_out \<Rightarrow> Err OciTimeout | Failed \<Rightarrow> Err InvalidLayout | Collected bytes \<Rightarrow> Ok bytes)))
       (\<lambda>bytes. Return (parse_autoindex_manifest (lib_manifest_json edit_library) bytes)))"
    by (simp add: autoindex_snapshot_io_def get_json_def AUTO_INDEX_REFERENCE_def edit_read try_io_def)
  then show ?thesis unfolding load_snapshot_def
    by (simp add: edit_missing_answer)
qed

lemma edit_runs:
  "\<exists>s'. exec (execute edit_library sample_publisher_lib sample_config edit_client (Create ''s'' ''b'' False) edit_start)
     [Sent edit_request (Answered edit_missing)] (Ok ''created b (1 file(s))'', s')"
proof -
  let ?op = "Create ''s'' ''b'' False"
  have check: "check_command ?op (st_files edit_start) = Ok ()"
    by (simp add: check_command_def edit_start_def validate_source_def relative_path_parse_def is_directory_def
      contains_any_def is_safe_path_byte_def byte_defs MAX_PATH_BYTES_def Autoindex.MAX_PATH_SEGMENTS_def suffix_def
      MAX_PUBLICATION_BYTES_def is_ascii_def Let_def)
  have path: "path_under ''b'' = Ok [''b'']" by code_simp
  obtain work where s1: "temporary_directory edit_start = (Ok (), edit_start\<lparr>st_next := 1, st_work := Some work\<rparr>)"
  proof -
    have "temporary_directory = make_temporary (Suc 15)" by (simp add: temporary_directory_def)
    then have "temporary_directory edit_start = make_temporary (Suc 15) edit_start" by (rule fun_cong)
    also have "\<dots> = (Ok (), edit_start\<lparr>st_next := 1, st_work := Some (path_join ''/tmp'' (CLI_TEMP_PREFIX @ ''-'' @ decimal_string 7
        @ ''-'' @ decimal_string 0))\<rparr>)"
      unfolding make_temporary.simps by (simp add: edit_start_def Let_def attempt_def and_do_def fails_def)
    finally show ?thesis by (rule that)
  qed
  let ?s1 = "edit_start\<lparr>st_next := 1, st_work := Some work\<rparr>"
  let ?s2 = "?s1\<lparr>st_content := Some (DirNode True [])\<rparr>"
  let ?s3 = "?s1\<lparr>st_content := Some edit_tree\<rparr>"
  have edit: "edit_content ?op (object_paths None) ?s2 = (Ok (), ?s3)"
    by (simp add: edit_start_def copy_source_def validate_source_def path give_def and_do_def fails_def attempt_def
      make_parent_def put_content_def on_content_def MAX_PUBLICATION_BYTES_def edit_tree_def)
  obtain d where d: "write_oci_layout sample_publisher_lib edit_publication AUTO_INDEX_REFERENCE \<lparr>dk_destination = None, dk_faults = []\<rparr> = (Ok (), d)"
    using edit_layout by (metis prod.collapse)
  obtain s4 where publish: "publish sample_publisher_lib sample_config ?s3 = (Ok (), s4)"
  proof -
    have "\<exists>s4. publish sample_publisher_lib sample_config ?s3 = (Ok (), s4)"
    proof -
      have bits: "dk_faults d = []" using write_oci_layout_drops[OF d] by simp
      have collected: "collect_regular_files (Some edit_tree) = Ok [[''b'']]"
        by (simp add: collect_regular_files_def edit_tree_def)
      show ?thesis
        by (simp add: publish_def give_def and_do_def collected edit_from_directory write_layout_def edit_start_def d run_oras_def
          sample_config_def call_oras_def note_success_def attempt_def fails_def bits)
    qed
    then show ?thesis using that by blast
  qed
  have rebuild: "rebuild edit_library sample_publisher_lib sample_config edit_client ?op None ?s1 = Return (Ok (), s4)"
    using edit publish by (simp add: rebuild_def attempt_def and_do_def fails_def edit_start_def current_objects_def)
  obtain C where C: "load_snapshot edit_library edit_client ''acme/fixture'' = Send edit_request C"
    "C (Answered edit_missing) = Return (Ok None)" using edit_load by blast
  have loaded: "exec (load_snapshot edit_library edit_client ''acme/fixture'') [Sent edit_request (Answered edit_missing)] (Ok None)"
    unfolding C(1) by (simp add: exec_simps C(2))
  have message: "result_message (done_action ?op) (command_path ?op) 1 = ''created b (1 file(s))''" by code_simp
  have repository: "repo_str (cf_repository sample_config) = ''acme/fixture''" by (simp add: sample_config_def)
  have "affected_files ?op (object_paths None) = Ok 1" by (simp add: object_paths_def current_objects_def)
  then have "exec (execute edit_library sample_publisher_lib sample_config edit_client ?op edit_start)
      ([Sent edit_request (Answered edit_missing)] @ [] @ []) (Ok ''created b (1 file(s))'', drop_temporary s4)"
    unfolding execute_def check repository sum.case
    by (intro exec_bindI[OF loaded]) (simp add: s1 message[simplified] rebuild[simplified])
  then show ?thesis by auto
qed

theorem autoindex_edit_exact_witness:
  "\<exists>s' call layout. exec (execute edit_library sample_publisher_lib sample_config edit_client (Create ''s'' ''b'' False) edit_start)
     [Sent edit_request (Answered edit_missing)] (Ok ''created b (1 file(s))'', s')
   \<and> st_calls s' = [call] \<and> oc_succeeded call \<and> oc_layout call = Some layout
   \<and> holds_publication sample_publisher_lib (lib_manifest_json edit_library) layout [RelativePath ''b'' \<mapsto> object_for sample_publisher_lib (''b'', ''hello'')]"
proof -
  let ?m = "[RelativePath ''b'' \<mapsto> object_for sample_publisher_lib (''b'', ''hello'')]"
  obtain s' where run: "exec (execute edit_library sample_publisher_lib sample_config edit_client (Create ''s'' ''b'' False) edit_start)
     [Sent edit_request (Answered edit_missing)] (Ok ''created b (1 file(s))'', s')" using edit_runs by blast
  have contract: "publisher_contract sample_publisher_lib (lib_json edit_library)"
    using sample.publisher_contract_axioms by (simp add: edit_library_def)
  have edit: "\<not> command_dry_run (Create ''s'' ''b'' False)" by simp
  have sha: "pl_sha sample_publisher_lib = lib_sha256 edit_library" by (simp add: sample_publisher_lib_def edit_library_def)
  have repository: "repo_str (cf_repository sample_config) = ''acme/fixture''" by (simp add: sample_config_def)
  obtain current t1 t2 work call where split: "[Sent edit_request (Answered edit_missing)] = t1 @ t2"
    and load: "exec (load_snapshot edit_library edit_client ''acme/fixture'') t1 (Ok current)"
    and calls: "st_calls s' = st_calls edit_start @ login_calls sample_config work (oc_layout call) @ [call]"
    and published: "publishes sample_publisher_lib (lib_manifest_json edit_library) sample_config work
        (edited sample_publisher_lib (st_files edit_start) (Create ''s'' ''b'' False) (bt_get (objects (loaded_index current)))) call"
    using autoindex_edit_exact[OF contract sha run edit] unfolding repository by (elim exE conjE)
  obtain C where C: "load_snapshot edit_library edit_client ''acme/fixture'' = Send edit_request C"
    "C (Answered edit_missing) = Return (Ok None)" using edit_load by blast
  have "current = None" using load split by (cases t1) (auto simp: C exec_simps)
  then have "edited sample_publisher_lib (st_files edit_start) (Create ''s'' ''b'' False) (bt_get (objects (loaded_index current))) = ?m"
    by (simp add: loaded_index_def index_default_def with_source_def edit_start_def bt_get_def fun_eq_iff)
  with published obtain layout where "oc_succeeded call" "oc_layout call = Some layout" "holds_publication sample_publisher_lib (lib_manifest_json edit_library) layout ?m"
    by (auto simp: publishes_def edit_library_def)
  moreover have "st_calls s' = [call]" using calls by (simp add: edit_start_def login_calls_def sample_config_def)
  ultimately show ?thesis using run by blast
qed

theorem autoindex_calls_safe_witness:
  "\<exists>s'. exec (execute edit_library sample_publisher_lib sample_config edit_client (Create ''s'' ''b'' False) edit_start)
     [Sent edit_request (Answered edit_missing)] (Ok ''created b (1 file(s))'', s') \<and> st_work s' = None \<and> length (st_calls s') \<le> 2"
proof -
  obtain s' where run: "exec (execute edit_library sample_publisher_lib sample_config edit_client (Create ''s'' ''b'' False) edit_start)
     [Sent edit_request (Answered edit_missing)] (Ok ''created b (1 file(s))'', s')" using edit_runs by blast
  from autoindex_calls_safe[OF run] have "st_work s' = None \<and> length (st_calls s') \<le> 2" by (auto simp: edit_start_def)
  with run show ?thesis by blast
qed

end
