(* ===== verification/Program.thy ===== *)
theory Program
  imports Server Autoindex_Runs
begin

text \<open>
  \<open>src/main.rs\<close>: the process, from its arguments. \<open>loaded\<close> is the result of \<open>Config::from_env\<close> and
  \<open>starts\<close> says whether the listener can be bound; the arguments are taken to be Unicode, as
  \<open>std::env::args\<close> demands. \<open>SERVICE_NAME\<close> is the one constant of \<open>src/lib.rs\<close>, which no code uses yet.
\<close>

text \<open>A process ends with a code and what it has written to its two outputs, or serves until it is
  interrupted.\<close>

datatype process = Exits nat string string | Serving config

definition SERVICE_NAME :: string where "SERVICE_NAME = ''github-oras-packages-proxy''"

definition line :: "string \<Rightarrow> string" where
  "line message = message @ [CHR 0x0A]"

definition serve_program :: "config_error + config \<Rightarrow> bool \<Rightarrow> process" where
  "serve_program loaded starts =
     (case loaded of
        Inl _ \<Rightarrow> Exits 2 [] (line ''configuration is invalid'')
      | Inr cfg \<Rightarrow> if starts then Serving cfg else Exits 1 [] (line ''service could not start''))"

definition autoindex_program ::
    "library \<Rightarrow> publisher_lib \<Rightarrow> config_error + config \<Rightarrow> autoindex_command \<Rightarrow> staging \<Rightarrow> (process \<times> staging) io" where
  "autoindex_program lib plib loaded operation s =
     (case loaded of
        Inl _ \<Rightarrow> Return (Exits 2 [] (line ''configuration is invalid''), s)
      | Inr cfg \<Rightarrow> bind_io (execute lib plib cfg (client_new cfg) operation s) (\<lambda>(r, s).
          Return (case r of
              Inr message \<Rightarrow> Exits 0 (line message) []
            | Inl error \<Rightarrow> Exits 1 [] (line (autoindex_cli_message error)), s)))"

definition program ::
    "library \<Rightarrow> publisher_lib \<Rightarrow> string list \<Rightarrow> config_error + config \<Rightarrow> bool \<Rightarrow> staging \<Rightarrow> (process \<times> staging) io" where
  "program lib plib arguments loaded starts s =
     (case parse arguments of
        Inl error \<Rightarrow> Return (Exits 2 [] (line (cli_error_message error)), s)
      | Inr Help \<Rightarrow> Return (Exits 0 help_text [], s)
      | Inr Serve \<Rightarrow> Return (serve_program loaded starts, s)
      | Inr (Autoindex operation) \<Rightarrow> autoindex_program lib plib loaded operation s)"

lemma program_calls:
  assumes "exec (program lib plib (name # arguments) loaded starts s) tr (p, s')" "st_calls s' \<noteq> st_calls s"
  shows "\<exists>cfg operation work calls r. loaded = Ok cfg \<and> spells (Autoindex operation) arguments \<and> \<not> command_dry_run operation
     \<and> exec (execute lib plib cfg (client_new cfg) operation s) tr (r, s')
     \<and> st_calls s' = st_calls s @ calls \<and> list_all (allowed_call cfg work) calls
     \<and> (is_ok r \<longleftrightarrow> (\<exists>call \<in> set calls. performed cfg work call)) \<and> (is_ok r \<or> r = Err CliOras)
     \<and> p = (case r of Inr message \<Rightarrow> Exits 0 (line message) [] | Inl error \<Rightarrow> Exits 1 [] (line (autoindex_cli_message error)))"
proof -
  obtain operation where operation: "parse (name # arguments) = Ok (Autoindex operation)"
    "exec (autoindex_program lib plib loaded operation s) tr (p, s')"
    using assms by (auto simp: program_def split: sum.splits command.splits)
  obtain cfg where cfg: "loaded = Ok cfg" using operation(2) assms(2) by (auto simp: autoindex_program_def split: sum.splits)
  obtain r where r: "exec (execute lib plib cfg (client_new cfg) operation s) tr (r, s')"
    "p = (case r of Inr message \<Rightarrow> Exits 0 (line message) [] | Inl error \<Rightarrow> Exits 1 [] (line (autoindex_cli_message error)))"
    using operation(2) by (auto simp: autoindex_program_def cfg exec_bind)
  obtain work calls where calls: "st_calls s' = st_calls s @ calls" "list_all (allowed_call cfg work) calls"
    "calls \<noteq> [] \<longrightarrow> \<not> command_dry_run operation \<and> (is_ok r \<or> r = Err CliOras)"
    "is_ok r \<and> \<not> command_dry_run operation \<longleftrightarrow> (\<exists>call \<in> set calls. performed cfg work call)"
    using execute_calls[OF r(1)] by blast
  have "calls \<noteq> []" using calls(1) assms(2) by auto
  with calls cfg r operation(1) parse_iff_spells show ?thesis
    by (intro exI[of _ cfg] exI[of _ operation] exI[of _ work] exI[of _ calls] exI[of _ r]) simp
qed

lemma execute_message:
  assumes "exec (execute lib plib cfg c operation s) tr (Ok message, s')" "\<not> command_dry_run operation"
  shows "\<exists>n. message = result_message (done_action operation) (command_path operation) n"
  using execute_Ok[OF assms(1)] assms(2) by auto

inductive_cases spells_autoindex: "spells (Autoindex operation) arguments"

definition edit_spellings :: "string \<Rightarrow> string \<Rightarrow> (autoindex_command \<times> string list) set" where
  "edit_spellings source path =
     {(Create source path False, [''autoindex'', ''create'', source, path]),
      (Update source path False, [''autoindex'', ''update'', source, path]),
      (Delete path True False, [''autoindex'', ''delete'', path, ''--yes''])}"

lemma edit_spelled:
  assumes "spells (Autoindex operation) arguments" "\<not> command_dry_run operation"
  obtains source where "(operation, arguments) \<in> edit_spellings source (command_path operation)"
  using assms by (cases rule: spells_autoindex) (auto simp: edit_spellings_def dry_run_flag_def)

text \<open>C20. The program changes the registry only when its command line says so, and its exit code tells
  whether it did: if a run has called ORAS, the arguments were a create or an update without
  \<open>--dry-run\<close>, or a delete with \<open>--yes\<close>, the configuration was valid, and the calls are the login and the
  one that copies or deletes. If that one has succeeded the exit code is 0 and the message names the
  edit, otherwise it is 1 with the message of the failed ORAS operation.\<close>

theorem edits_requested:
  assumes "exec (program lib plib (name # arguments) loaded starts s) tr (p, s')" "st_calls s' \<noteq> st_calls s"
  shows "\<exists>cfg operation source path work calls n. loaded = Ok cfg
    \<and> (operation, arguments) \<in> edit_spellings source path
    \<and> st_calls s' = st_calls s @ calls \<and> (\<forall>call \<in> set calls. allowed_call cfg work call)
    \<and> p = (if \<exists>call \<in> set calls. oc_succeeded call \<and> oc_arguments call \<in> {delete_arguments cfg, copy_arguments cfg work}
           then Exits 0 (line (result_message (done_action operation) path n)) []
           else Exits 1 [] (line ''ORAS registry operation failed''))"
proof -
  obtain cfg operation work calls r where run: "loaded = Ok cfg" "spells (Autoindex operation) arguments"
    "\<not> command_dry_run operation" "exec (execute lib plib cfg (client_new cfg) operation s) tr (r, s')"
    "st_calls s' = st_calls s @ calls" "list_all (allowed_call cfg work) calls"
    "is_ok r \<longleftrightarrow> (\<exists>call \<in> set calls. performed cfg work call)" "is_ok r \<or> r = Err CliOras"
    "p = (case r of Inr message \<Rightarrow> Exits 0 (line message) [] | Inl error \<Rightarrow> Exits 1 [] (line (autoindex_cli_message error)))"
    using program_calls[OF assms] by blast
  obtain source where spelled: "(operation, arguments) \<in> edit_spellings source (command_path operation)"
    using edit_spelled[OF run(2,3)] by blast
  obtain n where "p = (if \<exists>call \<in> set calls. performed cfg work call
           then Exits 0 (line (result_message (done_action operation) (command_path operation) n)) []
           else Exits 1 [] (line ''ORAS registry operation failed''))"
  proof (cases r)
    case (Inl e)
    with run(7-9) show thesis by (intro that) simp
  next
    case (Inr message)
    obtain n where "message = result_message (done_action operation) (command_path operation) n"
      using execute_message[OF run(4)[unfolded Inr] run(3)] by blast
    with Inr run(7,9) show thesis by (intro that[of n]) simp
  qed
  with run(1,5,6) spelled show ?thesis
    by (intro exI[of _ cfg] exI[of _ operation] exI[of _ source] exI[of _ "command_path operation"] exI[of _ work] exI[of _ calls] exI[of _ n])
      (simp add: performed_def list_all_iff)
qed

theorem edits_requested_witness:
  "\<exists>s'. exec (program edit_library sample_publisher_lib [''proxy'', ''autoindex'', ''create'', ''s'', ''b''] (Ok sample_config) True edit_start)
     [Sent edit_request (Answered edit_missing)] (Exits 0 (line ''created b (1 file(s))'') [], s')
     \<and> (\<exists>call \<in> set (st_calls s'). oc_succeeded call)"
proof -
  obtain s' where run: "exec (execute edit_library sample_publisher_lib sample_config edit_client (Create ''s'' ''b'' False) edit_start)
     [Sent edit_request (Answered edit_missing)] (Ok ''created b (1 file(s))'', s')" using edit_runs by blast
  have digits: "char_of (53::nat) = CHR ''5''" "char_of (48::nat) = CHR ''0''" by code_simp+
  have client: "client_new sample_config = edit_client"
    by (simp add: client_new_def sample_config_def edit_client_def origin_str_def host_for_authority_def contains_any_iff
      decimal_string.simps digits)
  have parsed: "parse [''proxy'', ''autoindex'', ''create'', ''s'', ''b''] = Ok (Autoindex (Create ''s'' ''b'' False))"
    by code_simp
  have prog: "exec (program edit_library sample_publisher_lib [''proxy'', ''autoindex'', ''create'', ''s'', ''b''] (Ok sample_config) True edit_start)
     ([Sent edit_request (Answered edit_missing)] @ []) (Exits 0 (line ''created b (1 file(s))'') [], s')"
    unfolding program_def parsed autoindex_program_def sum.case command.case client
    by (rule exec_bindI[OF run]) simp
  have "st_calls s' \<noteq> []"
  proof -
    have contract: "publisher_contract sample_publisher_lib (lib_json edit_library)"
      using sample.publisher_contract_axioms by (simp add: edit_library_def)
    have sha: "pl_sha sample_publisher_lib = lib_sha256 edit_library" by (simp add: sample_publisher_lib_def edit_library_def)
    have edit: "\<not> command_dry_run (Create ''s'' ''b'' False)" by simp
    from execute_edit[OF contract sha run edit] show ?thesis by (elim exE conjE) simp
  qed
  then have "st_calls s' \<noteq> st_calls edit_start" by (simp add: edit_start_def)
  from edits_requested[OF prog this] have "\<exists>call \<in> set (st_calls s'). oc_succeeded call"
    by (elim exE conjE) (auto simp: edit_start_def split: if_splits)
  with prog show ?thesis by auto
qed

end
