(* ===== verification/Upload_Locations.thy ===== *)
theory Upload_Locations
  imports Proxy
begin

text \<open>
  An upload between the proxy's two ends: what \<open>rewrite_distribution_location\<close> of \<open>src/oci.rs\<close> hands to the
  client as the address of an upload, \<open>src/oci_gateway.rs\<close> and \<open>src/proxy.rs\<close> read back when the client
  follows it.
\<close>

subsection \<open>The two loops over an upload's query\<close>

lemma valid_digest_sha256: "valid_digest v \<Longrightarrow> valid_sha256_digest v"
  by (auto simp: valid_digest_def valid_sha256_digest_def split: option.splits)

lemma session_of_upload: "upload_query_loop st dg parts \<Longrightarrow> session_query_loop st dg parts"
proof (induction st dg parts rule: upload_query_loop.induct)
  case (2 st dg part parts)
  obtain k v where kv: "split_once (CHR ''='') part = Some (k, v)"
    using "2.prems" by (cases "split_once (CHR ''='') part") auto
  show ?case
  proof (cases "k = ''_state''")
    case True
    with "2.prems" "2.IH"(1)[OF kv refl] show ?thesis by (simp add: kv split: if_splits)
  next
    case False
    with "2.prems" have "k = ''digest''" "\<not> dg" "is_ok (oci_valid_digest v)" "upload_query_loop st True parts"
      by (simp_all add: kv split: if_splits)
    with False "2.IH"(2)[OF kv refl] show ?thesis
      using valid_digest_sha256 oci_valid_digest_is_ok by (simp add: kv)
  qed
qed simp

definition query_byte :: "char \<Rightarrow> bool" where
  "query_byte c \<longleftrightarrow> \<not> is_ascii_control c \<and> c \<noteq> CHR ''#''"

lemma query_byte_words: "\<forall>c \<in> set (''_state'' @ ''digest'' @ ''=&''). query_byte c"
  unfolding query_byte_def by code_simp

lemma digest_query_bytes: "valid_digest v \<Longrightarrow> \<forall>c \<in> set v. query_byte c"
  using valid_digest_bytes plain_bytes unfolding query_byte_def by blast

lemma upload_key_bytes:
  assumes "upload_key_ok k v"
  shows "\<forall>c \<in> set (k @ CHR ''='' # v). query_byte c"
proof -
  have words: "\<forall>c \<in> set ''_state''. query_byte c" "\<forall>c \<in> set ''digest''. query_byte c" "query_byte (CHR ''='')"
    using query_byte_words by simp_all
  from assms consider
      "k = ''_state''" "\<not> list_ex (\<lambda>byte. is_ascii_control byte \<or> byte = CHR ''#'') v"
    | "k = ''digest''" "valid_digest v"
    unfolding upload_key_ok_def oci_valid_digest_is_ok by blast
  then show ?thesis
  proof cases
    case 1
    then have "\<forall>c \<in> set v. query_byte c" by (simp add: list_ex_iff query_byte_def)
    with 1(1) words show ?thesis by (metis Un_iff set_ConsD set_append)
  next
    case 2
    with words digest_query_bytes show ?thesis by (metis Un_iff set_ConsD set_append)
  qed
qed

lemma upload_query_bytes:
  assumes "once_each upload_key_ok (split_on (CHR ''&'') query)"
  shows "\<forall>c \<in> set query. query_byte c"
proof -
  have part: "\<forall>c \<in> set part. query_byte c" if "part \<in> set (split_on (CHR ''&'') query)" for part
  proof -
    have "key_value upload_key_ok part" using assms that by (auto simp: once_each_def list_all_iff)
    then obtain k v where "split_once (CHR ''='') part = Some (k, v)" "upload_key_ok k v"
      by (auto simp: key_value_def split: option.splits)
    then have "part = k @ CHR ''='' # v" "upload_key_ok k v" by (simp_all add: split_once_Some_iff)
    with upload_key_bytes show ?thesis by blast
  qed
  have "set query \<subseteq> insert (CHR ''&'') (\<Union> (set ` set (split_on (CHR ''&'') query)))"
    using set_join_with[of "CHR ''&''" "split_on (CHR ''&'') query"] by simp
  moreover have "query_byte (CHR ''&'')" using query_byte_words by simp
  ultimately show ?thesis using part by blast
qed

lemma upload_query_accepted:
  assumes "once_each upload_key_ok (split_on (CHR ''&'') query)" "method \<in> {''PATCH'', ''PUT'', ''DELETE''}"
  shows "valid_distribution_query (BlobUpload repository upload_id) method (Some query) repository"
proof -
  have "valid_upload_query query" using assms(1) by (simp add: valid_upload_query_iff)
  then have "query \<noteq> []" "session_query_loop False False (split_on (CHR ''&'') query)"
    using session_of_upload by (auto simp: valid_upload_query_def split: if_splits)
  moreover have "\<not> list_ex (\<lambda>byte. is_ascii_control byte \<or> byte = CHR ''#'') query"
    using upload_query_bytes[OF assms(1)] by (auto simp: query_byte_def list_ex_iff)
  ultimately show ?thesis using assms(2) by (simp add: valid_distribution_query_def)
qed

lemma valid_upload_id_iff: "valid_upload_id s \<longleftrightarrow> safe_upload_id s \<and> length s \<le> 512"
proof -
  have "is_ascii_alphanumeric c \<or> c \<in> set ''._-'' \<Longrightarrow> is_ascii c" for c by (auto simp: byte_defs)
  then show ?thesis unfolding valid_upload_id_def safe_upload_id_def list_all_iff by blast
qed

lemma rewritten_local:
  assumes "rewrite_distribution_location uri_of origin location repository = Ok v"
  shows "\<exists>path query. v = path_and_query_str (path, query) \<and> local_target repository path query"
proof -
  obtain pq where "check_location_target repository (fst pq) (snd pq) = Ok ()" "header_value_from (path_and_query_str pq) = Some v"
    using assms by (auto simp: rewrite_distribution_location_def split: option.splits)
  moreover from this(2) have "v = path_and_query_str pq" by (auto simp: header_value_from_def split: if_splits)
  ultimately show ?thesis by (cases pq) (auto simp: check_location_target_iff)
qed

text \<open>C21. An upload's address survives the proxy: a location the proxy passes on is, when the client
  follows it, either a blob of the configured repository with no query, or an upload session whose
  query is accepted for every method of a session; the session's path is accepted exactly when its
  id has at most 512 bytes, a limit that the rewriting does not have.\<close>

theorem location_roundtrip:
  assumes "rewrite_distribution_location uri_of origin location repository = Ok v"
  shows "\<exists>path query. v = path_and_query_str (path, query)
    \<and> ((\<exists>digest. query = None \<and> parse_path path repository = Ok (Blob repository digest))
       \<or> (\<exists>upload_id. path = upload_prefix repository @ upload_id
            \<and> (parse_path path repository = Ok (BlobUpload repository upload_id) \<longleftrightarrow> length upload_id \<le> 512)
            \<and> (\<forall>method \<in> {''PATCH'', ''PUT'', ''DELETE''}.
                 valid_distribution_query (BlobUpload repository upload_id) method query repository)))"
proof -
  obtain path query where v: "v = path_and_query_str (path, query)" and t: "local_target repository path query"
    using rewritten_local[OF assms] by blast
  have session: "parse_path (upload_prefix repository @ upload_id) repository = Ok (BlobUpload repository upload_id)
      \<longleftrightarrow> length upload_id \<le> 512" if "safe_upload_id upload_id" for upload_id
    using that by (simp add: parse_path_iff valid_upload_id_iff upload_prefix_def)
  have bare: "\<forall>method \<in> {''PATCH'', ''PUT'', ''DELETE''}.
      valid_distribution_query (BlobUpload repository upload_id) method None repository" for upload_id
    by (simp add: valid_distribution_query_def)
  show ?thesis
    using t
  proof (cases rule: local_target.cases)
    case (upload upload_id)
    with session[OF upload(3)] bare v show ?thesis by blast
  next
    case (upload_query upload_id q)
    with session[OF upload_query(3)] upload_query_accepted[OF upload_query(4)] v show ?thesis by blast
  next
    case (blob digest)
    then have "parse_path path repository = Ok (Blob repository digest)" by (simp add: parse_path_iff blob_prefix_def)
    with v blob(2) show ?thesis by blast
  qed
qed

text \<open>An address with the path and query of the upload and the origin of the registry.\<close>

definition example_uri :: "string \<Rightarrow> uri option" where
  "example_uri s = Some \<lparr>u_scheme = Some ''https'', u_authority = Some ''ghcr.io'',
     u_path_and_query = Some (''/v2/acme/demo/blobs/uploads/u-1'', Some ''_state=x%3D'')\<rparr>"

theorem location_roundtrip_witness:
  "rewrite_distribution_location example_uri ''https://ghcr.io''
     ''https://ghcr.io/v2/acme/demo/blobs/uploads/u-1?_state=x%3D'' ''acme/demo''
     = Ok ''/v2/acme/demo/blobs/uploads/u-1?_state=x%3D''
   \<and> (\<exists>path query. ''/v2/acme/demo/blobs/uploads/u-1?_state=x%3D'' = path_and_query_str (path, query)
      \<and> ((\<exists>digest. query = None \<and> parse_path path ''acme/demo'' = Ok (Blob ''acme/demo'' digest))
         \<or> (\<exists>upload_id. path = upload_prefix ''acme/demo'' @ upload_id
              \<and> (parse_path path ''acme/demo'' = Ok (BlobUpload ''acme/demo'' upload_id) \<longleftrightarrow> length upload_id \<le> 512)
              \<and> (\<forall>method \<in> {''PATCH'', ''PUT'', ''DELETE''}.
                   valid_distribution_query (BlobUpload ''acme/demo'' upload_id) method query ''acme/demo''))))"
proof -
  have run: "rewrite_distribution_location example_uri ''https://ghcr.io''
     ''https://ghcr.io/v2/acme/demo/blobs/uploads/u-1?_state=x%3D'' ''acme/demo''
     = Ok ''/v2/acme/demo/blobs/uploads/u-1?_state=x%3D''"
    by code_simp
  from run location_roundtrip[OF run] show ?thesis by (rule conjI)
qed

end
