(* ===== verification/Spec2Isabelle.thy ===== *)
theory Spec2Isabelle
  imports Program Upload_Locations
begin

text \<open>
  A verification development for the proxy crate \<open>crates/github-oras-packages-proxy\<close>; below, \<open>src/\<close> is
  the \<open>src/\<close> of that crate. The crate serves one repository of an OCI registry in two ways, as a tree
  of files to browse (autoindex) and as an OCI distribution endpoint, and it publishes such trees.

  \<^bold>\<open>The parts and how they meet.\<close> \<open>src/main.rs\<close> reads the command line (\<open>cli.rs\<close>) and the
  configuration (\<open>config.rs\<close>), and either starts the server or runs one edit of the published files
  (\<open>autoindex_cli.rs\<close>). The server (\<open>server.rs\<close>) answers the health endpoints itself and hands every
  other request to \<open>handle_gateway\<close> of \<open>proxy.rs\<close>. That handler checks the head of the request
  (\<open>inbound.rs\<close>) and its path (\<open>oci_gateway.rs\<close> for distribution, \<open>autoindex.rs\<close> for browsing,
  \<open>routing.rs\<close> for the older package routes), asks the one \<open>OciClient\<close> of \<open>oci.rs\<close>, which obtains bearer
  tokens through \<open>auth.rs\<close> and keeps them in a cache shared by all requests, and turns failures into
  fixed responses (\<open>errors.rs\<close>). \<open>publisher.rs\<close> makes an OCI layout of a directory; the program
  \<open>bin/autoindex-publish.rs\<close> does only that, and an edit does it with the downloaded, edited contents
  before it calls the external \<open>oras\<close> program.

  \<^bold>\<open>The library.\<close>
  \<^item> \<open>Prelude\<close>: results (\<open>Ok\<close> and \<open>Err\<close> of a sum), bytes and byte classes, the string operations of the
    Rust library that the crate uses, UTF-8 and decimal texts, arithmetic below \<open>2 ^ 64\<close>.
  \<^item> \<open>Ordered_Map\<close>: \<open>BTreeMap\<close> as a sorted list behind the locale \<open>ordered_map\<close>, interpreted as \<open>bt\<close>; the
    index, the token cache, the settings and the blobs of a publication rest on its laws.
  \<^item> \<open>Http\<close>: header maps, requests and responses. \<open>Ip_Addr\<close>: the address parser of \<open>std::net\<close>.
  \<^item> \<open>Json\<close>: JSON values and the pieces of derived \<open>Deserialize\<close> and \<open>Serialize\<close> implementations. \<open>Json_Text\<close>:
    the contract \<open>json_codec\<close> between a value and its text, and a writer and reader that keep it.
  \<^item> \<open>Grammars\<close>: the locales \<open>grammar\<close> and \<open>canonical_grammar\<close> for parsers that accept exactly the
    spellings of their values; \<open>Gateway\<close> interprets the first, \<open>Routing\<close> gives the second from a codec.
  \<^item> \<open>Base64url\<close>: the contract \<open>base64_codec\<close> of the codec that \<open>routing.rs\<close> calls, and the codec of RFC
    4648 as an interpretation of it.
  \<^item> \<open>File_Tree\<close>: \<open>std::path\<close> and trees of files, with the locale \<open>file_store\<close> interpreted as \<open>tree\<close>.

  \<^bold>\<open>The components.\<close> Definitions have the names of the functions and types they model.
  \<^item> \<open>autoindex.rs\<close>: \<open>Autoindex\<close> (paths, objects, the index as a map from paths, insertion, escaping) and
    \<open>Autoindex_Listing\<close> (what sequences of inserts build, what listings show, and that browsing reaches
    every object).
  \<^item> \<open>routing.rs\<close>: \<open>Routing\<close>. The protocol set is an 8-bit word and refines a set of protocols.
  \<^item> \<open>oci_gateway.rs\<close>: \<open>Gateway\<close>. \<open>inbound.rs\<close>: \<open>Inbound\<close>. \<open>errors.rs\<close>: \<open>Errors\<close>. \<open>auth.rs\<close>: \<open>Auth\<close>.
    Each check is stated as an exact condition, the responses to failures reveal only the relayed
    fields, a challenge is used only for the configured origin, and the cache is bounded (16
    entries), fresh and separate per repository.
  \<^item> \<open>oci.rs\<close>: \<open>Oci\<close> (descriptors, manifests, their JSON, projection), \<open>Oci_Client\<close> (classification of responses,
    locations, token endpoint), \<open>Blob_Stream\<close> (the verified body), \<open>Oci_Requests\<close> (the operations that
    talk to the registry).
  \<^item> \<open>Effects\<close> and \<open>Interleaving\<close>: asynchronous code as an interaction tree (\<open>'a io\<close>) that stops at every
    request to the upstream and every operation on the cache. \<open>exec\<close> and \<open>advance\<close> relate a tree to the
    trace of a run; any answer of the upstream, an elapsed deadline included, is a possible event.
    Tasks over one cache interleave at these stops.
  \<^item> \<open>proxy.rs\<close>: \<open>Proxy\<close> (all handlers) and \<open>Gateway_Safety\<close> (what a request may do at every prefix of its
    history, what its reply holds, that it ends). \<open>Upload_Locations\<close>: what \<open>oci.rs\<close> writes as the
    address of an upload, \<open>oci_gateway.rs\<close> and \<open>proxy.rs\<close> read.
  \<^item> \<open>config.rs\<close>: \<open>Config\<close>. \<open>server.rs\<close>: \<open>Server\<close>, with the accept loop as an inductive step relation, and
    the confinement of a whole service, from its settings to the requests it sends; also where the
    links of a listing lead after dispatch, the names that the service answers itself excepted.
  \<^item> \<open>publisher.rs\<close>: \<open>Publisher\<close>; \<open>Publication\<close> (well-formedness, and that the client reads back
    exactly the files, under the locale \<open>publisher_contract\<close>); \<open>Layout\<close> (writing the layout on a disk on
    which every operation may fail).
  \<^item> \<open>cli.rs\<close> and \<open>bin/autoindex-publish.rs\<close>: \<open>Cli\<close>.
  \<^item> \<open>autoindex_cli.rs\<close>: \<open>Autoindex_Cli\<close> (the operations over the state \<open>staging\<close>), \<open>Autoindex_Edit\<close> (the
    staged contents are the published index, edited at the named paths alone) and \<open>Autoindex_Runs\<close>
    (whole runs, with the calls of \<open>oras\<close> they make). A layout is described by its files alone: the
    manifest that stands for the index, to which \<open>index.json\<close> points, and every blob under its digest.
  \<^item> \<open>main.rs\<close> and the constant of \<open>lib.rs\<close>: \<open>Program\<close>, with the exit code of an edit as a function of
    the outcome of its calls.

  \<^bold>\<open>Bounds.\<close> No model uses fuel: each loop is a structural recursion or has a termination proof, and each
  task ends because its tree is finite. A request to the gateway stops at most 12 times and sends at
  most 6 requests (\<open>gateway_terminates\<close>); \<open>n\<close> concurrent ones take at most \<open>12 n\<close> steps
  (\<open>gateway_system_completes\<close>). The only counter is the code's own: 16 attempts at a temporary
  directory. Sizes that the code keeps in a \<open>u64\<close> or \<open>usize\<close> are naturals with the checked and saturating
  operations of the code written out against \<open>2 ^ 64\<close>.

  \<^bold>\<open>Parameters.\<close> The code of other crates is an argument of the model. The record \<open>library\<close> holds the URI
  parser, SHA-256 in hexadecimal, base64 and the JSON parser; \<open>publisher_lib\<close> holds SHA-256 and the JSON
  writer of the publisher. Which members a document has, their names, defaults and what becomes of
  others follows from the attributes of the types in \<open>oci.rs\<close> and \<open>publisher.rs\<close> and is modelled. What a
  property relies on is a hypothesis: \<open>publisher_contract\<close> says that the JSON parser reads what the
  writer writes (\<open>json_codec\<close>), that digests are 64 lowercase hexadecimal digits, and the digest of the
  text \<open>{}\<close>. The witnesses instantiate the parameters with concrete functions: the JSON of \<open>Json_Text\<close>,
  the base64 of \<open>Base64url\<close>, and for SHA-256 tables of the few contents that occur. Failures of the
  file system and of processes are lists of bits, one for each operation in the order of the code,
  so a property holds for every pattern of failures; whether the temporary directory of an edit can
  be removed at the end is a flag of its own (\<open>st_stuck\<close>). The time is an argument of the cache
  operations, in nanoseconds.

  \<^bold>\<open>Not modelled.\<close>
  \<^item> TLS, connection handling and HTTP/1 framing: they are \<open>hyper\<close>, \<open>rustls\<close> and \<open>tokio\<close>. A deadline is an
    outcome that may occur at any request, not a clock; backpressure of streamed bodies, and
    \<open>limited_body\<close>, which only wraps a body of another crate, are left out.
  \<^item> The \<open>Debug\<close> formatters, accessor functions of single fields, and test modules.
  \<^item> \<open>std::env\<close>: the settings are given as a map and the arguments as texts, both Unicode. File names
    and paths are taken to be UTF-8 on Unix, and the permission bits of the temporary directory and of
    the created files have no counterpart.
  \<^item> The \<open>oras\<close> program: a call is recorded with its arguments, its configuration directory, its input, the
    layout it finds and whether it was seen to end with success; what the registry does with it is
    outside.
\<close>

end
